(* ===== verification/Monza_Prelude.thy ===== *)
theory Monza_Prelude
  imports Main "HOL-Library.Word"
begin

unbundle bit_operations_syntax

text \<open>
  Shared types, errors, and arithmetic of the Monza development.  Addresses and
  sizes (\<open>snmalloc::address_t\<close>, \<open>size_t\<close>, \<open>uintptr_t\<close>) are 64-bit words, so that every
  sum and difference wraps the way the code wraps.  A call that does not return
  (\<open>kabort\<close>, \<open>abort\<close>, \<open>exit\<close>, \<open>abort_kernel_callback\<close>) is the left branch of a sum, and so
  is an access the language leaves undefined.  The build option
  \<open>PAGESIZE\<close> and the alignment functions of the snmalloc submodule are fields of a
  record that the definitions take as an argument; the locale \<open>snmalloc_env\<close> holds
  what the code relies on of them.
\<close>

type_synonym u8 = "8 word"
type_synonym u16 = "16 word"
type_synonym u32 = "32 word"
type_synonym u64 = "64 word"

datatype fault = KAbort | Abort | Exit int | AbortKernelCallback int | Undefined

type_synonym 'a result = "fault + 'a"

definition res_bind :: "'a result \<Rightarrow> ('a \<Rightarrow> 'b result) \<Rightarrow> 'b result" where
  "res_bind r f = (case r of Inl e \<Rightarrow> Inl e | Inr x \<Rightarrow> f x)"

primrec res_fold :: "('a \<Rightarrow> 's \<Rightarrow> 's result) \<Rightarrow> 'a list \<Rightarrow> 's \<Rightarrow> 's result" where
  "res_fold f [] s = Inr s"
| "res_fold f (x # xs) s = res_bind (f x s) (res_fold f xs)"

text \<open>Sequencing of steps that may fail and, through an unbounded loop, may not return.\<close>

definition run_bind :: "'a result option \<Rightarrow> ('a \<Rightarrow> 'b result option) \<Rightarrow> 'b result option" where
  "run_bind r f = (case r of None \<Rightarrow> None | Some (Inl e) \<Rightarrow> Some (Inl e) | Some (Inr x) \<Rightarrow> f x)"

text \<open>A \<open>for\<close> loop over a 64-bit counter with a body that may abort; None if it never ends.\<close>

partial_function (option) for_loop ::
  "(u64 \<Rightarrow> 's \<Rightarrow> 's result) \<Rightarrow> (u64 \<Rightarrow> u64) \<Rightarrow> u64 \<Rightarrow> u64 \<Rightarrow> 's \<Rightarrow> 's result option" where
  "for_loop body next stop a s =
    (if a < stop then
       (if isl (body a s) then Some (Inl (projl (body a s)))
        else for_loop body next stop (next a) (projr (body a s)))
     else Some (Inr s))"

record env =
  PAGE_SIZE :: u64
  MIN_CHUNK_SIZE :: u64
  align_up :: "u64 \<Rightarrow> u64 \<Rightarrow> u64"
  align_down :: "u64 \<Rightarrow> u64 \<Rightarrow> u64"
  next_pow2_bits_const :: "u64 \<Rightarrow> nat"

named_theorems word_nat "bridges from word comparisons and arithmetic to nat"

definition pow2 :: "u64 \<Rightarrow> bool" where
  "pow2 a \<longleftrightarrow> (\<exists>k < 64. a = 2 ^ k)"

definition up_to :: "nat \<Rightarrow> nat \<Rightarrow> nat" where
  "up_to a n = (n + a - 1) div a * a"

definition down_to :: "nat \<Rightarrow> nat \<Rightarrow> nat" where
  "down_to a n = n div a * a"

text \<open>The 4 KB page with the given frame number.\<close>

definition frame :: "nat \<Rightarrow> u64" where
  "frame k = word_of_nat (4096 * k)"

lemma res_bind_simps [simp]:
  "res_bind (Inl e) f = Inl e"
  "res_bind (Inr x) f = f x"
  by (simp_all add: res_bind_def)

lemma res_bind_Inr_iff:
  "res_bind r f = Inr y \<longleftrightarrow> (\<exists>x. r = Inr x \<and> f x = Inr y)"
  by (cases r) auto

lemma run_bind_simps [simp]:
  "run_bind None f = None"
  "run_bind (Some (Inl e)) f = Some (Inl e)"
  "run_bind (Some (Inr x)) f = f x"
  by (simp_all add: run_bind_def)

lemma unat_up: "LENGTH('a) \<le> LENGTH('b) \<Longrightarrow> unat (ucast (x :: 'a::len word) :: 'b::len word) = unat x"
  by transfer (simp add: take_bit_take_bit min_def)

lemma run_bind_ok_iff:
  "run_bind r f = Some (Inr y) \<longleftrightarrow> (\<exists>x. r = Some (Inr x) \<and> f x = Some (Inr y))"
  by (auto simp: run_bind_def split: option.splits sum.splits)

lemma res_fold_append:
  "res_fold f (xs @ ys) s = res_bind (res_fold f xs s) (res_fold f ys)"
proof (induction xs arbitrary: s)
  case (Cons x xs)
  then show ?case by (cases "f x s") auto
qed simp

lemma res_fold_invariant:
  assumes "res_fold f xs s = Inr t" and "P s"
    and "\<And>x s t. x \<in> set xs \<Longrightarrow> P s \<Longrightarrow> f x s = Inr t \<Longrightarrow> P t"
  shows "P t"
  using assms
proof (induction xs arbitrary: s)
  case (Cons x xs)
  then obtain u where u: "f x s = Inr u" "res_fold f xs u = Inr t"
    by (auto simp: res_bind_Inr_iff)
  have "P u" using Cons.prems(2,3) u(1) by auto
  then show ?case using Cons.IH [OF u(2)] Cons.prems(3) by auto
qed auto

lemma word_le_nat [word_nat]: "x \<le> y \<longleftrightarrow> unat x \<le> unat y" for x :: "'a::len word"
  by (rule word_le_nat_alt)

lemma word_less_nat [word_nat]: "x < y \<longleftrightarrow> unat x < unat y" for x :: "'a::len word"
  by (rule word_less_nat_alt)

lemma word_eq_nat: "x = y \<longleftrightarrow> unat x = unat y" for x :: "'a::len word"
  by (rule word_unat_eq_iff)

lemma unat_lt64 [simp]: "unat (x :: u64) < 18446744073709551616"
  using unsigned_less [of x] by simp

lemma unat_add64:
  "unat (x :: u64) + unat y < 2 ^ 64 \<Longrightarrow> unat (x + y) = unat x + unat y"
  using unat_add_lem [of x y] by simp

lemma unat_sub64: "unat (y :: u64) \<le> unat x \<Longrightarrow> unat (x - y) = unat x - unat y"
  by (simp add: unat_sub word_le_nat_alt)

lemma unat_of_nat64: "n < 2 ^ 64 \<Longrightarrow> unat (word_of_nat n :: u64) = n"
  by (simp only: unat_of_nat take_bit_eq_mod) simp

lemma unat_frame: "4096 * k < 2 ^ 64 \<Longrightarrow> unat (frame k) = 4096 * k"
  unfolding frame_def by (rule unat_of_nat64)

lemma frame_unique: "unat x = 4096 * k \<Longrightarrow> x = frame k"
  using unat_frame [of k] unat_lt64 [of x] by (simp add: word_eq_nat)

lemma frame_inj: "4096 * j < 2 ^ 64 \<Longrightarrow> 4096 * k < 2 ^ 64 \<Longrightarrow> frame j = frame k \<Longrightarrow> j = k"
proof -
  assume h: "4096 * j < 2 ^ 64" "4096 * k < 2 ^ 64" "frame j = frame k"
  have "4096 * j = 4096 * k" using unat_frame [OF h(1)] unat_frame [OF h(2)] h(3) by metis
  then show ?thesis by simp
qed

lemma down_to_le: "down_to a n \<le> n"
  by (simp add: down_to_def)

lemma down_to_gt: "0 < a \<Longrightarrow> n < down_to a n + a"
  by (metis add.commute down_to_def dividend_less_times_div mult.commute)

lemma down_to_dvd [simp]: "a dvd down_to a n"
  by (simp add: down_to_def)

lemma up_to_dvd [simp]: "a dvd up_to a n"
  by (simp add: up_to_def)

lemma up_to_ge: "0 < a \<Longrightarrow> n \<le> up_to a n"
  using down_to_gt [of a "n + a - 1"] by (simp add: up_to_def down_to_def)

lemma up_to_less: "0 < a \<Longrightarrow> up_to a n < n + a"
  using down_to_le [of a "n + a - 1"] unfolding up_to_def down_to_def by linarith

lemma down_to_id: "a dvd n \<Longrightarrow> down_to a n = n"
  by (simp add: down_to_def)

lemma down_to_greatest: "a dvd m \<Longrightarrow> m \<le> n \<Longrightarrow> m \<le> down_to a n"
  unfolding down_to_def by (metis div_le_mono dvd_div_mult_self mult_le_mono1)

lemma up_to_id: "0 < a \<Longrightarrow> a dvd n \<Longrightarrow> up_to a n = n"
proof -
  assume a: "0 < a" "a dvd n"
  have "up_to a n < n + a" "n \<le> up_to a n" using a up_to_less up_to_ge by auto
  then have "up_to a n - n < a" "a dvd up_to a n - n" "n \<le> up_to a n"
    using a by (auto simp: dvd_diff_nat)
  then show ?thesis by (metis dvd_imp_le le_antisym not_less diff_is_0_eq zero_less_iff_neq_zero)
qed

lemma up_to_least: "0 < a \<Longrightarrow> a dvd m \<Longrightarrow> n \<le> m \<Longrightarrow> up_to a n \<le> m"
  by (metis Nat.add_diff_assoc One_nat_def Suc_leI add_le_mono1 div_le_mono mult_le_mono1 up_to_def up_to_id)

lemma up_to_up_to: "0 < a \<Longrightarrow> 0 < b \<Longrightarrow> a dvd b \<Longrightarrow> up_to b (up_to a n) = up_to b n"
proof (rule le_antisym)
  assume h: "0 < a" "0 < b" "a dvd b"
  have "up_to a n \<le> up_to b n" using h by (meson dvd_trans up_to_dvd up_to_ge up_to_least)
  then show "up_to b (up_to a n) \<le> up_to b n" using h by (simp add: up_to_least)
  show "up_to b n \<le> up_to b (up_to a n)"
    using h up_to_ge [of a n] up_to_ge [of b "up_to a n"] by (simp add: up_to_least)
qed

lemma dvd_less_step: "a dvd m \<Longrightarrow> a dvd n \<Longrightarrow> m < n \<Longrightarrow> m + a \<le> n" for a m n :: nat
proof (elim dvdE)
  fix p q assume h: "m < n" "m = a * p" "n = a * q"
  then have "a * Suc p \<le> a * q" by (intro mult_le_mono2) (simp add: Suc_leI)
  then show ?thesis using h by simp
qed

lemma pow2_pos: "pow2 a \<Longrightarrow> 0 < unat a"
  by (auto simp: pow2_def unat_gt_0)

lemma pow2I: "k < 64 \<Longrightarrow> a = 2 ^ k \<Longrightarrow> pow2 a"
  by (auto simp: pow2_def)

lemma unat_pow2_word: "k < 64 \<Longrightarrow> unat (2 ^ k :: u64) = 2 ^ k"
proof -
  assume "k < 64"
  then have "(2::nat) ^ k < 2 ^ 64" by (rule power_strict_increasing) simp
  then show ?thesis using unat_of_nat [where 'a=64, of "2^k"] by (simp add: take_bit_eq_mod)
qed

lemma pow2_dvd: "pow2 a \<Longrightarrow> pow2 b \<Longrightarrow> unat a \<le> unat b \<Longrightarrow> unat a dvd unat b"
proof -
  assume h: "pow2 a" "pow2 b" "unat a \<le> unat b"
  obtain j k where "a = 2 ^ j" "j < 64" "b = 2 ^ k" "k < 64" using h(1,2) by (auto simp: pow2_def)
  then have "unat a = 2 ^ j" "unat b = 2 ^ k" by (simp_all only: unat_pow2_word)
  then show ?thesis using h(3) by (simp add: le_imp_power_dvd)
qed

lemma pow2_pages [simp]: "pow2 4096" "pow2 2097152"
  by (rule pow2I [of 12], simp, simp) (rule pow2I [of 21], simp, simp)

lemma and_pow2_minus_1: "pow2 a \<Longrightarrow> (x AND (a - 1)) = 0 \<longleftrightarrow> unat a dvd unat x"
proof -
  assume "pow2 a"
  then obtain k where k: "k < 64" "a = 2 ^ k" by (auto simp: pow2_def)
  have "x AND (a - 1) = take_bit k x"
    by (simp add: k(2) take_bit_eq_mask mask_eq_decr_exp)
  moreover have "unat (take_bit k x) = unat x mod 2 ^ k"
    unfolding unsigned_take_bit_eq by (rule take_bit_eq_mod)
  ultimately have "unat (x AND (a - 1)) = unat x mod unat a"
    using k by (simp only: unat_pow2_word)
  then show ?thesis by (simp only: word_unat_eq_iff dvd_eq_mod_eq_0 unsigned_0)
qed

lemma or_and_zero: "((x OR y) AND m) = 0 \<longleftrightarrow> (x AND m) = 0 \<and> (y AND m) = 0" for m :: u64
  by (simp only: bit.conj_disj_distrib2 or_eq_0_iff)

lemma for_loop_rule:
  assumes "\<And>a s. base \<le> a \<Longrightarrow> a < stop \<Longrightarrow> I a s \<Longrightarrow> (\<exists>t. body a s = Inr t \<and> I (next a) t)"
    and "\<And>a. base \<le> a \<Longrightarrow> a < stop \<Longrightarrow> a < next a"
    and "base \<le> a" and "I a s"
  shows "\<exists>t b. for_loop body next stop a s = Some (Inr t) \<and> stop \<le> b \<and> I b t"
  using assms(3,4)
proof (induction "unat stop - unat a" arbitrary: a s rule: less_induct)
  case less
  show ?case
  proof (cases "a < stop")
    case True
    obtain t where t: "body a s = Inr t" "I (next a) t" using assms(1) less.prems True by blast
    have adv: "a < next a" using assms(2) less.prems(1) True by blast
    then have "unat stop - unat (next a) < unat stop - unat a" using True by (simp add: word_less_nat)
    from less.hyps [OF this _ t(2)] adv less.prems(1) t(1) True show ?thesis
      by (subst for_loop.simps) auto
  next
    case False
    then show ?thesis using less.prems(2) by (subst for_loop.simps) (auto simp: linorder_not_less)
  qed
qed

lemma for_loop_total:
  assumes "\<And>a. base \<le> a \<Longrightarrow> a < stop \<Longrightarrow> a < next a" and "base \<le> a"
  shows "\<exists>r. for_loop body next stop a s = Some r"
  using assms(2)
proof (induction "unat stop - unat a" arbitrary: a s rule: less_induct)
  case less
  show ?case
  proof (cases "a < stop \<and> \<not> isl (body a s)")
    case True
    then have n: "a < next a" using assms(1) less.prems by blast
    then have "unat stop - unat (next a) < unat stop - unat a" using True by (auto simp: word_less_nat)
    from less.hyps [OF this] n less.prems True show ?thesis by (subst for_loop.simps) auto
  qed (subst for_loop.simps, auto)
qed

lemma for_loop_inv:
  assumes run: "for_loop body next stop a s = Some (Inr t)"
    and step: "\<And>a s t. base \<le> a \<Longrightarrow> a < stop \<Longrightarrow> I a s \<Longrightarrow> body a s = Inr t \<Longrightarrow> I (next a) t"
    and adv: "\<And>a. base \<le> a \<Longrightarrow> a < stop \<Longrightarrow> a < next a"
    and "base \<le> a" and "I a s"
  shows "\<exists>b. stop \<le> b \<and> I b t"
  using run assms(4,5)
proof (induction "unat stop - unat a" arbitrary: a s rule: less_induct)
  case less
  show ?case
  proof (cases "a < stop")
    case True
    then have nl: "\<not> isl (body a s)" and rest: "for_loop body next stop (next a) (projr (body a s)) = Some (Inr t)"
      using less.prems(1) by (subst (asm) for_loop.simps, auto split: if_splits)+
    then obtain u where u: "body a s = Inr u" by (cases "body a s") auto
    have n: "a < next a" using adv less.prems(2) True by blast
    then have "unat stop - unat (next a) < unat stop - unat a" using True by (simp add: word_less_nat)
    from less.hyps [OF this rest] n less.prems(2) step [OF less.prems(2) True less.prems(3) u] u
    show ?thesis by auto
  next
    case False
    then have "s = t" using less.prems(1) by (subst (asm) for_loop.simps) simp
    then show ?thesis using False less.prems(3) by (auto simp: linorder_not_less)
  qed
qed

text \<open>
  What the code relies on of the snmalloc submodule and of the build: the page
  size is one of the two of the CMake option, \<open>align_down\<close> rounds down to a multiple
  of a power of two, \<open>align_up\<close> rounds up to one when the sum does not wrap, the
  smallest chunk is a power of two of at least 4 KB, and
  \<open>next_pow2_bits_const\<close> is the logarithm on powers of two.
\<close>
locale snmalloc_env =
  fixes E :: env
  assumes page_size: "PAGE_SIZE E = 4096 \<or> PAGE_SIZE E = 2097152"
    and align_down: "pow2 a \<Longrightarrow> unat (align_down E x a) = down_to (unat a) (unat x)"
    and align_up: "pow2 a \<Longrightarrow> unat x + unat a \<le> 2 ^ 64 \<Longrightarrow>
      unat (align_up E x a) = up_to (unat a) (unat x)"
    and chunk_size: "\<exists>k. 12 \<le> k \<and> k \<le> 32 \<and> MIN_CHUNK_SIZE E = 2 ^ k"
    and next_pow2_bits: "k < 64 \<Longrightarrow> next_pow2_bits_const E (2 ^ k) = k"
begin

lemma page_size_pow2 [simp]: "pow2 (PAGE_SIZE E)"
  using page_size by auto

lemma page_size_pos [simp]: "0 < unat (PAGE_SIZE E)"
  using page_size by auto

lemma page_size_bound: "unat (PAGE_SIZE E) \<le> 2097152"
  using page_size by auto

lemma page_size_4k: "4096 dvd unat (PAGE_SIZE E)"
  using page_size by auto

lemma chunk_size_pow2: "pow2 (MIN_CHUNK_SIZE E)" and chunk_size_bound: "unat (MIN_CHUNK_SIZE E) \<le> 2 ^ 32"
proof -
  obtain k where k: "12 \<le> k" "k \<le> 32" "MIN_CHUNK_SIZE E = 2 ^ k" using chunk_size by blast
  then show "pow2 (MIN_CHUNK_SIZE E)" by (intro pow2I [of k]) simp_all
  have "unat (MIN_CHUNK_SIZE E) = 2 ^ k" using k by (simp only: unat_pow2_word)
  also have "\<dots> \<le> 2 ^ 32" using k(2) by (rule power_increasing) simp
  finally show "unat (MIN_CHUNK_SIZE E) \<le> 2 ^ 32" .
qed

end

text \<open>A concrete instance of the alignment functions, on which the witnesses run.\<close>

definition rounding_env :: "u64 \<Rightarrow> env" where
  "rounding_env p = \<lparr>PAGE_SIZE = p, MIN_CHUNK_SIZE = 0x4000,
     align_up = (\<lambda>x a. (x + (a - 1)) - (x + (a - 1)) mod a),
     align_down = (\<lambda>x a. x - x mod a),
     next_pow2_bits_const = (\<lambda>x. length (takeWhile (\<lambda>k. 2 ^ k < x) [0..<64]))\<rparr>"

lemma unat_round_down: "unat (x - x mod a) = down_to (unat a) (unat x)" for a :: u64
proof -
  have "unat (x mod a) = unat x mod unat a" by (rule unat_mod)
  moreover have "unat x mod unat a \<le> unat x" by simp
  ultimately have "unat (x - x mod a) = unat x - unat x mod unat a"
    by (simp add: unat_sub64)
  then show ?thesis by (simp add: down_to_def minus_mod_eq_div_mult)
qed

lemma takeWhile_less_upt: "k \<le> n \<Longrightarrow> takeWhile (\<lambda>j. j < k) [0..<n] = [0..<k]"
proof -
  assume "k \<le> n"
  then have "[0..<n] = [0..<k] @ [k..<n]" by (metis le_add_diff_inverse upt_add_eq_append zero_le)
  moreover have "takeWhile (\<lambda>j. j < k) [k..<n] = []" by (cases "k < n") (simp_all add: upt_conv_Cons)
  moreover have "takeWhile (\<lambda>j. j < k) ([0..<k] @ [k..<n]) =
      [0..<k] @ takeWhile (\<lambda>j. j < k) [k..<n]"
    by (rule takeWhile_append2) simp
  ultimately show ?thesis by simp
qed

lemma rounding_env_laws:
  assumes "p = 4096 \<or> p = 2097152"
  shows "snmalloc_env (rounding_env p)"
proof
  show "PAGE_SIZE (rounding_env p) = 4096 \<or> PAGE_SIZE (rounding_env p) = 2097152"
    using assms by (simp add: rounding_env_def)
next
  fix a x :: u64
  show "unat (align_down (rounding_env p) x a) = down_to (unat a) (unat x)"
    by (simp add: rounding_env_def unat_round_down)
next
  fix a x :: u64
  assume "pow2 a" "unat x + unat a \<le> 2 ^ 64"
  moreover from this have "unat (a - 1) = unat a - 1"
    using pow2_pos [of a] by (simp add: unat_sub64)
  ultimately have "unat (x + (a - 1)) = unat x + unat a - 1"
    using pow2_pos [of a] by (subst unat_add64) simp_all
  then show "unat (align_up (rounding_env p) x a) = up_to (unat a) (unat x)"
    by (simp add: rounding_env_def unat_round_down up_to_def down_to_def)
next
  show "\<exists>k. 12 \<le> k \<and> k \<le> 32 \<and> MIN_CHUNK_SIZE (rounding_env p) = 2 ^ k"
    by (intro exI [of _ 14]) (simp add: rounding_env_def)
next
  fix k :: nat assume k: "k < 64"
  have "(2 ^ j < (2 ^ k :: u64)) \<longleftrightarrow> j < k" if "j < 64" for j
    using that k by (simp add: word_less_nat unat_pow2_word)
  then have "takeWhile (\<lambda>j. 2 ^ j < (2 ^ k :: u64)) [0..<64] = takeWhile (\<lambda>j. j < k) [0..<64]"
    by (intro takeWhile_cong) auto
  also have "\<dots> = [0..<k]"
    using k by (intro takeWhile_less_upt) simp
  finally show "next_pow2_bits_const (rounding_env p) (2 ^ k) = k"
    by (simp add: rounding_env_def)
qed

interpretation small_pages: snmalloc_env "rounding_env 4096"
  by (rule rounding_env_laws) simp

interpretation large_pages: snmalloc_env "rounding_env 2097152"
  by (rule rounding_env_laws) simp

lemma rounding_env_sel [simp]:
  "PAGE_SIZE (rounding_env p) = p"
  "MIN_CHUNK_SIZE (rounding_env p) = 0x4000"
  "align_up (rounding_env p) x a = (x + (a - 1)) - (x + (a - 1)) mod a"
  "align_down (rounding_env p) x a = x - x mod a"
  by (simp_all add: rounding_env_def)

end
