(* ===== verification/Address_Range.thy ===== *)
theory Address_Range
  imports Monza_Prelude
begin

unbundle bit_operations_syntax

text \<open>
  \<open>guest-verona-rt/include/public/address.h\<close>: the address range class that the heap,
  the page tables, the trap handler and the shared-memory checks use.  One
  definition per constructor and method.  The lemmas read a range as the set of
  addresses it overlaps and show that rounding inwards and outwards are the
  exact inner and outer approximations by aligned blocks.
\<close>

record AddressRange =
  rstart :: u64
  rend :: u64

definition empty_range :: AddressRange where
  "empty_range = \<lparr>rstart = 0, rend = 0\<rparr>"

definition span_range :: "u64 \<Rightarrow> u64 \<Rightarrow> u64 \<Rightarrow> AddressRange" where
  "span_range data count elem_size = \<lparr>rstart = data, rend = data + count * elem_size\<rparr>"

definition mk_range :: "u64 \<Rightarrow> u64 \<Rightarrow> AddressRange" where
  "mk_range s e = \<lparr>rstart = s, rend = (if e > s then e else s)\<rparr>"

definition overlaps :: "AddressRange \<Rightarrow> u64 \<Rightarrow> bool" where
  "overlaps r address \<longleftrightarrow> rstart r \<le> address \<and> address < rend r"

definition is_empty_range :: "AddressRange \<Rightarrow> bool" where
  "is_empty_range r \<longleftrightarrow> rstart r = rend r"

definition range_size :: "AddressRange \<Rightarrow> u64" where
  "range_size r = rend r - rstart r"

definition align_up_start :: "env \<Rightarrow> AddressRange \<Rightarrow> u64 \<Rightarrow> AddressRange" where
  "align_up_start E r alignment =
    (let aligned_start = align_up E (rstart r) alignment in
     if aligned_start \<ge> rend r then mk_range aligned_start aligned_start
     else mk_range aligned_start (rend r))"

definition align_up_end :: "env \<Rightarrow> AddressRange \<Rightarrow> u64 \<Rightarrow> AddressRange" where
  "align_up_end E r alignment =
    (let aligned_end = align_up E (rend r) alignment in mk_range (rstart r) aligned_end)"

definition align_down_start :: "env \<Rightarrow> AddressRange \<Rightarrow> u64 \<Rightarrow> AddressRange" where
  "align_down_start E r alignment =
    (let aligned_start = align_down E (rstart r) alignment in mk_range aligned_start (rend r))"

definition align_down_end :: "env \<Rightarrow> AddressRange \<Rightarrow> u64 \<Rightarrow> AddressRange" where
  "align_down_end E r alignment =
    (let aligned_end = align_down E (rend r) alignment in
     if aligned_end \<le> rstart r then mk_range aligned_end aligned_end
     else mk_range (rstart r) aligned_end)"

definition align_restrict :: "env \<Rightarrow> AddressRange \<Rightarrow> u64 \<Rightarrow> AddressRange" where
  "align_restrict E r alignment =
    (let aligned_start = align_up E (rstart r) alignment;
         aligned_end = align_down E (rend r) alignment in
     if aligned_end \<le> aligned_start then mk_range aligned_start aligned_start
     else mk_range aligned_start aligned_end)"

definition align_broaden :: "env \<Rightarrow> AddressRange \<Rightarrow> u64 \<Rightarrow> AddressRange" where
  "align_broaden E r alignment =
    (let aligned_start = align_down E (rstart r) alignment;
         aligned_end = align_up E (rend r) alignment in
     mk_range aligned_start aligned_end)"

definition check_valid_subrange :: "AddressRange \<Rightarrow> AddressRange \<Rightarrow> bool" where
  "check_valid_subrange r other \<longleftrightarrow>
    rstart other \<ge> rstart r \<and> rstart other < rend r \<and> rend other > rstart r \<and>
    rend other < rend r \<and> rstart other < rend other"

definition is_aligned_block :: "u64 \<Rightarrow> AddressRange \<Rightarrow> bool" where
  "is_aligned_block alignment r \<longleftrightarrow> ((rstart r OR rend r) AND (alignment - 1)) = 0"

text \<open>The invariant of a range built by the two-address constructors.\<close>

definition range_wf :: "AddressRange \<Rightarrow> bool" where
  "range_wf r \<longleftrightarrow> rstart r \<le> rend r"

lemmas range_defs = mk_range_def overlaps_def is_empty_range_def range_size_def range_wf_def

lemma mk_range_sel [simp]:
  "rstart (mk_range s e) = s"
  "rend (mk_range s e) = (if e > s then e else s)"
  by (simp_all add: mk_range_def)

lemma mk_range_wf [simp]: "range_wf (mk_range s e)"
  by (auto simp: range_wf_def)

lemma overlaps_mk_range: "overlaps (mk_range s e) x \<longleftrightarrow> s \<le> x \<and> x < e"
  by (auto simp: overlaps_def)

lemma align_ops_wf:
  "range_wf (align_up_start E r a)" "range_wf (align_down_end E r a)"
  "range_wf (align_up_end E r a)" "range_wf (align_down_start E r a)"
  "range_wf (align_restrict E r a)" "range_wf (align_broaden E r a)"
  by (simp_all add: align_up_start_def align_down_end_def align_up_end_def
      align_down_start_def align_restrict_def align_broaden_def Let_def)

lemma range_size_unat: "range_wf r \<Longrightarrow> unat (range_size r) = unat (rend r) - unat (rstart r)"
  by (simp add: range_wf_def range_size_def unat_sub64 word_nat)

lemma is_empty_range_iff: "range_wf r \<Longrightarrow> is_empty_range r \<longleftrightarrow> (\<forall>x. \<not> overlaps r x)"
  unfolding range_defs by (metis leD order.refl order_le_imp_less_or_eq)

lemma is_aligned_block_iff:
  "pow2 a \<Longrightarrow> is_aligned_block a r \<longleftrightarrow> unat a dvd unat (rstart r) \<and> unat a dvd unat (rend r)"
  by (simp add: is_aligned_block_def or_and_zero and_pow2_minus_1)

lemma check_valid_subrange_subset:
  "check_valid_subrange r other \<Longrightarrow> overlaps other x \<Longrightarrow> overlaps r x"
  by (auto simp: check_valid_subrange_def overlaps_def)

lemma nat_block_restrict:
  fixes a s e x :: nat
  assumes "0 < a"
  shows "up_to a s \<le> x \<and> x < down_to a e \<longleftrightarrow> s \<le> down_to a x \<and> down_to a x + a \<le> e"
proof -
  have 1: "up_to a s \<le> x \<longleftrightarrow> s \<le> down_to a x"
  proof
    assume "up_to a s \<le> x"
    then have "up_to a s \<le> down_to a x" by (simp add: down_to_greatest)
    then show "s \<le> down_to a x" using up_to_ge [OF assms, of s] by linarith
  next
    assume "s \<le> down_to a x"
    then have "up_to a s \<le> down_to a x" by (simp add: up_to_least assms)
    then show "up_to a s \<le> x" using down_to_le [of a x] by linarith
  qed
  have 2: "x < down_to a e \<longleftrightarrow> down_to a x + a \<le> e"
  proof
    assume "x < down_to a e"
    then have "down_to a x < down_to a e" using down_to_le [of a x] by linarith
    then have "down_to a x + a \<le> down_to a e" by (simp add: dvd_less_step)
    then show "down_to a x + a \<le> e" using down_to_le [of a e] by linarith
  next
    assume "down_to a x + a \<le> e"
    then have "down_to a x + a \<le> down_to a e"
      by (intro down_to_greatest) (simp_all add: dvd_add)
    then show "x < down_to a e" using down_to_gt [OF assms, of x] by linarith
  qed
  show ?thesis using 1 2 by blast
qed

lemma nat_block_broaden:
  fixes a s e x :: nat
  assumes "0 < a" and "s < e"
  shows "down_to a s \<le> x \<and> x < up_to a e \<longleftrightarrow> (\<exists>y. s \<le> y \<and> y < e \<and> down_to a y = down_to a x)"
proof
  assume x: "down_to a s \<le> x \<and> x < up_to a e"
  have d: "down_to a s \<le> down_to a x" using x by (simp add: down_to_greatest)
  have "down_to a x < e"
  proof (rule ccontr)
    assume "\<not> down_to a x < e"
    then have "up_to a e \<le> down_to a x" by (simp add: up_to_least assms(1))
    then show False using x down_to_le [of a x] by linarith
  qed
  moreover have "down_to a (max s (down_to a x)) = down_to a x"
  proof (cases "s \<le> down_to a x")
    case False
    then have "down_to a x \<le> down_to a s" by (simp add: down_to_greatest)
    then show ?thesis using False d by (simp add: max_def)
  qed (simp add: max_def down_to_id)
  ultimately show "\<exists>y. s \<le> y \<and> y < e \<and> down_to a y = down_to a x"
    using assms(2) by (intro exI [of _ "max s (down_to a x)"]) auto
next
  assume "\<exists>y. s \<le> y \<and> y < e \<and> down_to a y = down_to a x"
  then obtain y where y: "s \<le> y" "y < e" "down_to a y = down_to a x" by blast
  have "down_to a s \<le> down_to a y" using y(1) by (simp add: down_to_def div_le_mono)
  moreover have "down_to a y + a \<le> up_to a e"
  proof -
    have "down_to a y < up_to a e"
      using down_to_le [of a y] y(2) up_to_ge [OF assms(1), of e] by linarith
    then show ?thesis by (simp add: dvd_less_step)
  qed
  ultimately show "down_to a s \<le> x \<and> x < up_to a e"
    using y(3) down_to_le [of a x] down_to_gt [OF assms(1), of x] by linarith
qed

text \<open>Rounding a range inwards (\<open>align_restrict\<close>) gives an aligned block, and an address
  is in it exactly when the whole aligned block around that address was in the range.\<close>
theorem align_restrict_exact:
  assumes "snmalloc_env E" and "pow2 a" and "unat (rstart r) + unat a \<le> 2 ^ 64"
  shows "is_aligned_block a (align_restrict E r a) \<and>
    (\<forall>x. overlaps (align_restrict E r a) x \<longleftrightarrow>
      unat (rstart r) \<le> down_to (unat a) (unat x) \<and> down_to (unat a) (unat x) + unat a \<le> unat (rend r))"
proof -
  have s: "unat (align_up E (rstart r) a) = up_to (unat a) (unat (rstart r))"
    and e: "unat (align_down E (rend r) a) = down_to (unat a) (unat (rend r))"
    using assms by (simp_all add: snmalloc_env.align_up snmalloc_env.align_down)
  have "overlaps (align_restrict E r a) x \<longleftrightarrow>
      up_to (unat a) (unat (rstart r)) \<le> unat x \<and> unat x < down_to (unat a) (unat (rend r))" for x
    by (auto simp: align_restrict_def Let_def overlaps_mk_range word_nat s e)
  moreover have "is_aligned_block a (align_restrict E r a)"
    by (simp add: is_aligned_block_iff [OF assms(2)] align_restrict_def Let_def s e)
  ultimately show ?thesis using nat_block_restrict [OF pow2_pos [OF assms(2)]] by simp
qed

theorem align_restrict_exact_witness:
  "is_aligned_block 4096 (align_restrict (rounding_env 4096) (mk_range 0x600010 0x800010) 4096) \<and>
   overlaps (align_restrict (rounding_env 4096) (mk_range 0x600010 0x800010) 4096) 0x601000 \<and>
   \<not> overlaps (align_restrict (rounding_env 4096) (mk_range 0x600010 0x800010) 4096) 0x600fff"
  using align_restrict_exact [OF small_pages.snmalloc_env_axioms, of 4096 "mk_range 0x600010 0x800010"]
  by (simp add: down_to_def)

text \<open>Rounding a non-empty range outwards (\<open>align_broaden\<close>) gives an aligned block, and an
  address is in it exactly when its aligned block meets the range.\<close>
theorem align_broaden_exact:
  assumes "snmalloc_env E" and "pow2 a" and "rstart r < rend r" and "unat (rend r) + unat a \<le> 2 ^ 64"
  shows "is_aligned_block a (align_broaden E r a) \<and>
    (\<forall>x. overlaps (align_broaden E r a) x \<longleftrightarrow>
      (\<exists>y. overlaps r y \<and> down_to (unat a) (unat y) = down_to (unat a) (unat x)))"
proof -
  have s: "unat (align_down E (rstart r) a) = down_to (unat a) (unat (rstart r))"
    and e: "unat (align_up E (rend r) a) = up_to (unat a) (unat (rend r))"
    using assms by (simp_all add: snmalloc_env.align_up snmalloc_env.align_down)
  have pos: "0 < unat a" and lt: "unat (rstart r) < unat (rend r)"
    using assms(2,3) by (simp_all add: pow2_pos word_less_nat)
  have ov: "overlaps (align_broaden E r a) x \<longleftrightarrow>
      down_to (unat a) (unat (rstart r)) \<le> unat x \<and> unat x < up_to (unat a) (unat (rend r))" for x
    by (auto simp: align_broaden_def Let_def overlaps_mk_range word_nat s e)
  have "(\<exists>y. overlaps r y \<and> P (unat y)) \<longleftrightarrow> (\<exists>n. unat (rstart r) \<le> n \<and> n < unat (rend r) \<and> P n)" for P
  proof
    assume "\<exists>n. unat (rstart r) \<le> n \<and> n < unat (rend r) \<and> P n"
    then obtain n where n: "unat (rstart r) \<le> n" "n < unat (rend r)" "P n" by blast
    then have "unat (word_of_nat n :: u64) = n"
      by (metis le_unat_uoi less_imp_le_nat)
    then show "\<exists>y. overlaps r y \<and> P (unat y)"
      using n by (intro exI [of _ "word_of_nat n"]) (simp add: overlaps_def word_nat)
  qed (auto simp: overlaps_def word_nat)
  note ex = this
  have "is_aligned_block a (align_broaden E r a)"
    using down_to_le [of "unat a" "unat (rstart r)"] up_to_ge [OF pos, of "unat (rend r)"] lt
    by (auto simp: is_aligned_block_iff [OF assms(2)] align_broaden_def Let_def s e word_less_nat)
  then show ?thesis using nat_block_broaden [OF pos lt] ov
      ex [of "\<lambda>n. down_to (unat a) n = down_to (unat a) (unat x)" for x :: u64] by simp
qed

theorem align_broaden_exact_witness:
  "is_aligned_block 4096 (align_broaden (rounding_env 4096) (mk_range 0x301000 0x303010) 4096) \<and>
   (overlaps (align_broaden (rounding_env 4096) (mk_range 0x301000 0x303010) 4096) 0x303fff \<longleftrightarrow>
    (\<exists>y. overlaps (mk_range 0x301000 0x303010) y \<and>
      down_to (unat (4096 :: u64)) (unat y) = down_to (unat (4096 :: u64)) (unat (0x303fff :: u64))))"
proof -
  let ?r = "mk_range 0x301000 0x303010"
  have "rstart ?r < rend ?r" "unat (rend ?r) + unat (4096 :: u64) \<le> 2 ^ 64" by simp_all
  from align_broaden_exact [OF small_pages.snmalloc_env_axioms pow2_pages(1) this]
  show ?thesis by blast
qed

end
