(* ===== verification/Heap_Ranges.thy ===== *)
theory Heap_Ranges
  imports Address_Range
begin

text \<open>
  The kernel heap description: \<open>HeapRanges\<close> of \<open>include/private/heap.h\<close> and its
  construction from the E820 table (\<open>arch/x86_64/heap_generic.cc\<close>).  A byte span is
  its data address and its size; the array of additional ranges and its counter
  are the list of the filled slots.  The lemmas give the invariant of the class
  (page-aligned non-empty ranges) and the exact set of heap addresses after each
  operation, for spans whose rounding does not wrap at the top of the address space.
\<close>

record byte_span =
  sdata :: u64
  scount :: u64

definition mk_span :: "u64 \<Rightarrow> u64 \<Rightarrow> byte_span" where
  "mk_span d n = \<lparr>sdata = d, scount = n\<rparr>"

definition byte_range :: "byte_span \<Rightarrow> AddressRange" where
  "byte_range s = span_range (sdata s) (scount s) 1"

definition span_first :: "byte_span \<Rightarrow> u64 \<Rightarrow> byte_span" where
  "span_first s n = mk_span (sdata s) n"

definition subspan :: "byte_span \<Rightarrow> u64 \<Rightarrow> u64 \<Rightarrow> byte_span" where
  "subspan s offset n = mk_span (sdata s + offset) n"

record HeapRanges =
  first_range :: byte_span
  additional_ranges :: "byte_span list"

definition MAX_RANGE_COUNT :: nat where
  "MAX_RANGE_COUNT = 32"

definition heap_init :: HeapRanges where
  "heap_init = \<lparr>first_range = mk_span 0 0, additional_ranges = []\<rparr>"

definition align_end :: "env \<Rightarrow> byte_span \<Rightarrow> byte_span result" where
  "align_end E rng =
    (let aligned = align_down_end E (byte_range rng) (PAGE_SIZE E) in
     if is_empty_range aligned then Inl KAbort
     else Inr (span_first rng (rend aligned - rstart aligned)))"

definition align_span :: "env \<Rightarrow> byte_span \<Rightarrow> byte_span result" where
  "align_span E rng =
    (let address_range = byte_range rng;
         aligned = align_restrict E address_range (PAGE_SIZE E) in
     if is_empty_range aligned then Inl KAbort
     else Inr (subspan rng (rstart aligned - rstart address_range)
                 (rend aligned - rstart aligned)))"

definition set_first :: "env \<Rightarrow> byte_span \<Rightarrow> HeapRanges \<Rightarrow> HeapRanges result" where
  "set_first E rng h =
    res_bind (align_end E rng) (\<lambda>r. Inr (h\<lparr>first_range := r\<rparr>))"

definition add_heap :: "env \<Rightarrow> byte_span \<Rightarrow> HeapRanges \<Rightarrow> HeapRanges result" where
  "add_heap E rng h =
    (if length (additional_ranges h) = MAX_RANGE_COUNT then Inl KAbort
     else res_bind (align_span E rng)
       (\<lambda>r. Inr (h\<lparr>additional_ranges := additional_ranges h @ [r]\<rparr>)))"

definition largest_valid_address :: "HeapRanges \<Rightarrow> u64" where
  "largest_valid_address h =
    (if additional_ranges h = [] then rend (byte_range (first_range h)) - 1
     else rend (byte_range (additional_ranges h ! (length (additional_ranges h) - 1))) - 1)"

definition heap_size :: "HeapRanges \<Rightarrow> u64" where
  "heap_size h = largest_valid_address h - rstart (byte_range (first_range h)) + 1"

definition is_heap_address :: "HeapRanges \<Rightarrow> u64 \<Rightarrow> bool" where
  "is_heap_address h address \<longleftrightarrow>
    overlaps (byte_range (first_range h)) address \<or>
    list_ex (\<lambda>r. overlaps (byte_range r) address) (additional_ranges h)"

datatype E820Type = E820_TYPE_RAM | E820_TYPE_OTHER u32

definition e820_type :: "u32 \<Rightarrow> E820Type" where
  "e820_type t = (if t = 1 then E820_TYPE_RAM else E820_TYPE_OTHER t)"

record E820Entry =
  e820_addr :: u64
  e820_size :: u64
  e820_kind :: E820Type

fun setup_heap_loop ::
  "env \<Rightarrow> u64 \<Rightarrow> E820Entry list \<Rightarrow> bool \<Rightarrow> HeapRanges \<Rightarrow> HeapRanges result" where
  "setup_heap_loop E heap_start [] first_entry h = Inr h"
| "setup_heap_loop E heap_start (entry # rest) first_entry h =
    (if e820_addr entry \<noteq> 0 \<and> e820_kind entry = E820_TYPE_RAM then
       (if first_entry then
          (if heap_start > e820_addr entry + e820_size entry then Inl KAbort
           else res_bind
             (set_first E (mk_span heap_start (e820_addr entry + e820_size entry - heap_start)) h)
             (setup_heap_loop E heap_start rest False))
        else res_bind (add_heap E (mk_span (e820_addr entry) (e820_size entry)) h)
             (setup_heap_loop E heap_start rest False))
     else setup_heap_loop E heap_start rest first_entry h)"

definition setup_heap_generic :: "env \<Rightarrow> u64 \<Rightarrow> E820Entry list \<Rightarrow> HeapRanges result" where
  "setup_heap_generic E heap_start e820_table =
    setup_heap_loop E heap_start e820_table True heap_init"

text \<open>A range without wrap-around and the class invariant.\<close>

definition span_ok :: "byte_span \<Rightarrow> bool" where
  "span_ok s \<longleftrightarrow> unat (sdata s) + unat (scount s) < 2 ^ 64"

definition page_span :: "env \<Rightarrow> byte_span \<Rightarrow> bool" where
  "page_span E s \<longleftrightarrow> span_ok s \<and> scount s \<noteq> 0 \<and>
    unat (PAGE_SIZE E) dvd unat (sdata s) \<and> unat (PAGE_SIZE E) dvd unat (scount s)"

definition heap_inv :: "env \<Rightarrow> HeapRanges \<Rightarrow> bool" where
  "heap_inv E h \<longleftrightarrow> span_ok (first_range h) \<and>
    unat (PAGE_SIZE E) dvd unat (sdata (first_range h)) + unat (scount (first_range h)) \<and>
    length (additional_ranges h) \<le> MAX_RANGE_COUNT \<and>
    list_all (page_span E) (additional_ranges h)"

lemma mk_span_sel [simp]: "sdata (mk_span d n) = d" "scount (mk_span d n) = n"
  by (simp_all add: mk_span_def)

lemma byte_range_sel [simp]:
  "rstart (byte_range s) = sdata s" "rend (byte_range s) = sdata s + scount s"
  by (simp_all add: byte_range_def span_range_def)

lemma span_ok_end: "span_ok s \<Longrightarrow> unat (sdata s + scount s) = unat (sdata s) + unat (scount s)"
  by (simp add: span_ok_def unat_add64)

lemma overlaps_span: "span_ok s \<Longrightarrow>
  overlaps (byte_range s) x \<longleftrightarrow> unat (sdata s) \<le> unat x \<and> unat x < unat (sdata s) + unat (scount s)"
  by (simp add: overlaps_def word_nat span_ok_end)

lemma is_heap_address_iff:
  "is_heap_address h x \<longleftrightarrow> (\<exists>r \<in> insert (first_range h) (set (additional_ranges h)).
     overlaps (byte_range r) x)"
  by (auto simp: is_heap_address_def list_ex_iff)

lemma heap_init_inv: "heap_inv E heap_init"
  by (simp add: heap_inv_def heap_init_def span_ok_def)

context snmalloc_env
begin

lemma align_end_result:
  assumes "align_end E r = Inr s" and "unat (sdata r) \<le> unat (sdata r + scount r)"
  shows "sdata s = sdata r" "span_ok s" "scount s \<noteq> 0"
    and "unat (sdata s) + unat (scount s) = down_to (unat (PAGE_SIZE E)) (unat (sdata r + scount r))"
proof -
  let ?e = "align_down E (sdata r + scount r) (PAGE_SIZE E)"
  have lt: "sdata r < ?e" and s: "s = mk_span (sdata r) (?e - sdata r)"
    using assms(1)
    by (auto simp: align_end_def align_down_end_def Let_def is_empty_range_def span_first_def
        split: if_splits)
  have e: "unat ?e = down_to (unat (PAGE_SIZE E)) (unat (sdata r + scount r))"
    by (simp add: align_down)
  have d: "unat (?e - sdata r) = unat ?e - unat (sdata r)"
    using lt by (simp add: unat_sub64 word_less_nat)
  show "sdata s = sdata r" by (simp add: s)
  show sum: "unat (sdata s) + unat (scount s) = down_to (unat (PAGE_SIZE E)) (unat (sdata r + scount r))"
    using lt by (simp add: s d e word_less_nat)
  show "span_ok s"
    unfolding span_ok_def sum e [symmetric] by simp
  show "scount s \<noteq> 0" using lt by (simp add: s)
qed

lemma align_span_result:
  assumes "align_span E r = Inr s" and "unat (sdata r) + unat (PAGE_SIZE E) \<le> 2 ^ 64"
  shows "page_span E s"
    and "unat (sdata s) = up_to (unat (PAGE_SIZE E)) (unat (sdata r))"
    and "unat (sdata s) + unat (scount s) = down_to (unat (PAGE_SIZE E)) (unat (sdata r + scount r))"
proof -
  let ?b = "align_up E (sdata r) (PAGE_SIZE E)"
  let ?e = "align_down E (sdata r + scount r) (PAGE_SIZE E)"
  have lt: "?b < ?e" and s: "s = mk_span ?b (?e - ?b)"
    using assms(1)
    by (auto simp: align_span_def align_restrict_def Let_def is_empty_range_def subspan_def
        split: if_splits)
  have e: "unat ?e = down_to (unat (PAGE_SIZE E)) (unat (sdata r + scount r))"
    by (simp add: align_down)
  have b: "unat ?b = up_to (unat (PAGE_SIZE E)) (unat (sdata r))"
    using assms(2) by (simp add: align_up)
  have d: "unat (?e - ?b) = unat ?e - unat ?b"
    using lt by (simp add: unat_sub64 word_less_nat)
  show 1: "unat (sdata s) = up_to (unat (PAGE_SIZE E)) (unat (sdata r))" by (simp add: s b)
  show 2: "unat (sdata s) + unat (scount s) = down_to (unat (PAGE_SIZE E)) (unat (sdata r + scount r))"
    using lt by (simp add: s d e word_less_nat)
  have "unat (scount s) = unat ?e - unat ?b" by (simp add: s d)
  then have "unat (PAGE_SIZE E) dvd unat (scount s)"
    by (simp add: b e dvd_diff_nat)
  moreover have "span_ok s" unfolding span_ok_def 2 e [symmetric] by simp
  moreover have "scount s \<noteq> 0" using lt by (simp add: s)
  ultimately show "page_span E s" by (simp add: page_span_def 1)
qed

lemma align_span_overlaps:
  assumes "align_span E r = Inr s" and "unat (sdata r) + unat (PAGE_SIZE E) \<le> 2 ^ 64"
  shows "overlaps (byte_range s) x \<longleftrightarrow>
    unat (sdata r) \<le> down_to (unat (PAGE_SIZE E)) (unat x) \<and>
    down_to (unat (PAGE_SIZE E)) (unat x) + unat (PAGE_SIZE E) \<le> unat (sdata r + scount r)"
proof -
  note res = align_span_result [OF assms]
  have "span_ok s" using res(1) by (simp add: page_span_def)
  from overlaps_span [OF this, of x] show ?thesis
    unfolding res(3) unfolding res(2) nat_block_restrict [OF page_size_pos] .
qed

lemma set_first_inv:
  "set_first E r h = Inr h' \<Longrightarrow> heap_inv E h \<Longrightarrow> unat (sdata r) \<le> unat (sdata r + scount r) \<Longrightarrow>
   heap_inv E h'"
  using align_end_result(2,4)
  by (fastforce simp: set_first_def res_bind_Inr_iff heap_inv_def)

lemma add_heap_inv:
  "add_heap E r h = Inr h' \<Longrightarrow> heap_inv E h \<Longrightarrow> unat (sdata r) + unat (PAGE_SIZE E) \<le> 2 ^ 64 \<Longrightarrow>
   heap_inv E h'"
  by (auto simp: add_heap_def res_bind_Inr_iff heap_inv_def align_span_result split: if_splits)

end

text \<open>The E820 loop is a fold of \<open>add\<close> over the RAM entries after the first.\<close>

definition is_ram :: "E820Entry \<Rightarrow> bool" where
  "is_ram entry \<longleftrightarrow> e820_addr entry \<noteq> 0 \<and> e820_kind entry = E820_TYPE_RAM"

definition entry_span :: "E820Entry \<Rightarrow> byte_span" where
  "entry_span entry = mk_span (e820_addr entry) (e820_size entry)"

lemma setup_heap_loop_rest:
  "setup_heap_loop E hs t False h = res_fold (\<lambda>e. add_heap E (entry_span e)) (filter is_ram t) h"
proof (induction t arbitrary: h)
  case (Cons e t)
  then show ?case by (cases "add_heap E (entry_span e) h") (auto simp: is_ram_def entry_span_def)
qed simp

lemma setup_heap_loop_first:
  "setup_heap_loop E hs t True h =
    (case filter is_ram t of [] \<Rightarrow> Inr h
     | f # rest \<Rightarrow>
        if hs > e820_addr f + e820_size f then Inl KAbort
        else res_bind (set_first E (mk_span hs (e820_addr f + e820_size f - hs)) h)
               (res_fold (\<lambda>e. add_heap E (entry_span e)) rest))"
proof (induction t)
  case (Cons e t)
  have "setup_heap_loop E hs t False = res_fold (\<lambda>e. add_heap E (entry_span e)) (filter is_ram t)"
    by (rule ext) (rule setup_heap_loop_rest)
  then show ?case using Cons by (cases "is_ram e") (auto simp: is_ram_def [of e])
qed simp

lemma add_heap_fold:
  assumes "res_fold (\<lambda>e. add_heap E (f e)) xs h = Inr h'"
  shows "\<exists>new. additional_ranges h' = additional_ranges h @ new \<and> first_range h' = first_range h \<and>
    list_all2 (\<lambda>e s. align_span E (f e) = Inr s) xs new"
  using assms
proof (induction xs arbitrary: h)
  case (Cons x xs)
  then obtain u where u0: "add_heap E (f x) h = Inr u"
      and u1: "res_fold (\<lambda>e. add_heap E (f e)) xs u = Inr h'"
    by (auto simp: res_bind_Inr_iff)
  from u0 obtain s where u: "align_span E (f x) = Inr s"
      "u = h\<lparr>additional_ranges := additional_ranges h @ [s]\<rparr>"
    by (auto simp: res_bind_Inr_iff add_heap_def split: if_splits)
  from Cons.IH [OF u1] obtain new where
    "additional_ranges h' = additional_ranges u @ new" "first_range h' = first_range u"
    "list_all2 (\<lambda>e s. align_span E (f e) = Inr s) xs new" by blast
  then show ?case using u by (intro exI [of _ "s # new"]) simp
qed simp

text \<open>What the E820 table must satisfy for the rounding not to wrap.\<close>

definition e820_ok :: "env \<Rightarrow> E820Entry \<Rightarrow> bool" where
  "e820_ok E entry \<longleftrightarrow> unat (e820_addr entry) + unat (e820_size entry) < 2 ^ 64 \<and>
    unat (e820_addr entry) + unat (PAGE_SIZE E) \<le> 2 ^ 64"

definition whole_page_in :: "env \<Rightarrow> E820Entry \<Rightarrow> u64 \<Rightarrow> bool" where
  "whole_page_in E entry x \<longleftrightarrow>
    (let page = down_to (unat (PAGE_SIZE E)) (unat x) in
     unat (e820_addr entry) \<le> page \<and>
     page + unat (PAGE_SIZE E) \<le> unat (e820_addr entry) + unat (e820_size entry))"

lemma list_all2_ex_iff:
  assumes "list_all2 R xs ys" and "\<And>x y. x \<in> set xs \<Longrightarrow> R x y \<Longrightarrow> Q y \<longleftrightarrow> P x"
  shows "(\<exists>y\<in>set ys. Q y) \<longleftrightarrow> (\<exists>x\<in>set xs. P x)"
  using assms by (induction rule: list_all2_induct) auto

context snmalloc_env
begin

lemma heap_generic_fold:
  assumes "res_fold (\<lambda>e. add_heap E (entry_span e)) xs h = Inr h'"
    and "heap_inv E h" and "\<forall>e \<in> set xs. e820_ok E e"
  shows "heap_inv E h'" and "first_range h' = first_range h"
    and "(\<exists>r\<in>set (additional_ranges h'). overlaps (byte_range r) x) \<longleftrightarrow>
      (\<exists>r\<in>set (additional_ranges h). overlaps (byte_range r) x) \<or> (\<exists>e\<in>set xs. whole_page_in E e x)"
proof -
  show "heap_inv E h'"
    using res_fold_invariant [where P="heap_inv E", OF assms(1,2)] assms(3) add_heap_inv
    by (force simp: entry_span_def e820_ok_def)
  obtain new where new: "additional_ranges h' = additional_ranges h @ new"
      "first_range h' = first_range h"
      "list_all2 (\<lambda>e s. align_span E (entry_span e) = Inr s) xs new"
    using add_heap_fold [OF assms(1)] by blast
  have "(\<exists>r\<in>set new. overlaps (byte_range r) x) \<longleftrightarrow> (\<exists>e\<in>set xs. whole_page_in E e x)"
  proof (rule list_all2_ex_iff [OF new(3)])
    fix e s assume e: "e \<in> set xs" "align_span E (entry_span e) = Inr s"
    then have ok: "e820_ok E e" using assms(3) by blast
    then have "unat (sdata (entry_span e)) + unat (PAGE_SIZE E) \<le> 2 ^ 64"
      by (simp add: entry_span_def e820_ok_def)
    from align_span_overlaps [OF e(2) this] show "overlaps (byte_range s) x = whole_page_in E e x"
      using ok by (simp add: entry_span_def whole_page_in_def Let_def unat_add64 e820_ok_def)
  qed
  then show "(\<exists>r\<in>set (additional_ranges h'). overlaps (byte_range r) x) \<longleftrightarrow>
      (\<exists>r\<in>set (additional_ranges h). overlaps (byte_range r) x) \<or> (\<exists>e\<in>set xs. whole_page_in E e x)"
    by (auto simp: new(1))
  show "first_range h' = first_range h" by (rule new(2))
qed

end


lemma setup_heap_generic_run:
  "setup_heap_generic (rounding_env 4096) 0x600010
    [\<lparr>e820_addr = 0, e820_size = 0x9fc00, e820_kind = E820_TYPE_RAM\<rparr>,
     \<lparr>e820_addr = 0x100000, e820_size = 0x3ff00800, e820_kind = E820_TYPE_RAM\<rparr>,
     \<lparr>e820_addr = 0xfffc0000, e820_size = 0x40000, e820_kind = E820_TYPE_OTHER 2\<rparr>,
     \<lparr>e820_addr = 0x100000800, e820_size = 0x40000000, e820_kind = E820_TYPE_RAM\<rparr>] =
   Inr \<lparr>first_range = mk_span 0x600010 0x3f9ffff0,
        additional_ranges = [mk_span 0x100001000 0x3ffff000]\<rparr>"
  by (simp add: setup_heap_generic_def heap_init_def set_first_def add_heap_def align_end_def
      align_span_def align_down_end_def align_restrict_def Let_def is_empty_range_def
      span_first_def subspan_def MAX_RANGE_COUNT_def)


end
