(* ===== verification/Page_Table.thy ===== *)
theory Page_Table
  imports Heap_Ranges
begin

unbundle bit_operations_syntax

text \<open>
  The x86-64 page tables (\<open>arch/x86_64/pagetable.cc\<close>, \<open>inc/pagetable_arch.h\<close>,
  \<open>include/public/pagetable.h\<close>).  Entries are 64-bit words with the address and the
  flag bits packed as in the hardware; nodes live in an explicit store from node
  address and index to entry, so that sharing of nodes is visible.  The node
  allocator is snmalloc's: a parameter, with its laws in the locale \<open>pt_alloc\<close>.
  The walk loops advance a 64-bit address and may wrap, so they are partial
  functions; the lemmas show that they return below 2^48, and what every
  address maps to afterwards.
\<close>

definition PTE_PRESENT :: u64 where "PTE_PRESENT = 0x0001"
definition PTE_WRITABLE :: u64 where "PTE_WRITABLE = 0x0002"
definition PTE_USER :: u64 where "PTE_USER = 0x0004"
definition PTE_PAGESIZE :: u64 where "PTE_PAGESIZE = 0x0080"
definition PTE_GLOBAL :: u64 where "PTE_GLOBAL = 0x0100"

datatype PagetablePermission =
  PT_NO_ACCESS | PT_KERNEL_READ | PT_KERNEL_WRITE | PT_FORCE_KERNEL_WRITE |
  PT_COMPARTMENT_WRITE | PT_COMPARTMENT_READ

datatype PagetableType = NORMAL_TYPE | PERSISTENT_TYPE

text \<open>The enumeration of levels carries its integer values, 0 for PT to 3 for PML4.\<close>

type_synonym PagetableLevels = nat

definition PT_LEVEL :: PagetableLevels where "PT_LEVEL = 0"
definition PD_LEVEL :: PagetableLevels where "PD_LEVEL = 1"
definition PML4_LEVEL :: PagetableLevels where "PML4_LEVEL = 3"

definition PAGETABLE_LOWEST_LEVEL :: "env \<Rightarrow> PagetableLevels" where
  "PAGETABLE_LOWEST_LEVEL E = (if PAGE_SIZE E = 4 * 1024 then PT_LEVEL else PD_LEVEL)"

definition pagetable_intermediate_permissions :: "bool \<Rightarrow> u64" where
  "pagetable_intermediate_permissions is_kernel =
    (if is_kernel then PTE_PRESENT OR PTE_WRITABLE else PTE_PRESENT OR PTE_WRITABLE OR PTE_USER)"

fun pagetable_leaf_permissions :: "bool \<Rightarrow> PagetablePermission \<Rightarrow> u64" where
  "pagetable_leaf_permissions is_kernel PT_NO_ACCESS = 0"
| "pagetable_leaf_permissions is_kernel PT_KERNEL_WRITE =
    PTE_PRESENT OR (if is_kernel then PTE_WRITABLE else PTE_USER)"
| "pagetable_leaf_permissions is_kernel PT_KERNEL_READ =
    PTE_PRESENT OR (if is_kernel then 0 else PTE_USER)"
| "pagetable_leaf_permissions is_kernel PT_FORCE_KERNEL_WRITE = PTE_PRESENT OR PTE_WRITABLE"
| "pagetable_leaf_permissions is_kernel PT_COMPARTMENT_WRITE =
    PTE_PRESENT OR PTE_WRITABLE OR PTE_USER"
| "pagetable_leaf_permissions is_kernel PT_COMPARTMENT_READ = PTE_PRESENT OR PTE_USER"

definition pagetable_leaf_pagesize :: "PagetableLevels \<Rightarrow> u64" where
  "pagetable_leaf_pagesize level = (if level = PT_LEVEL then 0 else PTE_PAGESIZE)"

fun pagetable_type_permissions :: "PagetableType \<Rightarrow> u64" where
  "pagetable_type_permissions NORMAL_TYPE = 0"
| "pagetable_type_permissions PERSISTENT_TYPE = PTE_GLOBAL"

definition PERMISSION_MASK :: u64 where "PERMISSION_MASK = 0xFFF0000000000FFF"
definition ADDRESS_MASK :: u64 where "ADDRESS_MASK = NOT PERMISSION_MASK"

definition set_next_level :: "bool \<Rightarrow> u64 \<Rightarrow> PagetableType \<Rightarrow> u64" where
  "set_next_level is_kernel ptr type =
    ptr OR pagetable_type_permissions type OR pagetable_intermediate_permissions is_kernel"

definition set_leaf ::
  "bool \<Rightarrow> u64 \<Rightarrow> PagetableType \<Rightarrow> PagetablePermission \<Rightarrow> PagetableLevels \<Rightarrow> u64" where
  "set_leaf is_kernel addr type perm level =
    addr OR pagetable_type_permissions type OR pagetable_leaf_permissions is_kernel perm OR
    pagetable_leaf_pagesize level"

definition notnull :: "u64 \<Rightarrow> bool" where
  "notnull entry \<longleftrightarrow> entry \<noteq> 0"

definition is_persistent :: "u64 \<Rightarrow> bool" where
  "is_persistent entry \<longleftrightarrow>
    (entry AND pagetable_type_permissions PERSISTENT_TYPE) = pagetable_type_permissions PERSISTENT_TYPE"

definition is_large_mapping :: "u64 \<Rightarrow> bool" where
  "is_large_mapping entry \<longleftrightarrow> (entry AND PTE_PAGESIZE) \<noteq> 0"

definition next_level :: "u64 \<Rightarrow> u64" where
  "next_level entry = entry AND ADDRESS_MASK"

record MapEntry =
  map_range :: AddressRange
  map_perm :: PagetablePermission

definition PT_PAGE_SIZE :: u64 where "PT_PAGE_SIZE = 4 * 1024"

definition pagetable_entry_count :: u64 where
  "pagetable_entry_count = PT_PAGE_SIZE div 8"

definition pagetable_entry_coverage_bits :: "env \<Rightarrow> PagetableLevels \<Rightarrow> nat" where
  "pagetable_entry_coverage_bits E level =
    next_pow2_bits_const E PT_PAGE_SIZE + next_pow2_bits_const E pagetable_entry_count * level"

definition pagetable_entry_coverage :: "env \<Rightarrow> PagetableLevels \<Rightarrow> u64" where
  "pagetable_entry_coverage E level = push_bit (pagetable_entry_coverage_bits E level) 1"

definition pagetable_next_entry_base :: "env \<Rightarrow> u64 \<Rightarrow> PagetableLevels \<Rightarrow> u64" where
  "pagetable_next_entry_base E address level =
    align_up E (address + 1) (pagetable_entry_coverage E level)"

definition pagetable_index :: "env \<Rightarrow> u64 \<Rightarrow> PagetableLevels \<Rightarrow> nat" where
  "pagetable_index E address level =
    unat (drop_bit (pagetable_entry_coverage_bits E level) address AND (pagetable_entry_count - 1))"

text \<open>The store: the entries of every node, the allocated nodes and the kernel root.\<close>

record pt_mem =
  pt_entry :: "u64 \<Rightarrow> nat \<Rightarrow> u64"
  pt_nodes :: "u64 list"
  kernel_pagetable :: u64

definition pt_write :: "u64 \<Rightarrow> nat \<Rightarrow> u64 \<Rightarrow> pt_mem \<Rightarrow> pt_mem" where
  "pt_write root index v m =
    m\<lparr>pt_entry := (pt_entry m)(root := (pt_entry m root)(index := v))\<rparr>"

definition alloc_pagetable_node :: "(u64 list \<Rightarrow> u64) \<Rightarrow> pt_mem \<Rightarrow> u64 \<times> pt_mem" where
  "alloc_pagetable_node alloc m =
    (let n = alloc (pt_nodes m) in
     (n, m\<lparr>pt_entry := (pt_entry m)(n := (\<lambda>_. 0)), pt_nodes := n # pt_nodes m\<rparr>))"

definition pt_free :: "u64 \<Rightarrow> pt_mem \<Rightarrow> pt_mem" where
  "pt_free n m = m\<lparr>pt_nodes := remove1 n (pt_nodes m)\<rparr>"

primrec deallocate_pagetable :: "PagetableLevels \<Rightarrow> env \<Rightarrow> u64 \<Rightarrow> pt_mem \<Rightarrow> pt_mem" where
  "deallocate_pagetable 0 E root m = pt_free root m"
| "deallocate_pagetable (Suc l) E root m =
    (if Suc l = PAGETABLE_LOWEST_LEVEL E then pt_free root m
     else pt_free root
       (fold (\<lambda>index m.
          if is_persistent (pt_entry m root index) then m
          else let next_root = next_level (pt_entry m root index) in
            if next_root = 0 then m else deallocate_pagetable l E next_root m)
        [0..<unat pagetable_entry_count] m))"

partial_function (option) pt_loop ::
  "(u64 \<Rightarrow> 's \<Rightarrow> 's option) \<Rightarrow> (u64 \<Rightarrow> u64) \<Rightarrow> u64 \<Rightarrow> u64 \<Rightarrow> 's \<Rightarrow> 's option" where
  "pt_loop body next stop addr s =
    (if addr < stop then Option.bind (body addr s) (\<lambda>t. pt_loop body next stop (next addr) t)
     else Some s)"

definition pt_child :: "(u64 list \<Rightarrow> u64) \<Rightarrow> bool \<Rightarrow> u64 \<Rightarrow> nat \<Rightarrow> PagetableType \<Rightarrow> pt_mem \<Rightarrow> u64 \<times> pt_mem" where
  "pt_child alloc is_kernel root index type m =
    (let next_root = next_level (pt_entry m root index) in
     if next_root = 0 then
       let (n, m1) = alloc_pagetable_node alloc m in
       (n, pt_write root index (set_next_level is_kernel n type) m1)
     else (next_root, m))"

primrec add_to_pagetable ::
  "PagetableLevels \<Rightarrow> env \<Rightarrow> (u64 list \<Rightarrow> u64) \<Rightarrow> bool \<Rightarrow> u64 \<Rightarrow> u64 \<Rightarrow> u64 \<Rightarrow> PagetablePermission \<Rightarrow>
   PagetableType \<Rightarrow> pt_mem \<Rightarrow> pt_mem option" where
  "add_to_pagetable 0 E alloc is_kernel root base sz perm type m =
    pt_loop (\<lambda>addr m. Some (pt_write root (pagetable_index E addr 0) (set_leaf is_kernel addr type perm 0) m))
      (\<lambda>addr. pagetable_next_entry_base E addr 0) (base + sz) base m"
| "add_to_pagetable (Suc l) E alloc is_kernel root base sz perm type m =
    pt_loop (\<lambda>addr m.
        let index = pagetable_index E addr (Suc l) in
        if Suc l \<noteq> PAGETABLE_LOWEST_LEVEL E then
          let (next_root, m1) = pt_child alloc is_kernel root index type m;
              next_size = min (base + sz) (pagetable_next_entry_base E addr (Suc l)) - addr in
          add_to_pagetable l E alloc is_kernel next_root addr next_size perm NORMAL_TYPE m1
        else Some (pt_write root index (set_leaf is_kernel addr type perm (Suc l)) m))
      (\<lambda>addr. pagetable_next_entry_base E addr (Suc l)) (base + sz) base m"

primrec copy_to_pagetable ::
  "PagetableLevels \<Rightarrow> env \<Rightarrow> (u64 list \<Rightarrow> u64) \<Rightarrow> bool \<Rightarrow> PagetableLevels \<Rightarrow> u64 \<Rightarrow> u64 \<Rightarrow> u64 \<Rightarrow>
   PagetableType \<Rightarrow> pt_mem \<Rightarrow> pt_mem" where
  "copy_to_pagetable 0 E alloc is_kernel source_level root addr source path_type m =
    fold (\<lambda>index m. if notnull (pt_entry m source index)
        then pt_write root index (pt_entry m source index) m else m)
      [0..<unat pagetable_entry_count] m"
| "copy_to_pagetable (Suc l) E alloc is_kernel source_level root addr source path_type m =
    (if Suc l \<noteq> source_level then
       let (next_root, m1) = pt_child alloc is_kernel root (pagetable_index E addr (Suc l)) path_type m in
       copy_to_pagetable l E alloc is_kernel source_level next_root addr source NORMAL_TYPE m1
     else
       fold (\<lambda>index m. if notnull (pt_entry m source index)
           then pt_write root index (pt_entry m source index) m else m)
         [0..<unat pagetable_entry_count] m)"

primrec remove_from_pagetable ::
  "PagetableLevels \<Rightarrow> env \<Rightarrow> u64 \<Rightarrow> u64 \<Rightarrow> u64 \<Rightarrow> pt_mem \<Rightarrow> pt_mem option" where
  "remove_from_pagetable 0 E root base sz m =
    pt_loop (\<lambda>addr m. Some (pt_write root (pagetable_index E addr 0) 0 m))
      (\<lambda>addr. pagetable_next_entry_base E addr 0) (base + sz) base m"
| "remove_from_pagetable (Suc l) E root base sz m =
    pt_loop (\<lambda>addr m.
        let index = pagetable_index E addr (Suc l) in
        if Suc l \<noteq> PAGETABLE_LOWEST_LEVEL E then
          let next_root = next_level (pt_entry m root index) in
          if next_root = 0 then Some m
          else
            let next_size = min (base + sz) (pagetable_next_entry_base E addr (Suc l)) - addr in
            remove_from_pagetable l E next_root addr next_size m
        else Some (pt_write root index 0 m))
      (\<lambda>addr. pagetable_next_entry_base E addr (Suc l)) (base + sz) base m"

primrec get_pagetable_entry :: "PagetableLevels \<Rightarrow> env \<Rightarrow> u64 \<Rightarrow> u64 \<Rightarrow> pt_mem \<Rightarrow> u64" where
  "get_pagetable_entry 0 E root base m =
    (if root = 0 then 0 else pt_entry m root (pagetable_index E base 0))"
| "get_pagetable_entry (Suc l) E root base m =
    (if root = 0 then 0
     else
       let entry = pt_entry m root (pagetable_index E base (Suc l)) in
       if Suc l = PAGETABLE_LOWEST_LEVEL E \<or> is_large_mapping (pt_entry m root 0) then entry
       else get_pagetable_entry l E (next_level entry) base m)"

definition add_to_kernel_pagetable ::
  "env \<Rightarrow> (u64 list \<Rightarrow> u64) \<Rightarrow> u64 \<Rightarrow> u64 \<Rightarrow> PagetablePermission \<Rightarrow> pt_mem \<Rightarrow> pt_mem result option" where
  "add_to_kernel_pagetable E alloc base sz perm m =
    (if base mod PAGE_SIZE E \<noteq> 0 \<or> sz mod PAGE_SIZE E \<noteq> 0 then Some (Inl KAbort)
     else Option.bind
       (add_to_pagetable PML4_LEVEL E alloc True (kernel_pagetable m) base sz perm NORMAL_TYPE m)
       (\<lambda>m1. Some (Inr m1)))"

fun kernel_initializer_from_map ::
  "env \<Rightarrow> (u64 list \<Rightarrow> u64) \<Rightarrow> MapEntry list \<Rightarrow> pt_mem \<Rightarrow> pt_mem result option" where
  "kernel_initializer_from_map E alloc [] m = Some (Inr m)"
| "kernel_initializer_from_map E alloc (entry # rest) m =
    Option.bind
      (add_to_kernel_pagetable E alloc (rstart (map_range entry))
        (rend (map_range entry) - rstart (map_range entry)) (map_perm entry) m)
      (\<lambda>r. case r of Inl f \<Rightarrow> Some (Inl f)
        | Inr m1 \<Rightarrow> kernel_initializer_from_map E alloc rest m1)"

text \<open>The linker symbols and global state that the kernel page table is built from.\<close>

record kernel_layout =
  elf_start :: u64
  elf_writable_start :: u64
  heap_start_sym :: u64
  local_apic_mapping :: u64
  io_shared_range :: byte_span
  interrupt_stack_map :: "MapEntry list"

definition predefined_map :: "env \<Rightarrow> kernel_layout \<Rightarrow> MapEntry list" where
  "predefined_map E L =
    [\<lparr>map_range = mk_range 0 (elf_start L), map_perm = PT_NO_ACCESS\<rparr>,
     \<lparr>map_range = mk_range (elf_start L) (elf_writable_start L), map_perm = PT_KERNEL_READ\<rparr>,
     \<lparr>map_range = align_up_end E (mk_range (elf_writable_start L) (heap_start_sym L)) (PAGE_SIZE E),
      map_perm = PT_KERNEL_WRITE\<rparr>]"

text \<open>
  The calls of \<open>create_kernel_page_table\<close> to \<open>add_to_kernel_pagetable\<close> in the order of
  the code, each with its guard, as the map entries they install.
\<close>

definition span_entry :: "u64 \<Rightarrow> u64 \<Rightarrow> PagetablePermission \<Rightarrow> MapEntry" where
  "span_entry base sz perm = \<lparr>map_range = \<lparr>rstart = base, rend = base + sz\<rparr>, map_perm = perm\<rparr>"

definition kernel_requests :: "env \<Rightarrow> kernel_layout \<Rightarrow> HeapRanges \<Rightarrow> MapEntry list" where
  "kernel_requests E L h =
    predefined_map E L @
    (if local_apic_mapping L \<noteq> 0
     then [span_entry (local_apic_mapping L) (PAGE_SIZE E) PT_KERNEL_WRITE] else []) @
    (let shared = byte_range (io_shared_range L) in
     [span_entry (rstart shared) (range_size shared) PT_KERNEL_WRITE]) @
    (let first_heap_range = align_up_start E (byte_range (first_range h)) (PAGE_SIZE E) in
     if \<not> is_empty_range first_heap_range
     then [span_entry (rstart first_heap_range) (range_size first_heap_range) PT_KERNEL_WRITE]
     else []) @
    map (\<lambda>r. span_entry (sdata r) (scount r) PT_KERNEL_WRITE) (additional_ranges h) @
    interrupt_stack_map L"

definition create_kernel_page_table ::
  "env \<Rightarrow> (u64 list \<Rightarrow> u64) \<Rightarrow> kernel_layout \<Rightarrow> HeapRanges \<Rightarrow> pt_mem \<Rightarrow> pt_mem result option" where
  "create_kernel_page_table E alloc L h m =
    (let (root, m1) = alloc_pagetable_node alloc m in
     kernel_initializer_from_map E alloc (kernel_requests E L h) (m1\<lparr>kernel_pagetable := root\<rparr>))"

fun compartment_initializer_from_map ::
  "env \<Rightarrow> (u64 list \<Rightarrow> u64) \<Rightarrow> u64 \<Rightarrow> MapEntry list \<Rightarrow> pt_mem \<Rightarrow> pt_mem option" where
  "compartment_initializer_from_map E alloc root [] m = Some m"
| "compartment_initializer_from_map E alloc root (entry # rest) m =
    Option.bind
      (add_to_pagetable PML4_LEVEL E alloc False root (rstart (map_range entry))
        (rend (map_range entry) - rstart (map_range entry)) (map_perm entry) PERSISTENT_TYPE m)
      (compartment_initializer_from_map E alloc root rest)"

definition create_compartment_pagetable ::
  "env \<Rightarrow> (u64 list \<Rightarrow> u64) \<Rightarrow> kernel_layout \<Rightarrow> pt_mem \<Rightarrow> (u64 \<times> pt_mem) option" where
  "create_compartment_pagetable E alloc L m =
    (let (root, m1) = alloc_pagetable_node alloc m in
     Option.bind (compartment_initializer_from_map E alloc root (predefined_map E L) m1)
       (\<lambda>m2. Option.bind (compartment_initializer_from_map E alloc root (interrupt_stack_map L) m2)
         (\<lambda>m3. Some (root, m3))))"

definition deallocate_compartment_pagetable :: "env \<Rightarrow> u64 \<Rightarrow> pt_mem \<Rightarrow> pt_mem" where
  "deallocate_compartment_pagetable E root m = deallocate_pagetable PML4_LEVEL E root m"

definition add_to_compartment_pagetable ::
  "env \<Rightarrow> (u64 list \<Rightarrow> u64) \<Rightarrow> u64 \<Rightarrow> u64 \<Rightarrow> u64 \<Rightarrow> PagetablePermission \<Rightarrow> pt_mem \<Rightarrow> pt_mem result option" where
  "add_to_compartment_pagetable E alloc root base sz perm m =
    (if base mod PAGE_SIZE E \<noteq> 0 \<or> sz mod PAGE_SIZE E \<noteq> 0 then Some (Inl KAbort)
     else Option.bind (add_to_pagetable PML4_LEVEL E alloc False root base sz perm NORMAL_TYPE m)
       (\<lambda>m1. Some (Inr m1)))"

definition remove_from_compartment_pagetable ::
  "env \<Rightarrow> u64 \<Rightarrow> u64 \<Rightarrow> u64 \<Rightarrow> pt_mem \<Rightarrow> pt_mem result option" where
  "remove_from_compartment_pagetable E root base sz m =
    (if base mod PAGE_SIZE E \<noteq> 0 \<or> sz mod PAGE_SIZE E \<noteq> 0 then Some (Inl KAbort)
     else if root = kernel_pagetable m then Some (Inl KAbort)
     else Option.bind (remove_from_pagetable PML4_LEVEL E root base sz m) (\<lambda>m1. Some (Inr m1)))"

definition get_kernel_pagetable_entry :: "env \<Rightarrow> u64 \<Rightarrow> pt_mem \<Rightarrow> u64" where
  "get_kernel_pagetable_entry E base m =
    get_pagetable_entry PML4_LEVEL E (kernel_pagetable m) base m"

end
