(* ===== verification/Page_Table_Walk.thy ===== *)
theory Page_Table_Walk
  imports Page_Table
begin

unbundle bit_operations_syntax

text \<open>
  The page-table proofs.  \<open>walk\<close> is the translation the hardware performs, \<open>nset\<close> the
  nodes a table owns, \<open>pt_ok\<close> the invariant that these nodes form a tree, and \<open>pt_ext\<close>
  the frame condition of an update below one root.  Every update is described by
  its effect on \<open>walk\<close> and by \<open>pt_ext\<close>, level by level.
\<close>

definition cov :: "nat \<Rightarrow> nat" where
  "cov l = 2 ^ (12 + 9 * l)"

definition idx :: "nat \<Rightarrow> u64 \<Rightarrow> nat" where
  "idx l x = unat x div cov l mod 512"

definition child :: "pt_mem \<Rightarrow> u64 \<Rightarrow> nat \<Rightarrow> u64" where
  "child m root i = next_level (pt_entry m root i)"

primrec walk :: "nat \<Rightarrow> env \<Rightarrow> pt_mem \<Rightarrow> u64 \<Rightarrow> u64 \<Rightarrow> u64" where
  "walk 0 E m root x = pt_entry m root (idx 0 x)"
| "walk (Suc l) E m root x =
    (if Suc l = PAGETABLE_LOWEST_LEVEL E then pt_entry m root (idx (Suc l) x)
     else if child m root (idx (Suc l) x) = 0 then 0
     else walk l E m (child m root (idx (Suc l) x)) x)"

primrec nset :: "nat \<Rightarrow> env \<Rightarrow> pt_mem \<Rightarrow> u64 \<Rightarrow> u64 set" where
  "nset 0 E m root = {root}"
| "nset (Suc l) E m root =
    (if Suc l = PAGETABLE_LOWEST_LEVEL E then {root}
     else insert root (\<Union>i \<in> {i. i < 512 \<and> child m root i \<noteq> 0}. nset l E m (child m root i)))"

primrec pt_ok :: "nat \<Rightarrow> env \<Rightarrow> pt_mem \<Rightarrow> u64 \<Rightarrow> bool" where
  "pt_ok 0 E m root \<longleftrightarrow> root \<in> set (pt_nodes m) \<and> root \<noteq> 0"
| "pt_ok (Suc l) E m root \<longleftrightarrow> root \<in> set (pt_nodes m) \<and> root \<noteq> 0 \<and>
    (Suc l = PAGETABLE_LOWEST_LEVEL E \<or>
      ((\<forall>i < 512. \<not> is_large_mapping (pt_entry m root i)) \<and>
       (\<forall>i < 512. child m root i \<noteq> 0 \<longrightarrow>
          pt_ok l E m (child m root i) \<and> root \<notin> nset l E m (child m root i)) \<and>
       (\<forall>i < 512. \<forall>j < 512. i \<noteq> j \<longrightarrow> child m root i \<noteq> 0 \<longrightarrow> child m root j \<noteq> 0 \<longrightarrow>
          nset l E m (child m root i) \<inter> nset l E m (child m root j) = {})))"

definition pt_ext :: "nat \<Rightarrow> env \<Rightarrow> u64 \<Rightarrow> pt_mem \<Rightarrow> pt_mem \<Rightarrow> bool" where
  "pt_ext l E root m m' \<longleftrightarrow>
    set (pt_nodes m) \<subseteq> set (pt_nodes m') \<and> kernel_pagetable m' = kernel_pagetable m \<and>
    pt_ok l E m' root \<and>
    nset l E m' root \<subseteq> nset l E m root \<union> (set (pt_nodes m') - set (pt_nodes m)) \<and>
    (\<forall>r \<in> set (pt_nodes m) - nset l E m root. pt_entry m' r = pt_entry m r)"

locale pt_alloc = snmalloc_env +
  fixes alloc :: "u64 list \<Rightarrow> u64"
  assumes alloc_fresh: "length A < 2 ^ 36 \<Longrightarrow> alloc A \<notin> set A"
    and alloc_nonnull: "length A < 2 ^ 36 \<Longrightarrow> alloc A \<noteq> 0"
    and alloc_aligned: "length A < 2 ^ 36 \<Longrightarrow> alloc A AND PERMISSION_MASK = 0"

lemma cov_pos [simp]: "0 < cov l"
  by (simp add: cov_def)

lemma cov_Suc: "cov (Suc l) = 512 * cov l"
  by (simp add: cov_def power_add)

lemma cov_dvd: "k \<le> l \<Longrightarrow> cov k dvd cov l"
  by (simp add: cov_def le_imp_power_dvd)

lemma cov_le: "l \<le> 4 \<Longrightarrow> cov l \<le> 2 ^ 48"
  unfolding cov_def by (rule power_increasing) simp_all

lemma idx_less [simp]: "idx l x < 512"
  by (simp add: idx_def)

lemma idx_eq_iff:
  assumes "unat x div cov (Suc l) = unat y div cov (Suc l)"
  shows "idx l x = idx l y \<longleftrightarrow> unat x div cov l = unat y div cov l"
proof -
  have split: "unat z div cov l = 512 * (unat z div cov (Suc l)) + idx l z" for z :: u64
    by (simp add: idx_def cov_Suc mult.commute [of 512] div_mult2_eq)
  show ?thesis using assms split [of x] split [of y] by simp
qed

lemma root_in_nset [simp]: "root \<in> nset l E m root"
  by (cases l) auto

lemma nset_child: "Suc l \<noteq> PAGETABLE_LOWEST_LEVEL E \<Longrightarrow> i < 512 \<Longrightarrow> child m root i \<noteq> 0 \<Longrightarrow>
  nset l E m (child m root i) \<subseteq> nset (Suc l) E m root"
  by auto

lemma nset_nodes: "pt_ok l E m root \<Longrightarrow> nset l E m root \<subseteq> set (pt_nodes m)"
proof (induction l arbitrary: root)
  case (Suc l)
  then show ?case by (fastforce split: if_splits)
qed simp

lemma pt_ok_nonnull: "pt_ok l E m root \<Longrightarrow> root \<noteq> 0 \<and> root \<in> set (pt_nodes m)"
  by (cases l) auto

lemma pt_frame:
  assumes "\<forall>r \<in> nset l E m root. pt_entry m' r = pt_entry m r"
  shows "nset l E m' root = nset l E m root" and "walk l E m' root x = walk l E m root x"
    and "pt_ok l E m root \<Longrightarrow> set (pt_nodes m) \<subseteq> set (pt_nodes m') \<Longrightarrow> pt_ok l E m' root"
  using assms
proof (induction l arbitrary: root)
  case (Suc l)
  {
    case 1
    have "pt_entry m' root = pt_entry m root" using 1 by simp
    moreover have "\<forall>i. i < 512 \<longrightarrow> child m root i \<noteq> 0 \<longrightarrow> Suc l \<noteq> PAGETABLE_LOWEST_LEVEL E \<longrightarrow>
        nset l E m' (child m root i) = nset l E m (child m root i)"
      using 1 Suc(1) by fastforce
    ultimately show ?case by (auto simp: child_def)
  next
    case 2
    have "pt_entry m' root = pt_entry m root" using 2 by simp
    moreover have "Suc l \<noteq> PAGETABLE_LOWEST_LEVEL E \<Longrightarrow> child m root (idx (Suc l) x) \<noteq> 0 \<Longrightarrow>
        walk l E m' (child m root (idx (Suc l) x)) x = walk l E m (child m root (idx (Suc l) x)) x"
      using 2 nset_child [OF _ idx_less, of l E m root] by (intro Suc(2)) blast
    ultimately show ?case by (auto simp: child_def)
  next
    case 3
    have e: "pt_entry m' root = pt_entry m root" using 3 by simp
    then have c: "child m' root = child m root" by (intro ext) (simp add: child_def)
    have sub: "\<forall>r \<in> nset l E m (child m root i). pt_entry m' r = pt_entry m r"
      if "i < 512" "child m root i \<noteq> 0" "Suc l \<noteq> PAGETABLE_LOWEST_LEVEL E" for i
      using 3(3) nset_child [OF that(3,1,2)] by blast
    show ?case
    proof (cases "Suc l = PAGETABLE_LOWEST_LEVEL E")
      case True
      then show ?thesis using 3(1,2) unfolding pt_ok.simps by blast
    next
      case False
      have ns: "nset l E m' (child m root i) = nset l E m (child m root i)"
        if "i < 512" "child m root i \<noteq> 0" for i using sub [OF that False] by (rule Suc(1))
      have "pt_ok l E m' (child m root i)" if "i < 512" "child m root i \<noteq> 0" for i
        using sub [OF that False] Suc(3) that False 3(1,2) by simp
      then show ?thesis using 3(1,2) False by (simp add: e c ns subset_iff)
    qed
  }
qed auto

lemma pt_ext_refl: "pt_ok l E m root \<Longrightarrow> pt_ext l E root m m"
  by (simp add: pt_ext_def)

lemma pt_ext_trans:
  assumes "pt_ext l E root m m1" and "pt_ext l E root m1 m2"
  shows "pt_ext l E root m m2"
proof -
  have "pt_entry m2 r = pt_entry m r" if r: "r \<in> set (pt_nodes m) - nset l E m root" for r
  proof -
    have "r \<in> set (pt_nodes m1) - nset l E m1 root" using r assms(1) unfolding pt_ext_def by blast
    then have "pt_entry m2 r = pt_entry m1 r" using assms(2) unfolding pt_ext_def by blast
    then show ?thesis using r assms(1) unfolding pt_ext_def by simp
  qed
  moreover have "nset l E m2 root \<subseteq> nset l E m root \<union> (set (pt_nodes m2) - set (pt_nodes m))"
    using assms unfolding pt_ext_def by blast
  ultimately show ?thesis using assms unfolding pt_ext_def by (metis subset_trans)
qed

text \<open>An update below one child of a node is an update below the node.\<close>

lemma pt_ext_child:
  assumes ok: "pt_ok (Suc l) E m root" and nl: "Suc l \<noteq> PAGETABLE_LOWEST_LEVEL E"
    and i: "i < 512" "child m root i \<noteq> 0" and e: "pt_ext l E (child m root i) m m'"
  shows "pt_ext (Suc l) E root m m'"
    and "walk (Suc l) E m' root x =
      (if idx (Suc l) x = i then walk l E m' (child m root i) x else walk (Suc l) E m root x)"
proof -
  let ?n = "child m root"
  have sub: "set (pt_nodes m) \<subseteq> set (pt_nodes m')" using e by (simp add: pt_ext_def)
  have keep: "pt_entry m' r = pt_entry m r" if "r \<in> set (pt_nodes m)" "r \<notin> nset l E m (?n i)" for r
    using e that by (simp add: pt_ext_def)
  have okc: "pt_ok l E m (?n j)" "root \<notin> nset l E m (?n j)" if "j < 512" "?n j \<noteq> 0" for j
    using ok nl that by auto
  have root: "pt_entry m' root = pt_entry m root" using keep [of root] okc [OF i] ok by simp
  have c: "child m' root = ?n" by (intro ext) (simp add: child_def root)
  have other: "\<forall>r \<in> nset l E m (?n j). pt_entry m' r = pt_entry m r" if "j < 512" "?n j \<noteq> 0" "j \<noteq> i" for j
  proof
    fix r assume "r \<in> nset l E m (?n j)"
    moreover have "nset l E m (?n j) \<inter> nset l E m (?n i) = {}" using ok nl that i by simp
    ultimately show "pt_entry m' r = pt_entry m r"
      using nset_nodes [OF okc(1) [OF that(1,2)]] by (intro keep) auto
  qed
  have nso: "nset l E m' (?n j) = nset l E m (?n j)" if "j < 512" "?n j \<noteq> 0" "j \<noteq> i" for j
    using other [OF that] by (rule pt_frame(1))
  have nsi: "nset l E m' (?n i) \<subseteq> nset l E m (?n i) \<union> (set (pt_nodes m') - set (pt_nodes m))"
    using e by (simp add: pt_ext_def)
  have nj: "nset l E m (?n j) \<subseteq> set (pt_nodes m)" if "j < 512" "?n j \<noteq> 0" for j
    using nset_nodes okc(1) that by blast
  have disj: "nset l E m' (?n j) \<inter> nset l E m' (?n k) = {}"
    if "j < 512" "k < 512" "j \<noteq> k" "?n j \<noteq> 0" "?n k \<noteq> 0" for j k
  proof -
    have d: "nset l E m (?n j) \<inter> nset l E m (?n k) = {}" using ok nl that by simp
    consider "j = i" | "k = i" | "j \<noteq> i" "k \<noteq> i" by blast
    then show ?thesis
    proof cases
      case 1
      then have "nset l E m' (?n k) = nset l E m (?n k)" using nso that by simp
      then show ?thesis using 1 nsi d nj [OF that(2,5)] by blast
    next
      case 2
      then have "nset l E m' (?n j) = nset l E m (?n j)" using nso that by simp
      then show ?thesis using 2 nsi d nj [OF that(1,4)] by blast
    qed (use nso that d in simp)
  qed
  have okn: "pt_ok l E m' (?n j) \<and> root \<notin> nset l E m' (?n j)" if "j < 512" "?n j \<noteq> 0" for j
  proof (cases "j = i")
    case True
    then show ?thesis using e okc [OF i] nsi ok by (auto simp: pt_ext_def)
  next
    case False
    then show ?thesis
      using okc [OF that] pt_frame(3) [OF other [OF that False] _ sub] nso [OF that False] by simp
  qed
  have "pt_ok (Suc l) E m' root"
    using ok nl sub okn disj by (simp add: c root subset_iff)
  moreover have "nset (Suc l) E m' root \<subseteq> nset (Suc l) E m root \<union> (set (pt_nodes m') - set (pt_nodes m))"
  proof -
    have "nset l E m' (?n j) \<subseteq> nset (Suc l) E m root \<union> (set (pt_nodes m') - set (pt_nodes m))"
      if "j < 512" "?n j \<noteq> 0" for j
    proof (cases "j = i")
      case True
      then show ?thesis using nset_child [OF nl i] nsi by blast
    qed (use nset_child [OF nl that] nso [OF that] in blast)
    then have all: "(\<Union>j \<in> {j. j < 512 \<and> ?n j \<noteq> 0}. nset l E m' (?n j)) \<subseteq>
        nset (Suc l) E m root \<union> (set (pt_nodes m') - set (pt_nodes m))" by blast
    have eq: "nset (Suc l) E m' root = insert root (\<Union>j \<in> {j. j < 512 \<and> ?n j \<noteq> 0}. nset l E m' (?n j))"
      using nl by (simp add: c)
    show ?thesis unfolding eq insert_subset by (intro conjI UnI1 root_in_nset all)
  qed
  moreover have "pt_entry m' r = pt_entry m r" if "r \<in> set (pt_nodes m) - nset (Suc l) E m root" for r
    using that nset_child [OF nl i] by (intro keep) blast+
  ultimately show "pt_ext (Suc l) E root m m'" using e sub by (simp add: pt_ext_def)
  show "walk (Suc l) E m' root x =
      (if idx (Suc l) x = i then walk l E m' (?n i) x else walk (Suc l) E m root x)"
    using nl i pt_frame(2) [OF other [OF idx_less], of "Suc l" x x] by (auto simp: c)
qed

lemmas pte_bits = PTE_PRESENT_def PTE_WRITABLE_def PTE_USER_def PTE_PAGESIZE_def PTE_GLOBAL_def

lemma clean_pointer:
  assumes "n AND PERMISSION_MASK = 0"
  shows "n AND ADDRESS_MASK = n" and "n AND 0x80 = 0"
proof -
  have "n = n AND (PERMISSION_MASK OR ADDRESS_MASK)" by (simp add: ADDRESS_MASK_def)
  also have "\<dots> = n AND ADDRESS_MASK" by (simp add: bit.conj_disj_distrib assms)
  finally show "n AND ADDRESS_MASK = n" by simp
  have "n AND 0x80 = (n AND PERMISSION_MASK) AND 0x80" by (simp add: PERMISSION_MASK_def and.assoc)
  then show "n AND 0x80 = 0" by (simp add: assms)
qed

lemma next_level_set:
  assumes "n AND PERMISSION_MASK = 0"
  shows "next_level (set_next_level k n t) = n" and "\<not> is_large_mapping (set_next_level k n t)"
proof -
  obtain c where c: "set_next_level k n t = n OR c" "c AND ADDRESS_MASK = 0" "c AND 0x80 = 0"
  proof (cases k; cases t)
  qed (auto simp: set_next_level_def pagetable_intermediate_permissions_def pte_bits ADDRESS_MASK_def
      PERMISSION_MASK_def or.assoc intro: that)
  show "next_level (set_next_level k n t) = n"
    unfolding next_level_def c(1) bit.conj_disj_distrib2 c(2) clean_pointer(1) [OF assms] by simp
  show "\<not> is_large_mapping (set_next_level k n t)"
    unfolding is_large_mapping_def PTE_PAGESIZE_def c(1) bit.conj_disj_distrib2 c(3)
      clean_pointer(2) [OF assms] by simp
qed

lemma entry_count_512: "pagetable_entry_count = 512"
  by (simp add: pagetable_entry_count_def PT_PAGE_SIZE_def)

context snmalloc_env
begin

lemma coverage_bits: "pagetable_entry_coverage_bits E l = 12 + 9 * l"
  using next_pow2_bits [of 12] next_pow2_bits [of 9]
  by (simp add: pagetable_entry_coverage_bits_def PT_PAGE_SIZE_def pagetable_entry_count_def)

lemma index_idx: "pagetable_index E x l = idx l x"
proof -
  have "y AND (pagetable_entry_count - 1) = take_bit 9 y" for y :: u64
    by (simp add: entry_count_512 take_bit_eq_mask mask_eq_decr_exp)
  then show ?thesis
    unfolding pagetable_index_def coverage_bits idx_def cov_def
    by (simp only: unsigned_take_bit_eq unsigned_drop_bit_eq) (simp add: take_bit_eq_mod drop_bit_eq_div)
qed

lemma next_base:
  assumes "l \<le> 3" and "unat x < 2 ^ 48"
  shows "unat (pagetable_next_entry_base E x l) = (unat x div cov l + 1) * cov l"
proof -
  have l: "12 + 9 * l < 64" using assms(1) by simp
  have c: "pagetable_entry_coverage E l = 2 ^ (12 + 9 * l)"
    by (simp add: pagetable_entry_coverage_def coverage_bits push_bit_eq_mult)
  have p: "pow2 (2 ^ (12 + 9 * l))" using l refl by (rule pow2I)
  have uc: "unat (2 ^ (12 + 9 * l) :: u64) = cov l" using l by (simp only: unat_pow2_word cov_def)
  have x1: "unat (x + 1) = unat x + 1" using assms(2) by (subst unat_add64) simp_all
  have "unat (x + 1) + cov l \<le> 2 ^ 64" using x1 assms(2) cov_le [of l] assms(1) by simp
  then have "unat (pagetable_next_entry_base E x l) = up_to (cov l) (unat x + 1)"
    unfolding pagetable_next_entry_base_def c using p by (simp only: align_up uc x1)
  also have "\<dots> = (unat x div cov l + 1) * cov l"
    by (simp add: up_to_def add.commute [of "unat x"] div_add1_eq)
  finally show ?thesis .
qed

lemma lowest_cov: "unat (PAGE_SIZE E) = cov (PAGETABLE_LOWEST_LEVEL E)"
  using page_size by (auto simp: PAGETABLE_LOWEST_LEVEL_def PT_LEVEL_def PD_LEVEL_def cov_def)

lemma lowest_le: "PAGETABLE_LOWEST_LEVEL E \<le> 1"
  by (simp add: PAGETABLE_LOWEST_LEVEL_def PT_LEVEL_def PD_LEVEL_def)

end

text \<open>The loop rule: an invariant indexed by the position, with a strictly advancing step.\<close>

lemma pt_loop_rule:
  assumes "\<And>addr s. base \<le> addr \<Longrightarrow> addr < stop \<Longrightarrow> I (unat addr) s \<Longrightarrow>
      \<exists>t. body addr s = Some t \<and> I (unat (nxt addr)) t"
    and "\<And>addr. base \<le> addr \<Longrightarrow> addr < stop \<Longrightarrow> addr < nxt addr"
    and "base \<le> addr" and "I (unat addr) s"
  shows "\<exists>t a. pt_loop body nxt stop addr s = Some t \<and> unat stop \<le> a \<and> I a t"
  using assms(3,4)
proof (induction "unat stop - unat addr" arbitrary: addr s rule: less_induct)
  case less
  show ?case
  proof (cases "addr < stop")
    case True
    obtain t where t: "body addr s = Some t" "I (unat (nxt addr)) t"
      using assms(1) less.prems True by blast
    have adv: "addr < nxt addr" using assms(2) less.prems(1) True by blast
    then have "unat stop - unat (nxt addr) < unat stop - unat addr"
      using True by (simp add: word_less_nat)
    from less.hyps [OF this _ t(2)] adv less.prems(1) t(1) True show ?thesis
      by (subst pt_loop.simps) auto
  next
    case False
    then show ?thesis using less.prems(2)
      by (subst pt_loop.simps) (auto simp: word_nat linorder_not_less)
  qed
qed

text \<open>A concrete node allocator that meets the laws: the first free 4 KB frame.\<close>

definition first_free_node :: "u64 list \<Rightarrow> u64" where
  "first_free_node A =
    hd (filter (\<lambda>n. n \<notin> set A) (map frame [1..<length A + 2]))"

lemma permission_mask_clear:
  assumes "4096 dvd unat x" and "unat x < 2 ^ 52"
  shows "x AND PERMISSION_MASK = 0"
proof -
  have m: "PERMISSION_MASK = mask 12 OR push_bit 52 (mask 12)"
    by (simp add: PERMISSION_MASK_def mask_eq_exp_minus_1)
  have "unat (take_bit 12 x) = unat x mod 2 ^ 12"
    unfolding unsigned_take_bit_eq by (rule take_bit_eq_mod)
  then have "unat (take_bit 12 x) = 0" using assms(1) by auto
  then have lo: "x AND mask 12 = 0" by (simp add: word_eq_nat flip: take_bit_eq_mask)
  have "unat (drop_bit 52 x) = 0"
    unfolding unsigned_drop_bit_eq using assms(2)
    by (simp add: drop_bit_eq_div take_bit_nat_eq_self)
  then have "drop_bit 52 x = 0" by (simp add: word_eq_nat)
  moreover have "x AND push_bit 52 (mask 12) = push_bit 52 (drop_bit 52 x AND mask 12)"
    by (rule bit_word_eqI) (auto simp: bit_simps)
  ultimately have hi: "x AND push_bit 52 (mask 12) = 0" by simp
  show ?thesis unfolding m bit.conj_disj_distrib lo hi by simp
qed

lemma first_free_node_props:
  assumes "length A < 2 ^ 36"
  shows "first_free_node A \<notin> set A" and "first_free_node A \<noteq> 0"
    and "first_free_node A AND PERMISSION_MASK = 0"
proof -
  let ?C = "map frame [1..<length A + 2]"
  have "inj_on frame {1..<length A + 2}"
    using assms by (intro inj_onI, elim frame_inj [rotated 2]) simp_all
  then have "card (frame ` {1..<length A + 2}) = length A + 1" by (subst card_image) simp_all
  then have "card (set ?C) = length A + 1" by (simp only: set_map set_upt)
  then have "\<not> set ?C \<subseteq> set A" using card_mono [of "set A" "set ?C"] card_length [of A] by auto
  then have ne: "filter (\<lambda>n. n \<notin> set A) ?C \<noteq> []" by (auto simp: filter_empty_conv)
  then have "first_free_node A \<in> set (filter (\<lambda>n. n \<notin> set A) ?C)"
    unfolding first_free_node_def by (rule hd_in_set)
  then have mem: "first_free_node A \<in> set ?C" and "first_free_node A \<notin> set A"
    unfolding set_filter mem_Collect_eq by blast+
  then show "first_free_node A \<notin> set A" by simp
  obtain k where k: "first_free_node A = frame k" "1 \<le> k" "k < length A + 2"
    using mem by (auto simp only: set_map set_upt image_iff atLeastLessThan_iff)
  have uk: "unat (first_free_node A) = 4096 * k" unfolding k(1) using k(3) assms by (intro unat_frame) simp
  then show "first_free_node A \<noteq> 0" using k(2) by auto
  show "first_free_node A AND PERMISSION_MASK = 0"
    using k(3) assms by (intro permission_mask_clear) (simp_all add: uk)
qed

interpretation free_small: pt_alloc "rounding_env 4096" first_free_node
  by unfold_locales (simp_all add: first_free_node_props)

interpretation free_large: pt_alloc "rounding_env 2097152" first_free_node
  by unfold_locales (simp_all add: first_free_node_props)

end
