(* ===== verification/Page_Table_Update.thy ===== *)
theory Page_Table_Update
  imports Page_Table_Walk
begin

unbundle bit_operations_syntax

text \<open>
  The effect of the page-table updates on the hardware walk: one lemma for the
  range loop of a level, one for allocating a missing child, and the level
  inductions for \<open>add_to_pagetable\<close> and \<open>remove_from_pagetable\<close>.
\<close>

text \<open>The most nodes one call can allocate below a root of the given level.\<close>

primrec nodes_bound :: "nat \<Rightarrow> nat" where
  "nodes_bound 0 = 0"
| "nodes_bound (Suc l) = 512 * (1 + nodes_bound l)"

definition same_block :: "nat \<Rightarrow> u64 \<Rightarrow> u64 \<Rightarrow> bool" where
  "same_block l x y \<longleftrightarrow> unat x div cov (Suc l) = unat y div cov (Suc l)"

definition range_effect ::
  "nat \<Rightarrow> env \<Rightarrow> u64 \<Rightarrow> nat \<Rightarrow> nat \<Rightarrow> u64 \<Rightarrow> (u64 \<Rightarrow> u64) \<Rightarrow> pt_mem \<Rightarrow> pt_mem \<Rightarrow> bool" where
  "range_effect l E root lo hi b f m m' \<longleftrightarrow> pt_ext l E root m m' \<and>
    (\<forall>x. same_block l x b \<longrightarrow> walk l E m' root x =
      (if lo \<le> unat x \<and> unat x < hi then f x else walk l E m root x))"

lemma pt_ext_ok: "pt_ext l E root m m' \<Longrightarrow> pt_ok l E m' root"
  by (simp add: pt_ext_def)

lemma zero_node:
  assumes "r \<in> set (pt_nodes m)" and "r \<noteq> 0" and "pt_entry m r = (\<lambda>_. 0)"
  shows "pt_ok l E m r" and "nset l E m r = {r}" and "walk l E m r x = 0"
  using assms by (cases l; simp add: child_def next_level_def is_large_mapping_def)+

lemma pt_write_sel [simp]:
  "pt_nodes (pt_write r i v m) = pt_nodes m"
  "kernel_pagetable (pt_write r i v m) = kernel_pagetable m"
  "pt_entry (pt_write r i v m) q = (if q = r then (pt_entry m r)(i := v) else pt_entry m q)"
  by (simp_all add: pt_write_def)

lemma leaf_write:
  assumes "pt_ok l E m root" and "l = PAGETABLE_LOWEST_LEVEL E"
  shows "pt_ext l E root m (pt_write root i v m)"
    and "walk l E (pt_write root i v m) root x = (if idx l x = i then v else walk l E m root x)"
  using assms by (cases l; simp add: pt_ext_def)+

lemma div_eq_block:
  fixes a c x :: nat
  assumes "c dvd a" and "0 < c"
  shows "x div c = a div c \<longleftrightarrow> a \<le> x \<and> x < a + c"
proof -
  obtain k where k: "a = c * k" using assms(1) by blast
  have "x div c = k \<longleftrightarrow> c * k \<le> x \<and> x < c * k + c"
  proof
    assume "c * k \<le> x \<and> x < c * k + c"
    then show "x div c = k" by (intro div_nat_eqI) simp_all
  qed (use assms(2) dividend_less_times_div [of c x] in auto)
  then show ?thesis using k assms(2) by simp
qed

lemma block_count:
  fixes b e c :: nat
  assumes "b div (512 * c) = e div (512 * c)"
  shows "e div c + 1 - b div c \<le> 512"
proof -
  have "(b div c) div 512 = (e div c) div 512"
    using assms by (simp add: mult.commute [of 512] div_mult2_eq)
  moreover have "e div c < 512 * (e div c div 512) + 512" "512 * (b div c div 512) \<le> b div c" by simp_all
  ultimately show ?thesis by linarith
qed

lemma range_effect_step:
  assumes "range_effect l E root lo (min hi a) b f m m1"
    and "range_effect l E root a (min hi n) b f m1 m2" and "lo \<le> a" and "a < n" and "a < hi"
  shows "range_effect l E root lo (min hi n) b f m m2"
proof -
  have "walk l E m2 root x = (if lo \<le> unat x \<and> unat x < min hi n then f x else walk l E m root x)"
    if "same_block l x b" for x
    using assms that unfolding range_effect_def by auto
  then show ?thesis using assms pt_ext_trans unfolding range_effect_def by blast
qed

context snmalloc_env
begin

lemma range_loop:
  assumes l: "l \<le> 3" and stop: "unat stop \<le> 2 ^ 48" and lt: "base < stop"
    and blk: "unat base div cov (Suc l) = (unat stop - 1) div cov (Suc l)"
    and ok: "pt_ok l E m root"
    and body: "\<And>addr m1. base \<le> addr \<Longrightarrow> addr < stop \<Longrightarrow> addr = base \<or> cov l dvd unat addr \<Longrightarrow>
      pt_ok l E m1 root \<Longrightarrow> length (pt_nodes m1) + q \<le> length (pt_nodes m) + 512 * q \<Longrightarrow>
      \<exists>m2. body addr m1 = Some m2 \<and> length (pt_nodes m2) \<le> length (pt_nodes m1) + q \<and>
        range_effect l E root (unat addr) (min (unat stop) ((unat addr div cov l + 1) * cov l)) base f m1 m2"
  shows "\<exists>m'. pt_loop body (\<lambda>addr. pagetable_next_entry_base E addr l) stop base m = Some m' \<and>
    length (pt_nodes m') \<le> length (pt_nodes m) + 512 * q \<and>
    range_effect l E root (unat base) (unat stop) base f m m'"
proof -
  let ?next = "\<lambda>addr. pagetable_next_entry_base E addr l"
  let ?k = "\<lambda>a. a div cov l - unat base div cov l"
  define I where "I = (\<lambda>a m1. (a = unat base \<or> cov l dvd a) \<and> unat base \<le> a \<and>
      ?k a \<le> 512 \<and> length (pt_nodes m1) \<le> length (pt_nodes m) + ?k a * q \<and>
      range_effect l E root (unat base) (min (unat stop) a) base f m m1)"
  have nxt: "unat (?next addr) = (unat addr div cov l + 1) * cov l" if "addr < stop" for addr
    using that stop l by (intro next_base) (simp_all add: word_less_nat)
  have k512: "(unat stop - 1) div cov l + 1 - unat base div cov l \<le> 512"
    using blk by (intro block_count) (simp add: cov_Suc)
  have adv: "addr < ?next addr" if "base \<le> addr" "addr < stop" for addr
    using nxt [OF that(2)] down_to_gt [OF cov_pos, of "unat addr" l]
    by (simp add: word_less_nat down_to_def)
  have step: "\<exists>t. body addr m1 = Some t \<and> I (unat (?next addr)) t"
    if a: "base \<le> addr" "addr < stop" and i: "I (unat addr) m1" for addr m1
  proof -
    have i1: "addr = base \<or> cov l dvd unat addr" "length (pt_nodes m1) \<le> length (pt_nodes m) + ?k (unat addr) * q"
      "range_effect l E root (unat base) (min (unat stop) (unat addr)) base f m m1"
      using i unfolding I_def by (simp_all add: word_eq_nat)
    have ok1: "pt_ok l E m1 root" using i1(3) pt_ext_ok unfolding range_effect_def by blast
    have d: "unat addr div cov l \<le> (unat stop - 1) div cov l"
      using a(2) by (intro div_le_mono) (simp add: word_less_nat)
    have k: "?k (unat addr) + 1 \<le> 512" using d k512 by linarith
    have "?k (unat addr) * q + q \<le> 512 * q" using mult_le_mono1 [OF k, of q] by simp
    then have room: "length (pt_nodes m1) + q \<le> length (pt_nodes m) + 512 * q" using i1(2) by linarith
    obtain m2 where m2: "body addr m1 = Some m2" "length (pt_nodes m2) \<le> length (pt_nodes m1) + q"
        "range_effect l E root (unat addr) (min (unat stop) (unat (?next addr))) base f m1 m2"
      using body [OF a i1(1) ok1 room] nxt [OF a(2)] by auto
    have ge: "unat base div cov l \<le> unat addr div cov l" using a(1) by (simp add: word_nat div_le_mono)
    have kn: "?k (unat (?next addr)) = ?k (unat addr) + 1" using nxt [OF a(2)] ge by simp
    have eff: "range_effect l E root (unat base) (min (unat stop) (unat (?next addr))) base f m m2"
      using range_effect_step [OF i1(3) m2(3)] a adv [OF a] by (simp add: word_nat)
    have "length (pt_nodes m2) \<le> length (pt_nodes m) + ?k (unat (?next addr)) * q"
      using m2(2) i1(2) unfolding kn by simp
    then have "I (unat (?next addr)) m2"
      using eff k kn adv [OF a] a(1) unfolding I_def by (simp add: nxt [OF a(2)] word_nat)
    then show ?thesis using m2(1) by blast
  qed
  have init: "I (unat base) m" using ok lt
    unfolding I_def range_effect_def by (auto simp: pt_ext_refl)
  have "\<exists>t a. pt_loop body ?next stop base m = Some t \<and> unat stop \<le> a \<and> I a t"
    by (rule pt_loop_rule [where base=base and I=I]) (simp_all add: step adv init)
  then obtain t a where t: "pt_loop body ?next stop base m = Some t" "unat stop \<le> a" "I a t" by blast
  have "?k a * q \<le> 512 * q" using t(3) unfolding I_def by (simp add: mult_le_mono1)
  then have "length (pt_nodes t) \<le> length (pt_nodes m) + 512 * q"
    using t(3) unfolding I_def by linarith
  then show ?thesis using t unfolding I_def by (auto simp: min_def)
qed

end

text \<open>Allocating a missing child changes no translation.\<close>

context pt_alloc
begin

lemma pt_child_new:
  assumes ok: "pt_ok (Suc l) E m root" and nl: "Suc l \<noteq> PAGETABLE_LOWEST_LEVEL E" and i: "i < 512"
    and room: "length (pt_nodes m) < 2 ^ 36" and zero: "child m root i = 0"
    and run: "pt_child alloc k root i t m = (n, m1)"
  shows "pt_ext (Suc l) E root m m1" and "child m1 root i = n" and "n \<noteq> 0"
    and "walk (Suc l) E m1 root x = walk (Suc l) E m root x"
    and "length (pt_nodes m1) = length (pt_nodes m) + 1"
proof -
  let ?v = "set_next_level k n t"
  have n: "n = alloc (pt_nodes m)" and nodes: "pt_nodes m1 = n # pt_nodes m"
    and kp: "kernel_pagetable m1 = kernel_pagetable m"
    and ent: "pt_entry m1 = ((pt_entry m)(n := \<lambda>_. 0))(root := (((pt_entry m)(n := \<lambda>_. 0)) root)(i := ?v))"
    using run zero by (auto simp: pt_child_def child_def alloc_pagetable_node_def pt_write_def Let_def)
  have fresh: "n \<notin> set (pt_nodes m)" and n0: "n \<noteq> 0" and al: "n AND PERMISSION_MASK = 0"
    using alloc_fresh [OF room] alloc_nonnull [OF room] alloc_aligned [OF room] by (simp_all add: n)
  have rootn: "root \<noteq> n" using fresh ok by auto
  have er: "pt_entry m1 root = (pt_entry m root)(i := ?v)" using rootn by (simp add: ent)
  have en: "pt_entry m1 n = (\<lambda>_. 0)" using rootn by (simp add: ent)
  have eo: "pt_entry m1 r = pt_entry m r" if "r \<in> set (pt_nodes m)" "r \<noteq> root" for r
    using that fresh by (auto simp: ent)
  have c: "child m1 root j = (if j = i then n else child m root j)" for j
    using next_level_set(1) [OF al] by (simp add: child_def er)
  have okc: "pt_ok l E m (child m root j)" "root \<notin> nset l E m (child m root j)"
    if "j < 512" "child m root j \<noteq> 0" for j using ok nl that by auto
  have keep: "\<forall>r \<in> nset l E m (child m root j). pt_entry m1 r = pt_entry m r"
    if "j < 512" "child m root j \<noteq> 0" for j
    using nset_nodes [OF okc(1) [OF that]] okc(2) [OF that] by (auto intro!: eo)
  have sub: "set (pt_nodes m) \<subseteq> set (pt_nodes m1)" by (auto simp: nodes)
  note zn = zero_node [of n m1 l E, OF _ n0 en]
  have zn1: "pt_ok l E m1 n" "nset l E m1 n = {n}" using zn by (simp_all add: nodes)
  have nj: "nset l E m1 (child m root j) = nset l E m (child m root j)" "n \<notin> nset l E m (child m root j)"
    "pt_ok l E m1 (child m root j)" if "j < 512" "child m root j \<noteq> 0" for j
    using pt_frame(1) [OF keep [OF that]] pt_frame(3) [OF keep [OF that] okc(1) [OF that] sub]
      nset_nodes [OF okc(1) [OF that]] fresh by auto
  have large: "\<forall>j < 512. \<not> is_large_mapping (pt_entry m1 root j)"
    using ok nl next_level_set(2) [OF al] by (simp add: er)
  have "pt_ok (Suc l) E m1 root"
    using ok nl large nj okc zn1 rootn by (auto simp: c nodes)
  moreover have "nset (Suc l) E m1 root \<subseteq> nset (Suc l) E m root \<union> (set (pt_nodes m1) - set (pt_nodes m))"
    using nl nj(1) zn1(2) fresh by (auto simp: c nodes split: if_splits)
  ultimately show "pt_ext (Suc l) E root m m1"
    using sub kp eo unfolding pt_ext_def by (metis Diff_iff root_in_nset)
  show "child m1 root i = n" by (simp add: c)
  show "n \<noteq> 0" by (rule n0)
  show "walk (Suc l) E m1 root x = walk (Suc l) E m root x"
    using nl zero zn(3) n0 pt_frame(2) [OF keep [OF idx_less], of "Suc l" x x]
    by (auto simp: c nodes)
  show "length (pt_nodes m1) = length (pt_nodes m) + 1" by (simp add: nodes)
qed

lemma pt_child_spec:
  assumes "pt_ok (Suc l) E m root" and "Suc l \<noteq> PAGETABLE_LOWEST_LEVEL E" and "i < 512"
    and "length (pt_nodes m) < 2 ^ 36" and "pt_child alloc k root i t m = (n, m1)"
  shows "pt_ext (Suc l) E root m m1" and "child m1 root i = n" and "n \<noteq> 0"
    and "walk (Suc l) E m1 root x = walk (Suc l) E m root x"
    and "length (pt_nodes m1) \<le> length (pt_nodes m) + 1"
proof -
  have old: "m1 = m \<and> n = child m root i" if "child m root i \<noteq> 0"
    using that assms(5) by (auto simp: pt_child_def child_def Let_def)
  show "pt_ext (Suc l) E root m m1" "child m1 root i = n" "n \<noteq> 0"
    "walk (Suc l) E m1 root x = walk (Suc l) E m root x"
    "length (pt_nodes m1) \<le> length (pt_nodes m) + 1"
    using old pt_child_new [OF assms(1-4) _ assms(5)] pt_ext_refl [OF assms(1)]
    by (cases "child m root i = 0"; simp del: pt_ok.simps walk.simps)+
qed

end

definition leaf_of ::
  "env \<Rightarrow> bool \<Rightarrow> PagetableType \<Rightarrow> PagetablePermission \<Rightarrow> PagetableLevels \<Rightarrow> u64 \<Rightarrow> u64" where
  "leaf_of E is_kernel type perm l x =
    set_leaf is_kernel (word_of_nat (down_to (unat (PAGE_SIZE E)) (unat x)))
      (if l = PAGETABLE_LOWEST_LEVEL E then type else NORMAL_TYPE) perm (PAGETABLE_LOWEST_LEVEL E)"

definition page_request :: "env \<Rightarrow> nat \<Rightarrow> u64 \<Rightarrow> u64 \<Rightarrow> bool" where
  "page_request E l base sz \<longleftrightarrow> 0 < unat sz \<and> unat base + unat sz \<le> 2 ^ 48 \<and>
    unat (PAGE_SIZE E) dvd unat base \<and> unat (PAGE_SIZE E) dvd unat sz \<and>
    unat base div cov (Suc l) = (unat base + unat sz - 1) div cov (Suc l)"

context snmalloc_env
begin

lemma page_request_stop:
  "page_request E l base sz \<Longrightarrow> unat (base + sz) = unat base + unat sz \<and> base < base + sz"
  by (auto simp: page_request_def unat_add64 word_less_nat)

lemma leaf_body:
  assumes "pt_ok l E m root" and "l = PAGETABLE_LOWEST_LEVEL E" and "cov l dvd unat addr"
    and "cov l dvd stop" and "unat addr < stop" and "same_block l addr b"
    and f: "\<And>x. same_block l x b \<Longrightarrow> unat addr \<le> unat x \<Longrightarrow> unat x < unat addr + cov l \<Longrightarrow> f x = v"
  shows "range_effect l E root (unat addr) (min stop ((unat addr div cov l + 1) * cov l)) b f m
    (pt_write root (idx l addr) v m)"
proof -
  have a: "unat addr div cov l * cov l = unat addr" using assms(3) by simp
  have le: "unat addr + cov l \<le> stop" using assms(3,4,5) by (rule dvd_less_step)
  have m: "min stop ((unat addr div cov l + 1) * cov l) = unat addr + cov l" using a le by simp
  have i: "idx l x = idx l addr \<longleftrightarrow> unat addr \<le> unat x \<and> unat x < unat addr + cov l"
    if "same_block l x b" for x
  proof -
    have "unat x div cov (Suc l) = unat addr div cov (Suc l)"
      using that assms(6) by (simp add: same_block_def)
    from idx_eq_iff [OF this] have "idx l x = idx l addr \<longleftrightarrow> unat x div cov l = unat addr div cov l" .
    also have "\<dots> \<longleftrightarrow> unat addr \<le> unat x \<and> unat x < unat addr + cov l"
      by (rule div_eq_block [OF assms(3) cov_pos])
    finally show ?thesis .
  qed
  show ?thesis
    unfolding range_effect_def m
  proof (intro conjI allI impI)
    fix x assume x: "same_block l x b"
    show "walk l E (pt_write root (idx l addr) v m) root x =
        (if unat addr \<le> unat x \<and> unat x < unat addr + cov l then f x else walk l E m root x)"
      using leaf_write(2) [OF assms(1,2)] i [OF x] f [OF x] by simp
  qed (rule leaf_write(1) [OF assms(1,2)])
qed

lemma node_body:
  assumes ok: "pt_ok (Suc l) E m root" and nl: "Suc l \<noteq> PAGETABLE_LOWEST_LEVEL E"
    and blk: "same_block (Suc l) addr b" and n: "child m root (idx (Suc l) addr) = n" "n \<noteq> 0"
    and inner: "range_effect l E n (unat addr)
      (min stop ((unat addr div cov (Suc l) + 1) * cov (Suc l))) addr f m m2"
  shows "range_effect (Suc l) E root (unat addr)
    (min stop ((unat addr div cov (Suc l) + 1) * cov (Suc l))) b f m m2"
proof -
  let ?i = "idx (Suc l) addr" and ?hi = "min stop ((unat addr div cov (Suc l) + 1) * cov (Suc l))"
  have e: "pt_ext l E (child m root ?i) m m2" using inner n by (simp add: range_effect_def)
  note ch = pt_ext_child [OF ok nl idx_less _ e]
  show ?thesis
    unfolding range_effect_def
  proof (intro conjI allI impI)
    show "pt_ext (Suc l) E root m m2" using ch(1) n by simp
  next
    fix x assume x: "same_block (Suc l) x b"
    have "unat x div cov (Suc (Suc l)) = unat addr div cov (Suc (Suc l))"
      using x blk by (simp add: same_block_def)
    from idx_eq_iff [OF this] have i: "idx (Suc l) x = ?i \<longleftrightarrow> same_block l x addr"
      by (simp add: same_block_def)
    show "walk (Suc l) E m2 root x =
        (if unat addr \<le> unat x \<and> unat x < ?hi then f x else walk (Suc l) E m root x)"
    proof (cases "idx (Suc l) x = ?i")
      case True
      then have "walk (Suc l) E m2 root x = walk l E m2 n x" using ch(2) n by simp
      moreover have "walk (Suc l) E m root x = walk l E m n x" using True nl n by simp
      ultimately show ?thesis using inner i True unfolding range_effect_def by simp
    next
      case False
      have out: "\<not> (unat addr \<le> unat x \<and> unat x < ?hi)"
      proof
        assume h: "unat addr \<le> unat x \<and> unat x < ?hi"
        then have "unat x < (unat addr div cov (Suc l) + 1) * cov (Suc l)" by linarith
        then have "unat x div cov (Suc l) < unat addr div cov (Suc l) + 1"
          by (simp only: div_less_iff_less_mult cov_pos)
        moreover have "unat addr div cov (Suc l) \<le> unat x div cov (Suc l)" using h by (simp add: div_le_mono)
        ultimately show False using False i by (simp add: same_block_def)
      qed
      have "walk (Suc l) E m2 root x = walk (Suc l) E m root x"
        using ch(2) n False by (simp del: walk.simps)
      then show ?thesis unfolding if_not_P [OF out] .
    qed
  qed
qed

lemma range_effect_pre:
  assumes "pt_ext l E root m m1" and "\<And>x. walk l E m1 root x = walk l E m root x"
    and "range_effect l E root lo hi b f m1 m2"
  shows "range_effect l E root lo hi b f m m2"
  using assms pt_ext_trans unfolding range_effect_def by auto

lemma block_between:
  assumes "page_request E l base sz" and "base \<le> addr" and "addr < base + sz"
  shows "same_block l addr base"
proof -
  have "unat base \<le> unat addr" "unat addr \<le> unat base + unat sz - 1"
    using assms page_request_stop [OF assms(1)] by (auto simp: word_nat)
  then have "unat base div cov (Suc l) \<le> unat addr div cov (Suc l)"
    "unat addr div cov (Suc l) \<le> (unat base + unat sz - 1) div cov (Suc l)"
    by (simp_all add: div_le_mono)
  then show ?thesis using assms(1) by (simp add: same_block_def page_request_def)
qed

lemma sub_request:
  assumes pr: "page_request E (Suc l) base sz" and low: "PAGETABLE_LOWEST_LEVEL E \<le> l" and l: "Suc l \<le> 3"
    and a: "base \<le> addr" "addr < base + sz" "addr = base \<or> cov (Suc l) dvd unat addr"
  defines "next_sz \<equiv> min (base + sz) (pagetable_next_entry_base E addr (Suc l)) - addr"
  shows "page_request E l addr next_sz"
    and "unat addr + unat next_sz = min (unat (base + sz)) ((unat addr div cov (Suc l) + 1) * cov (Suc l))"
proof -
  let ?N = "(unat addr div cov (Suc l) + 1) * cov (Suc l)" and ?P = "unat (PAGE_SIZE E)"
  have stop: "unat (base + sz) = unat base + unat sz" "unat base + unat sz \<le> 2 ^ 48"
    using pr page_request_stop [OF pr] by (simp_all add: page_request_def)
  have nb: "unat (pagetable_next_entry_base E addr (Suc l)) = ?N"
    using a(2) stop l by (intro next_base) (simp_all add: word_less_nat)
  have N: "unat addr < ?N" using down_to_gt [OF cov_pos, of "unat addr" "Suc l"] by (simp add: down_to_def)
  have um: "unat (min (base + sz) (pagetable_next_entry_base E addr (Suc l))) = min (unat (base + sz)) ?N"
    by (simp add: min_def word_nat nb)
  then have ns: "unat next_sz = min (unat (base + sz)) ?N - unat addr"
    using a(2) N unfolding next_sz_def by (subst unat_sub64) (simp_all add: um word_less_nat)
  then show sum: "unat addr + unat next_sz = min (unat (base + sz)) ?N"
    using a(2) N by (simp add: word_less_nat)
  have P: "?P dvd cov (Suc l)" using low by (simp add: lowest_cov cov_dvd)
  have Pa: "?P dvd unat addr" using a(3) P pr dvd_trans by (auto simp: page_request_def)
  have "?P dvd unat (base + sz)" using pr stop by (simp add: page_request_def)
  moreover have "?P dvd ?N" using P by simp
  ultimately have "?P dvd min (unat (base + sz)) ?N" by (simp add: min_def)
  then have "?P dvd unat next_sz" using Pa by (simp add: ns dvd_diff_nat)
  moreover have lt: "unat addr < min (unat (base + sz)) ?N" using a(2) N by (simp add: word_less_nat)
  moreover have "unat addr div cov (Suc l) = (unat addr + unat next_sz - 1) div cov (Suc l)"
  proof (rule le_antisym)
    have "unat addr + unat next_sz - 1 < ?N" using sum N by linarith
    then have "(unat addr + unat next_sz - 1) div cov (Suc l) < unat addr div cov (Suc l) + 1"
      by (simp only: div_less_iff_less_mult cov_pos)
    then show "(unat addr + unat next_sz - 1) div cov (Suc l) \<le> unat addr div cov (Suc l)" by simp
    show "unat addr div cov (Suc l) \<le> (unat addr + unat next_sz - 1) div cov (Suc l)"
      using sum lt by (intro div_le_mono) linarith
  qed
  ultimately show "page_request E l addr next_sz"
    using Pa sum stop unfolding page_request_def by linarith
qed

lemma leaf_loop:
  assumes pr: "page_request E l base sz" and l: "l = PAGETABLE_LOWEST_LEVEL E" and ok: "pt_ok l E m root"
    and f: "\<And>addr x. cov l dvd unat addr \<Longrightarrow> unat addr \<le> unat x \<Longrightarrow> unat x < unat addr + cov l \<Longrightarrow> f x = v addr"
  shows "\<exists>m'. pt_loop (\<lambda>addr m. Some (pt_write root (idx l addr) (v addr) m))
      (\<lambda>addr. pagetable_next_entry_base E addr l) (base + sz) base m = Some m' \<and>
    length (pt_nodes m') \<le> length (pt_nodes m) + 512 * 0 \<and>
    range_effect l E root (unat base) (unat (base + sz)) base f m m'"
proof (rule range_loop)
  note st = page_request_stop [OF pr]
  show "l \<le> 3" using l lowest_le by simp
  show "unat (base + sz) \<le> 2 ^ 48" "base < base + sz"
    "unat base div cov (Suc l) = (unat (base + sz) - 1) div cov (Suc l)"
    using pr st by (simp_all add: page_request_def)
  show "pt_ok l E m root" by (rule ok)
  fix addr m1
  assume a: "base \<le> addr" "addr < base + sz" "addr = base \<or> cov l dvd unat addr" and ok1: "pt_ok l E m1 root"
  have c: "cov l = unat (PAGE_SIZE E)" using l by (simp add: lowest_cov)
  have ca: "cov l dvd unat addr" using a(3) pr by (auto simp: c page_request_def)
  have "range_effect l E root (unat addr) (min (unat (base + sz)) ((unat addr div cov l + 1) * cov l)) base f m1
      (pt_write root (idx l addr) (v addr) m1)"
  proof (rule leaf_body [OF ok1 l ca])
    show "cov l dvd unat (base + sz)" using pr st by (simp add: c page_request_def)
    show "unat addr < unat (base + sz)" using a(2) by (simp add: word_less_nat)
    show "same_block l addr base" by (rule block_between [OF pr a(1,2)])
  qed (rule f [OF ca])
  then show "\<exists>m2. Some (pt_write root (idx l addr) (v addr) m1) = Some m2 \<and>
      length (pt_nodes m2) \<le> length (pt_nodes m1) + 0 \<and>
      range_effect l E root (unat addr) (min (unat (base + sz)) ((unat addr div cov l + 1) * cov l)) base f m1 m2"
    by simp
qed

lemma leaf_of_const:
  assumes "cov (PAGETABLE_LOWEST_LEVEL E) dvd unat addr" and "unat addr \<le> unat x"
    and "unat x < unat addr + cov (PAGETABLE_LOWEST_LEVEL E)"
  shows "leaf_of E k type perm l x = set_leaf k addr
    (if l = PAGETABLE_LOWEST_LEVEL E then type else NORMAL_TYPE) perm (PAGETABLE_LOWEST_LEVEL E)"
proof -
  let ?c = "cov (PAGETABLE_LOWEST_LEVEL E)"
  have "unat x div ?c = unat addr div ?c" using assms div_eq_block [OF assms(1) cov_pos] by blast
  then have "down_to ?c (unat x) = unat addr" using assms(1) by (simp add: down_to_def)
  moreover have "word_of_nat (unat addr) = addr" by (simp add: word_eq_nat unat_of_nat64)
  ultimately show ?thesis by (simp add: leaf_of_def lowest_cov)
qed

end

context pt_alloc
begin

lemma add_spec:
  assumes "page_request E l base sz" and "l \<le> 3" and "PAGETABLE_LOWEST_LEVEL E \<le> l"
    and "pt_ok l E m root" and "length (pt_nodes m) + nodes_bound l \<le> 2 ^ 36"
  shows "\<exists>m'. add_to_pagetable l E alloc k root base sz perm type m = Some m' \<and>
    length (pt_nodes m') \<le> length (pt_nodes m) + nodes_bound l \<and>
    range_effect l E root (unat base) (unat (base + sz)) base (leaf_of E k type perm l) m m'"
  using assms
proof (induction l arbitrary: root base sz type m)
  case 0
  then have low: "0 = PAGETABLE_LOWEST_LEVEL E" by simp
  have "add_to_pagetable 0 E alloc k root base sz perm type m =
      pt_loop (\<lambda>addr m. Some (pt_write root (idx 0 addr) (set_leaf k addr type perm 0) m))
        (\<lambda>addr. pagetable_next_entry_base E addr 0) (base + sz) base m"
    by (simp add: index_idx)
  then show ?case
    using leaf_loop [OF 0(1) low 0(4), of "leaf_of E k type perm 0" "\<lambda>addr. set_leaf k addr type perm 0"]
      leaf_of_const [where l=0] low by simp
next
  case (Suc l)
  show ?case
  proof (cases "Suc l = PAGETABLE_LOWEST_LEVEL E")
    case True
    have "add_to_pagetable (Suc l) E alloc k root base sz perm type m =
        pt_loop (\<lambda>addr m. Some (pt_write root (idx (Suc l) addr) (set_leaf k addr type perm (Suc l)) m))
          (\<lambda>addr. pagetable_next_entry_base E addr (Suc l)) (base + sz) base m"
      unfolding add_to_pagetable.simps Let_def index_idx using True by simp
    moreover have lf: "leaf_of E k type perm (Suc l) x = set_leaf k addr type perm (Suc l)"
      if "cov (Suc l) dvd unat addr" "unat addr \<le> unat x" "unat x < unat addr + cov (Suc l)" for addr x
      using leaf_of_const [of addr x k type perm "Suc l"] that True by simp
    moreover note leaf_loop [OF Suc.prems(1) True Suc.prems(4), of "leaf_of E k type perm (Suc l)"
          "\<lambda>addr. set_leaf k addr type perm (Suc l)", OF lf]
    ultimately show ?thesis by fastforce
  next
    case nl: False
    let ?body = "\<lambda>addr m. let index = pagetable_index E addr (Suc l) in
        if Suc l \<noteq> PAGETABLE_LOWEST_LEVEL E then
          let (next_root, m1) = pt_child alloc k root index type m;
              next_size = min (base + sz) (pagetable_next_entry_base E addr (Suc l)) - addr in
          add_to_pagetable l E alloc k next_root addr next_size perm NORMAL_TYPE m1
        else Some (pt_write root index (set_leaf k addr type perm (Suc l)) m)"
    have low: "PAGETABLE_LOWEST_LEVEL E \<le> l" using Suc.prems(3) nl by simp
    have lf: "leaf_of E k NORMAL_TYPE perm l = leaf_of E k type perm (Suc l)"
      using nl by (intro ext) (simp add: leaf_of_def)
    note st = page_request_stop [OF Suc.prems(1)]
    have "\<exists>m'. pt_loop ?body (\<lambda>addr. pagetable_next_entry_base E addr (Suc l)) (base + sz) base m = Some m' \<and>
        length (pt_nodes m') \<le> length (pt_nodes m) + 512 * (1 + nodes_bound l) \<and>
        range_effect (Suc l) E root (unat base) (unat (base + sz)) base (leaf_of E k type perm (Suc l)) m m'"
    proof (rule range_loop)
      fix addr m1
      assume a: "base \<le> addr" "addr < base + sz" "addr = base \<or> cov (Suc l) dvd unat addr"
        and ok1: "pt_ok (Suc l) E m1 root"
        and room: "length (pt_nodes m1) + (1 + nodes_bound l) \<le> length (pt_nodes m) + 512 * (1 + nodes_bound l)"
      let ?nsz = "min (base + sz) (pagetable_next_entry_base E addr (Suc l)) - addr"
      obtain n m2 where ch: "pt_child alloc k root (idx (Suc l) addr) type m1 = (n, m2)"
        by (rule prod.exhaust)
      have lim: "length (pt_nodes m1) + (1 + nodes_bound l) \<le> 2 ^ 36" using room Suc.prems(5) by simp
      then have lim1: "length (pt_nodes m1) < 2 ^ 36" by simp
      note cs = pt_child_spec [OF ok1 nl idx_less lim1 ch]
      have ok2: "pt_ok (Suc l) E m2 root" by (rule pt_ext_ok [OF cs(1)])
      have okn: "pt_ok l E m2 n" using ok2 nl cs(2,3) idx_less by auto
      note sr = sub_request [OF Suc.prems(1) low Suc.prems(2) a]
      obtain m3 where m3: "add_to_pagetable l E alloc k n addr ?nsz perm NORMAL_TYPE m2 = Some m3"
          "length (pt_nodes m3) \<le> length (pt_nodes m2) + nodes_bound l"
          "range_effect l E n (unat addr) (unat (addr + ?nsz)) addr (leaf_of E k type perm (Suc l)) m2 m3"
        using Suc.IH [OF sr(1) _ low okn, of NORMAL_TYPE] Suc.prems(2) lim cs(5) lf by auto
      have "unat (addr + ?nsz) = min (unat (base + sz)) ((unat addr div cov (Suc l) + 1) * cov (Suc l))"
        using page_request_stop [OF sr(1)] sr(2) by simp
      from node_body [OF ok2 nl block_between [OF Suc.prems(1) a(1,2)] cs(2,3) m3(3) [unfolded this]]
      have "range_effect (Suc l) E root (unat addr)
          (min (unat (base + sz)) ((unat addr div cov (Suc l) + 1) * cov (Suc l))) base
          (leaf_of E k type perm (Suc l)) m1 m3"
        by (rule range_effect_pre [OF cs(1,4)])
      then show "\<exists>m2. ?body addr m1 = Some m2 \<and> length (pt_nodes m2) \<le> length (pt_nodes m1) + (1 + nodes_bound l) \<and>
          range_effect (Suc l) E root (unat addr)
            (min (unat (base + sz)) ((unat addr div cov (Suc l) + 1) * cov (Suc l))) base
            (leaf_of E k type perm (Suc l)) m1 m2"
        using m3(1,2) cs(5) nl ch by (intro exI [of _ m3]) (simp add: index_idx)
    qed (use Suc.prems st in \<open>simp_all add: page_request_def\<close>)
    then show ?thesis by simp
  qed
qed

end

context snmalloc_env
begin

lemma node_missing:
  assumes ok: "pt_ok (Suc l) E m root" and nl: "Suc l \<noteq> PAGETABLE_LOWEST_LEVEL E"
    and blk: "same_block (Suc l) addr b" and n: "child m root (idx (Suc l) addr) = 0"
  shows "range_effect (Suc l) E root (unat addr)
    (min stop ((unat addr div cov (Suc l) + 1) * cov (Suc l))) b (\<lambda>_. 0) m m"
  unfolding range_effect_def
proof (intro conjI allI impI)
  fix x assume x: "same_block (Suc l) x b"
  have "walk (Suc l) E m root x = 0"
    if h: "unat addr \<le> unat x" "unat x < min stop ((unat addr div cov (Suc l) + 1) * cov (Suc l))"
  proof -
    have "unat x < (unat addr div cov (Suc l) + 1) * cov (Suc l)" using h(2) by linarith
    then have "unat x div cov (Suc l) < unat addr div cov (Suc l) + 1"
      by (simp only: div_less_iff_less_mult cov_pos)
    moreover have "unat addr div cov (Suc l) \<le> unat x div cov (Suc l)" using h by (simp add: div_le_mono)
    ultimately have "unat x div cov (Suc l) = unat addr div cov (Suc l)" by simp
    then have "idx (Suc l) x = idx (Suc l) addr" by (simp add: idx_def)
    then show ?thesis using n nl by simp
  qed
  then show "walk (Suc l) E m root x =
      (if unat addr \<le> unat x \<and> unat x < min stop ((unat addr div cov (Suc l) + 1) * cov (Suc l)) then 0
       else walk (Suc l) E m root x)" by presburger
qed (rule pt_ext_refl [OF ok])

lemma remove_spec:
  assumes "page_request E l base sz" and "l \<le> 3" and "PAGETABLE_LOWEST_LEVEL E \<le> l"
    and "pt_ok l E m root"
  shows "\<exists>m'. remove_from_pagetable l E root base sz m = Some m' \<and>
    length (pt_nodes m') \<le> length (pt_nodes m) + 512 * 0 \<and>
    range_effect l E root (unat base) (unat (base + sz)) base (\<lambda>_. 0) m m'"
  using assms
proof (induction l arbitrary: root base sz m)
  case 0
  then have low: "0 = PAGETABLE_LOWEST_LEVEL E" by simp
  show ?case
    using leaf_loop [OF 0(1) low 0(4), of "\<lambda>_. 0" "\<lambda>_. 0"] by (simp add: index_idx)
next
  case (Suc l)
  show ?case
  proof (cases "Suc l = PAGETABLE_LOWEST_LEVEL E")
    case True
    have "remove_from_pagetable (Suc l) E root base sz m =
        pt_loop (\<lambda>addr m. Some (pt_write root (idx (Suc l) addr) 0 m))
          (\<lambda>addr. pagetable_next_entry_base E addr (Suc l)) (base + sz) base m"
      unfolding remove_from_pagetable.simps Let_def index_idx using True by simp
    then show ?thesis
      using leaf_loop [OF Suc.prems(1) True Suc.prems(4), of "\<lambda>_. 0" "\<lambda>_. 0"] by fastforce
  next
    case nl: False
    have low: "PAGETABLE_LOWEST_LEVEL E \<le> l" using Suc.prems(3) nl by simp
    note st = page_request_stop [OF Suc.prems(1)]
    show ?thesis unfolding remove_from_pagetable.simps
    proof (rule range_loop)
      fix addr m1
      assume a: "base \<le> addr" "addr < base + sz" "addr = base \<or> cov (Suc l) dvd unat addr"
        and ok1: "pt_ok (Suc l) E m1 root"
      let ?nsz = "min (base + sz) (pagetable_next_entry_base E addr (Suc l)) - addr"
      let ?n = "child m1 root (idx (Suc l) addr)"
      let ?eff = "range_effect (Suc l) E root (unat addr)
          (min (unat (base + sz)) ((unat addr div cov (Suc l) + 1) * cov (Suc l))) base (\<lambda>_. 0) m1"
      note bl = block_between [OF Suc.prems(1) a(1,2)]
      show "\<exists>m2. (let index = pagetable_index E addr (Suc l) in
          if Suc l \<noteq> PAGETABLE_LOWEST_LEVEL E then
            let next_root = next_level (pt_entry m1 root index) in
            if next_root = 0 then Some m1
            else let next_size = ?nsz in remove_from_pagetable l E next_root addr next_size m1
          else Some (pt_write root index 0 m1)) = Some m2 \<and>
          length (pt_nodes m2) \<le> length (pt_nodes m1) + 0 \<and> ?eff m2"
      proof (cases "?n = 0")
        case True
        then show ?thesis using node_missing [OF ok1 nl bl True] nl
          by (simp add: index_idx child_def)
      next
        case False
        have okn: "pt_ok l E m1 ?n" using ok1 nl False idx_less by auto
        note sr = sub_request [OF Suc.prems(1) low Suc.prems(2) a]
        obtain m3 where m3: "remove_from_pagetable l E ?n addr ?nsz m1 = Some m3"
            "length (pt_nodes m3) \<le> length (pt_nodes m1)"
            "range_effect l E ?n (unat addr) (unat (addr + ?nsz)) addr (\<lambda>_. 0) m1 m3"
          using Suc.IH [OF sr(1) _ low okn] Suc.prems(2) by auto
        have "unat (addr + ?nsz) = min (unat (base + sz)) ((unat addr div cov (Suc l) + 1) * cov (Suc l))"
          using page_request_stop [OF sr(1)] sr(2) by simp
        from node_body [OF ok1 nl bl refl False m3(3) [unfolded this]]
        show ?thesis using m3(1,2) nl False by (intro exI [of _ m3]) (simp add: index_idx child_def)
      qed
    qed (use Suc.prems st in \<open>simp_all add: page_request_def\<close>)
  qed
qed

end

end
