(* ===== verification/Page_Table_Properties.thy ===== *)
theory Page_Table_Properties
  imports Page_Table_Update
begin

unbundle bit_operations_syntax

text \<open>
  What the page-table entry points promise: requests map and unmap exactly their
  range, tables do not interfere, the software lookup agrees with the hardware
  walk, and a fresh compartment table gives no user-writable page.
\<close>

definition pt_request :: "env \<Rightarrow> u64 \<Rightarrow> u64 \<Rightarrow> bool" where
  "pt_request E base sz \<longleftrightarrow> base mod PAGE_SIZE E = 0 \<and> sz mod PAGE_SIZE E = 0 \<and>
    unat base + unat sz \<le> 2 ^ 48"

definition in_request :: "u64 \<Rightarrow> u64 \<Rightarrow> u64 \<Rightarrow> bool" where
  "in_request base sz x \<longleftrightarrow> unat base \<le> unat x \<and> unat x < unat base + unat sz"

text \<open>The node allocator can serve a given number of requests.\<close>

definition pt_room :: "nat \<Rightarrow> pt_mem \<Rightarrow> bool" where
  "pt_room n m \<longleftrightarrow> length (pt_nodes m) + n * nodes_bound 3 \<le> 2 ^ 36"

lemma word_mod_dvd: "x mod a = 0 \<longleftrightarrow> unat a dvd unat x" for x a :: u64
  by (simp add: word_eq_nat unat_mod dvd_eq_mod_eq_0)

lemma same_block_low: "unat x < 2 ^ 48 \<Longrightarrow> unat y < 2 ^ 48 \<Longrightarrow> same_block 3 x y"
  by (simp add: same_block_def cov_def)

lemma page_request_top: "pt_request E base sz \<Longrightarrow> sz \<noteq> 0 \<Longrightarrow> page_request E 3 base sz"
proof -
  assume h: "pt_request E base sz" "sz \<noteq> 0"
  then have "0 < unat sz" by (simp add: unat_gt_0)
  then show ?thesis using h by (auto simp: pt_request_def page_request_def word_mod_dvd cov_def)
qed

context pt_alloc
begin

lemma add_top:
  assumes req: "pt_request E base sz" and ok: "pt_ok 3 E m root" and room: "pt_room 1 m"
  shows "\<exists>m'. add_to_pagetable PML4_LEVEL E alloc k root base sz perm type m = Some m' \<and>
    length (pt_nodes m') \<le> length (pt_nodes m) + nodes_bound 3 \<and> pt_ext 3 E root m m' \<and>
    (\<forall>x. unat x < 2 ^ 48 \<longrightarrow> walk 3 E m' root x =
      (if in_request base sz x then leaf_of E k type perm 3 x else walk 3 E m root x))"
proof (cases "sz = 0")
  case True
  then have "add_to_pagetable PML4_LEVEL E alloc k root base sz perm type m = Some m"
    by (simp add: PML4_LEVEL_def numeral_3_eq_3 pt_loop.simps)
  then show ?thesis using True pt_ext_refl [OF ok] by (auto simp: in_request_def)
next
  case False
  note pr = page_request_top [OF req False]
  have st: "unat (base + sz) = unat base + unat sz" using page_request_stop [OF pr] by simp
  have low: "PAGETABLE_LOWEST_LEVEL E \<le> 3" using lowest_le by simp
  have "length (pt_nodes m) + nodes_bound 3 \<le> 2 ^ 36" using room by (simp add: pt_room_def)
  from add_spec [OF pr order_refl low ok this] obtain m' where
    m': "add_to_pagetable 3 E alloc k root base sz perm type m = Some m'"
      "length (pt_nodes m') \<le> length (pt_nodes m) + nodes_bound 3"
      "range_effect 3 E root (unat base) (unat (base + sz)) base (leaf_of E k type perm 3) m m'" by blast
  have "unat base < 2 ^ 48" using pr by (simp add: page_request_def)
  then show ?thesis using m' same_block_low
    unfolding range_effect_def st in_request_def PML4_LEVEL_def by blast
qed

end

context snmalloc_env
begin

lemma remove_top:
  assumes req: "pt_request E base sz" and ok: "pt_ok 3 E m root"
  shows "\<exists>m'. remove_from_pagetable PML4_LEVEL E root base sz m = Some m' \<and> pt_ext 3 E root m m' \<and>
    (\<forall>x. unat x < 2 ^ 48 \<longrightarrow> walk 3 E m' root x =
      (if in_request base sz x then 0 else walk 3 E m root x))"
proof (cases "sz = 0")
  case True
  then have "remove_from_pagetable PML4_LEVEL E root base sz m = Some m"
    by (simp add: PML4_LEVEL_def numeral_3_eq_3 pt_loop.simps)
  then show ?thesis using True pt_ext_refl [OF ok] by (auto simp: in_request_def)
next
  case False
  note pr = page_request_top [OF req False]
  have st: "unat (base + sz) = unat base + unat sz" using page_request_stop [OF pr] by simp
  have low: "PAGETABLE_LOWEST_LEVEL E \<le> 3" using lowest_le by simp
  from remove_spec [OF pr order_refl low ok] obtain m' where
    m': "remove_from_pagetable 3 E root base sz m = Some m'"
      "range_effect 3 E root (unat base) (unat (base + sz)) base (\<lambda>_. 0) m m'" by blast
  have "unat base < 2 ^ 48" using pr by (simp add: page_request_def)
  then show ?thesis using m' same_block_low
    unfolding range_effect_def st in_request_def PML4_LEVEL_def by blast
qed

lemma get_entry_walk:
  "pt_ok l E m root \<Longrightarrow> PAGETABLE_LOWEST_LEVEL E \<le> l \<Longrightarrow> get_pagetable_entry l E root x m = walk l E m root x"
proof (induction l arbitrary: root)
  case 0
  then show ?case by (simp add: index_idx)
next
  case (Suc l)
  show ?case
  proof (cases "Suc l = PAGETABLE_LOWEST_LEVEL E")
    case True
    then show ?thesis using pt_ok_nonnull [OF Suc.prems(1)]
      unfolding get_pagetable_entry.simps walk.simps Let_def index_idx by simp
  next
    case False
    let ?c = "child m root (idx (Suc l) x)"
    have "get_pagetable_entry l E ?c x m = (if ?c = 0 then 0 else walk l E m ?c x)"
      using Suc False by (cases "?c = 0"; cases l) auto
    then show ?thesis using Suc.prems False
      by (simp add: index_idx child_def)
  qed
qed

end

text \<open>Updates below one root leave every table with other nodes alone.\<close>

lemma other_table:
  assumes "pt_ext l E root m m'" and "pt_ok l E m other" and "nset l E m root \<inter> nset l E m other = {}"
  shows "pt_ok l E m' other" and "walk l E m' other x = walk l E m other x"
    and "nset l E m' root \<inter> nset l E m' other = {}" and "nset l E m' other = nset l E m other"
proof -
  have sub: "nset l E m other \<subseteq> set (pt_nodes m)" by (rule nset_nodes [OF assms(2)])
  have keep: "\<forall>r \<in> nset l E m other. pt_entry m' r = pt_entry m r"
    using assms(1,3) sub unfolding pt_ext_def by blast
  have nodes: "set (pt_nodes m) \<subseteq> set (pt_nodes m')" using assms(1) by (simp add: pt_ext_def)
  show "pt_ok l E m' other" by (rule pt_frame(3) [OF keep assms(2) nodes])
  show "walk l E m' other x = walk l E m other x" by (rule pt_frame(2) [OF keep])
  show "nset l E m' other = nset l E m other" by (rule pt_frame(1) [OF keep])
  then show "nset l E m' root \<inter> nset l E m' other = {}"
    using assms(1,3) sub unfolding pt_ext_def by blast
qed

text \<open>The entry that the last matching request of a list leaves at an address.\<close>

definition entry_request :: "env \<Rightarrow> MapEntry \<Rightarrow> bool" where
  "entry_request E e \<longleftrightarrow> pt_request E (rstart (map_range e)) (rend (map_range e) - rstart (map_range e))"

definition last_mapping :: "env \<Rightarrow> bool \<Rightarrow> MapEntry list \<Rightarrow> u64 \<Rightarrow> u64 \<Rightarrow> u64" where
  "last_mapping E k es x w =
    fold (\<lambda>e w. if in_request (rstart (map_range e)) (rend (map_range e) - rstart (map_range e)) x
      then leaf_of E k NORMAL_TYPE (map_perm e) 3 x else w) es w"

lemma last_mapping_Cons: "last_mapping E k (e # es) x w = last_mapping E k es x
    (if in_request (rstart (map_range e)) (rend (map_range e) - rstart (map_range e)) x
      then leaf_of E k NORMAL_TYPE (map_perm e) 3 x else w)"
  by (simp add: last_mapping_def)

lemma last_mapping_append: "last_mapping E k (es @ fs) x w = last_mapping E k fs x (last_mapping E k es x w)"
  by (simp add: last_mapping_def)

lemma pt_room_Suc: "pt_room (Suc n) m \<Longrightarrow> pt_room 1 m"
  by (simp add: pt_room_def)

lemma pt_room_step:
  "pt_room (Suc n) m \<Longrightarrow> length (pt_nodes m') \<le> length (pt_nodes m) + nodes_bound 3 \<Longrightarrow> pt_room n m'"
  by (simp add: pt_room_def)

lemma fresh_root:
  assumes "pt_alloc E alloc" and "length (pt_nodes m) < 2 ^ 36" and "alloc_pagetable_node alloc m = (root, m1)"
  shows "pt_ok l E m1 root" and "walk l E m1 root x = 0" and "nset l E m1 root = {root}"
    and "root \<notin> set (pt_nodes m)" and "pt_nodes m1 = root # pt_nodes m"
    and "kernel_pagetable m1 = kernel_pagetable m"
    and "r \<in> set (pt_nodes m) \<Longrightarrow> pt_entry m1 r = pt_entry m r"
proof -
  have m1: "root = alloc (pt_nodes m)"
      "m1 = m\<lparr>pt_entry := (pt_entry m)(root := (\<lambda>_. 0)), pt_nodes := root # pt_nodes m\<rparr>"
    using assms(3) by (auto simp: alloc_pagetable_node_def Let_def)
  have n: "root \<noteq> 0" "root \<notin> set (pt_nodes m)"
    using pt_alloc.alloc_nonnull [OF assms(1,2)] pt_alloc.alloc_fresh [OF assms(1,2)] m1(1) by simp_all
  have "root \<in> set (pt_nodes m1)" "pt_entry m1 root = (\<lambda>_. 0)" by (simp_all add: m1(2))
  from zero_node [OF this(1) n(1) this(2)]
  show "pt_ok l E m1 root" "walk l E m1 root x = 0" "nset l E m1 root = {root}" by blast+
  show "root \<notin> set (pt_nodes m)" by (rule n(2))
  show "pt_nodes m1 = root # pt_nodes m" "kernel_pagetable m1 = kernel_pagetable m" by (simp_all add: m1(2))
  show "r \<in> set (pt_nodes m) \<Longrightarrow> pt_entry m1 r = pt_entry m r" using n(2) by (auto simp: m1(2))
qed

context pt_alloc
begin

lemma leaf_type3: "leaf_of E k type perm 3 = leaf_of E k NORMAL_TYPE perm 3"
  using lowest_le by (intro ext) (simp add: leaf_of_def)

lemma compartment_map_spec:
  assumes "list_all (entry_request E) es" and "pt_ok 3 E m root" and "pt_room (length es) m"
  shows "\<exists>m'. compartment_initializer_from_map E alloc root es m = Some m' \<and> pt_ext 3 E root m m' \<and>
    length (pt_nodes m') \<le> length (pt_nodes m) + length es * nodes_bound 3 \<and>
    (\<forall>x. unat x < 2 ^ 48 \<longrightarrow> walk 3 E m' root x = last_mapping E False es x (walk 3 E m root x))"
  using assms
proof (induction es arbitrary: m)
  case Nil
  then show ?case using pt_ext_refl [OF Nil(2)] by (simp add: last_mapping_def)
next
  case (Cons e es)
  let ?b = "rstart (map_range e)" and ?s = "rend (map_range e) - rstart (map_range e)"
  have req: "pt_request E ?b ?s" and room: "pt_room (Suc (length es)) m"
    using Cons.prems(1,3) by (simp_all add: entry_request_def)
  obtain m1 where m1: "add_to_pagetable PML4_LEVEL E alloc False root ?b ?s (map_perm e) PERSISTENT_TYPE m = Some m1"
      "length (pt_nodes m1) \<le> length (pt_nodes m) + nodes_bound 3" "pt_ext 3 E root m m1"
      "\<forall>x. unat x < 2 ^ 48 \<longrightarrow> walk 3 E m1 root x =
        (if in_request ?b ?s x then leaf_of E False PERSISTENT_TYPE (map_perm e) 3 x else walk 3 E m root x)"
    using add_top [OF req Cons.prems(2) pt_room_Suc [OF room]] by blast
  have es: "list_all (entry_request E) es" using Cons.prems(1) by simp
  obtain m2 where m2: "compartment_initializer_from_map E alloc root es m1 = Some m2" "pt_ext 3 E root m1 m2"
      "length (pt_nodes m2) \<le> length (pt_nodes m1) + length es * nodes_bound 3"
      "\<forall>x. unat x < 2 ^ 48 \<longrightarrow> walk 3 E m2 root x = last_mapping E False es x (walk 3 E m1 root x)"
    using Cons.IH [OF es pt_ext_ok [OF m1(3)] pt_room_step [OF room m1(2)]] by blast
  have "length (pt_nodes m2) \<le> length (pt_nodes m) + length (e # es) * nodes_bound 3"
    using m1(2) m2(3) by simp
  then show ?case using m1 m2 pt_ext_trans [OF m1(3) m2(2)]
    by (simp add: last_mapping_Cons leaf_type3 [of False PERSISTENT_TYPE])
qed

lemma kernel_map_spec:
  assumes "list_all (entry_request E) es" and "pt_ok 3 E m (kernel_pagetable m)" and "pt_room (length es) m"
  shows "\<exists>m'. kernel_initializer_from_map E alloc es m = Some (Inr m') \<and>
    pt_ext 3 E (kernel_pagetable m) m m' \<and>
    (\<forall>x. unat x < 2 ^ 48 \<longrightarrow> walk 3 E m' (kernel_pagetable m) x =
      last_mapping E True es x (walk 3 E m (kernel_pagetable m) x))"
  using assms
proof (induction es arbitrary: m)
  case Nil
  then show ?case using pt_ext_refl [OF Nil(2)] by (simp add: last_mapping_def)
next
  case (Cons e es)
  let ?b = "rstart (map_range e)" and ?s = "rend (map_range e) - rstart (map_range e)" and ?r = "kernel_pagetable m"
  have req: "pt_request E ?b ?s" and room: "pt_room (Suc (length es)) m"
    using Cons.prems(1,3) by (simp_all add: entry_request_def)
  obtain m1 where m1: "add_to_pagetable PML4_LEVEL E alloc True ?r ?b ?s (map_perm e) NORMAL_TYPE m = Some m1"
      "length (pt_nodes m1) \<le> length (pt_nodes m) + nodes_bound 3" "pt_ext 3 E ?r m m1"
      "\<forall>x. unat x < 2 ^ 48 \<longrightarrow> walk 3 E m1 ?r x =
        (if in_request ?b ?s x then leaf_of E True NORMAL_TYPE (map_perm e) 3 x else walk 3 E m ?r x)"
    using add_top [OF req Cons.prems(2) pt_room_Suc [OF room]] by blast
  have es: "list_all (entry_request E) es" and k: "kernel_pagetable m1 = ?r"
    using Cons.prems(1) m1(3) by (simp_all add: pt_ext_def)
  have ok1: "pt_ok 3 E m1 (kernel_pagetable m1)" using pt_ext_ok [OF m1(3)] k by simp
  obtain m2 where m2: "kernel_initializer_from_map E alloc es m1 = Some (Inr m2)" "pt_ext 3 E ?r m1 m2"
      "\<forall>x. unat x < 2 ^ 48 \<longrightarrow> walk 3 E m2 ?r x = last_mapping E True es x (walk 3 E m1 ?r x)"
    using Cons.IH [OF es ok1 pt_room_step [OF room m1(2)]] unfolding k by blast
  have "add_to_kernel_pagetable E alloc ?b ?s (map_perm e) m = Some (Inr m1)"
    using req m1(1) by (simp add: add_to_kernel_pagetable_def pt_request_def)
  then show ?case using m1 m2 pt_ext_trans [OF m1(3) m2(2)] by (simp add: last_mapping_Cons)
qed

end

definition user_writable :: "u64 \<Rightarrow> bool" where
  "user_writable e \<longleftrightarrow> (e AND (PTE_USER OR PTE_WRITABLE)) = (PTE_USER OR PTE_WRITABLE)"

lemma leaf_not_user_writable:
  assumes "snmalloc_env E" and "perm \<noteq> PT_COMPARTMENT_WRITE"
  shows "\<not> user_writable (leaf_of E False type perm l x)"
proof -
  let ?a = "word_of_nat (down_to (unat (PAGE_SIZE E)) (unat x)) :: u64"
  have "down_to (unat (PAGE_SIZE E)) (unat x) < 2 ^ 64"
    using le_less_trans [OF down_to_le unat_lt64] by simp
  then have "unat ?a = down_to (unat (PAGE_SIZE E)) (unat x)" by (rule unat_of_nat64)
  moreover have "8 dvd unat (PAGE_SIZE E)" using snmalloc_env.page_size [OF assms(1)] by auto
  ultimately have "unat (8 :: u64) dvd unat ?a" by (simp add: dvd_trans [OF _ down_to_dvd])
  moreover have "pow2 8" by (rule pow2I [of 3]) simp_all
  ultimately have "?a AND (8 - 1) = 0" using and_pow2_minus_1 by blast
  then have a: "?a AND 6 = 0"
  proof -
    assume z: "?a AND (8 - 1) = 0"
    have "?a AND 6 = (?a AND (8 - 1)) AND 6" by (simp add: and.assoc)
    then show ?thesis using z by simp
  qed
  define c where "c = pagetable_type_permissions (if l = PAGETABLE_LOWEST_LEVEL E then type else NORMAL_TYPE) OR
    (pagetable_leaf_permissions False perm OR pagetable_leaf_pagesize (PAGETABLE_LOWEST_LEVEL E))"
  have c: "leaf_of E False type perm l x = ?a OR c" "c AND 6 \<noteq> 6"
    using assms(2) by (simp_all add: leaf_of_def set_leaf_def c_def or.assoc)
      (cases perm; cases type; simp add: pagetable_leaf_pagesize_def pte_bits)
  show ?thesis
    unfolding user_writable_def c(1) pte_bits using c(2) a
    by (simp add: bit.conj_disj_distrib2)
qed

lemma last_mapping_not_user_writable:
  assumes "snmalloc_env E" and "\<forall>e \<in> set es. map_perm e \<noteq> PT_COMPARTMENT_WRITE" and "\<not> user_writable w"
  shows "\<not> user_writable (last_mapping E False es x w)"
  using assms(2,3)
proof (induction es arbitrary: w)
  case Nil
  then show ?case by (simp add: last_mapping_def)
next
  case (Cons e es)
  then show ?case using leaf_not_user_writable [OF assms(1)] by (simp add: last_mapping_Cons)
qed

text \<open>Small tables on which the theorems are instantiated.\<close>

definition sample_pt :: pt_mem where
  "sample_pt = \<lparr>pt_entry = (\<lambda>_ _. 0), pt_nodes = [0x1000, 0x2000], kernel_pagetable = 0x1000\<rparr>"

definition sample_layout :: kernel_layout where
  "sample_layout = \<lparr>elf_start = 0x2000, elf_writable_start = 0x4000, heap_start_sym = 0x5010,
     local_apic_mapping = 0xfee00000, io_shared_range = mk_span 0x100000 0x2000,
     interrupt_stack_map = [\<lparr>map_range = mk_range 0x5000 0x6000, map_perm = PT_FORCE_KERNEL_WRITE\<rparr>]\<rparr>"

definition persistent_pt :: pt_mem where
  "persistent_pt = \<lparr>pt_entry = (\<lambda>n i. if i = 0 \<and> n = 0x1000 then set_next_level False 0x2000 PERSISTENT_TYPE
        else if i = 0 \<and> n = 0x2000 then set_next_level False 0x3000 NORMAL_TYPE else 0),
     pt_nodes = [0x1000, 0x2000, 0x3000], kernel_pagetable = 0\<rparr>"

lemma sample_ok:
  "pt_ok 3 (rounding_env 4096) sample_pt 0x1000" "pt_ok 3 (rounding_env 4096) sample_pt 0x2000"
  by (rule zero_node(1); simp add: sample_pt_def)+

lemma sample_walk:
  "walk 3 (rounding_env 4096) sample_pt 0x1000 x = 0" "walk 3 (rounding_env 4096) sample_pt 0x2000 x = 0"
  by (rule zero_node(3); simp add: sample_pt_def)+

lemma sample_disjoint:
  "nset 3 (rounding_env 4096) sample_pt 0x2000 \<inter> nset 3 (rounding_env 4096) sample_pt 0x1000 = {}"
  by (subst (1 2) zero_node(2)) (simp_all add: sample_pt_def)

lemma sample_kernel: "kernel_pagetable sample_pt = 0x1000"
  by (simp add: sample_pt_def)

lemma sample_request: "pt_request (rounding_env 4096) 0x700000 0x2000"
  by (simp add: pt_request_def)

lemma sample_room: "pt_room 1 sample_pt"
  by (simp add: pt_room_def sample_pt_def numeral_3_eq_3)

lemma sample_leaf:
  "leaf_of (rounding_env 4096) False NORMAL_TYPE PT_COMPARTMENT_WRITE 3 0x701234 = 0x701007"
  by (simp add: leaf_of_def set_leaf_def PAGETABLE_LOWEST_LEVEL_def PT_LEVEL_def pagetable_leaf_pagesize_def
      pte_bits down_to_def)

text \<open>C4. An aligned request below 2^48 always succeeds, keeps the table a tree, and afterwards the
  hardware walk gives the new leaf exactly inside the requested range and the old entry
  everywhere else.\<close>
theorem add_to_compartment_pagetable_exact:
  assumes "pt_alloc E alloc" and "pt_request E base sz" and "pt_ok 3 E m root" and "pt_room 1 m"
  shows "\<exists>m'. add_to_compartment_pagetable E alloc root base sz perm m = Some (Inr m') \<and>
    pt_ok 3 E m' root \<and>
    (\<forall>x. unat x < 2 ^ 48 \<longrightarrow> walk 3 E m' root x =
      (if in_request base sz x then leaf_of E False NORMAL_TYPE perm 3 x else walk 3 E m root x))"
proof -
  obtain m' where m': "add_to_pagetable PML4_LEVEL E alloc False root base sz perm NORMAL_TYPE m = Some m'"
      "pt_ext 3 E root m m'"
      "\<forall>x. unat x < 2 ^ 48 \<longrightarrow> walk 3 E m' root x =
        (if in_request base sz x then leaf_of E False NORMAL_TYPE perm 3 x else walk 3 E m root x)"
    using pt_alloc.add_top [OF assms] by blast
  then show ?thesis using assms(2) pt_ext_ok [OF m'(2)]
    by (intro exI [of _ m']) (simp add: add_to_compartment_pagetable_def pt_request_def)
qed

theorem add_to_compartment_pagetable_exact_witness:
  "\<exists>m'. add_to_compartment_pagetable (rounding_env 4096) first_free_node 0x2000 0x700000 0x2000
      PT_COMPARTMENT_WRITE sample_pt = Some (Inr m') \<and>
    walk 3 (rounding_env 4096) m' 0x2000 0x701234 = 0x701007 \<and>
    walk 3 (rounding_env 4096) m' 0x2000 0x702000 = 0"
  using add_to_compartment_pagetable_exact [OF free_small.pt_alloc_axioms sample_request sample_ok(2) sample_room,
      of PT_COMPARTMENT_WRITE] sample_walk(2)
  by (auto simp: in_request_def sample_leaf)

text \<open>C5. Unmapping an aligned range below 2^48 always succeeds and makes exactly that range absent.\<close>
theorem remove_from_compartment_pagetable_exact:
  assumes "snmalloc_env E" and "pt_request E base sz" and "pt_ok 3 E m root" and "root \<noteq> kernel_pagetable m"
  shows "\<exists>m'. remove_from_compartment_pagetable E root base sz m = Some (Inr m') \<and> pt_ok 3 E m' root \<and>
    (\<forall>x. unat x < 2 ^ 48 \<longrightarrow> walk 3 E m' root x = (if in_request base sz x then 0 else walk 3 E m root x))"
proof -
  obtain m' where m': "remove_from_pagetable PML4_LEVEL E root base sz m = Some m'" "pt_ext 3 E root m m'"
      "\<forall>x. unat x < 2 ^ 48 \<longrightarrow> walk 3 E m' root x = (if in_request base sz x then 0 else walk 3 E m root x)"
    using snmalloc_env.remove_top [OF assms(1-3)] by blast
  then show ?thesis using assms(2,4) pt_ext_ok [OF m'(2)]
    by (intro exI [of _ m']) (simp add: remove_from_compartment_pagetable_def pt_request_def)
qed

theorem remove_from_compartment_pagetable_exact_witness:
  "\<exists>m'. remove_from_compartment_pagetable (rounding_env 4096) 0x2000 0x700000 0x2000 sample_pt = Some (Inr m') \<and>
    walk 3 (rounding_env 4096) m' 0x2000 0x701234 = 0"
  using remove_from_compartment_pagetable_exact [OF small_pages.snmalloc_env_axioms sample_request sample_ok(2)]
  by (auto simp: in_request_def sample_pt_def)

text \<open>Mapping into one compartment's table changes no translation of a table that shares no node
  with it (another compartment's or the kernel's), and the two stay disjoint.\<close>
theorem compartment_tables_isolated:
  assumes "pt_alloc E alloc" and "pt_request E base sz" and "pt_ok 3 E m root" and "pt_room 1 m"
    and "pt_ok 3 E m other" and "nset 3 E m root \<inter> nset 3 E m other = {}"
    and "add_to_compartment_pagetable E alloc root base sz perm m = Some (Inr m')"
  shows "pt_ok 3 E m' other \<and> walk 3 E m' other x = walk 3 E m other x \<and>
    nset 3 E m' root \<inter> nset 3 E m' other = {}"
proof -
  obtain m2 where m2: "add_to_pagetable PML4_LEVEL E alloc False root base sz perm NORMAL_TYPE m = Some m2"
      "pt_ext 3 E root m m2"
    using pt_alloc.add_top [OF assms(1-4)] by blast
  then have "m' = m2" using assms(2,7) by (auto simp: add_to_compartment_pagetable_def pt_request_def)
  then show ?thesis using other_table [OF m2(2) assms(5,6)] by simp
qed

theorem compartment_tables_isolated_witness:
  "\<exists>m'. add_to_compartment_pagetable (rounding_env 4096) first_free_node 0x2000 0x700000 0x2000
      PT_COMPARTMENT_WRITE sample_pt = Some (Inr m') \<and>
    walk 3 (rounding_env 4096) m' 0x1000 0x700000 = walk 3 (rounding_env 4096) sample_pt 0x1000 0x700000"
proof -
  obtain m' where m': "add_to_compartment_pagetable (rounding_env 4096) first_free_node 0x2000 0x700000 0x2000
      PT_COMPARTMENT_WRITE sample_pt = Some (Inr m')"
    using free_small.add_top [OF sample_request sample_ok(2) sample_room, of False PT_COMPARTMENT_WRITE NORMAL_TYPE]
    by (auto simp: add_to_compartment_pagetable_def)
  from compartment_tables_isolated [OF free_small.pt_alloc_axioms sample_request sample_ok(2) sample_room
      sample_ok(1) sample_disjoint m', of "0x700000"] m'
  show ?thesis by blast
qed



text \<open>Creation of a compartment table, with its frame condition.\<close>

lemma create_compartment_spec:
  assumes "pt_alloc E alloc"
    and reqs: "list_all (entry_request E) (predefined_map E L @ interrupt_stack_map L)"
    and room: "pt_room (length (predefined_map E L @ interrupt_stack_map L) + 1) m"
  shows "\<exists>root m'. create_compartment_pagetable E alloc L m = Some (root, m') \<and> root \<notin> set (pt_nodes m) \<and>
    pt_ok 3 E m' root \<and> set (pt_nodes m) \<subseteq> set (pt_nodes m') \<and> kernel_pagetable m' = kernel_pagetable m \<and>
    nset 3 E m' root \<inter> set (pt_nodes m) = {} \<and> (\<forall>n \<in> set (pt_nodes m). pt_entry m' n = pt_entry m n) \<and>
    length (pt_nodes m') \<le> 1 + length (pt_nodes m) + (length (predefined_map E L) + length (interrupt_stack_map L)) * nodes_bound 3 \<and>
    (\<forall>x. unat x < 2 ^ 48 \<longrightarrow>
      walk 3 E m' root x = last_mapping E False (predefined_map E L @ interrupt_stack_map L) x 0)"
proof -
  let ?P = "predefined_map E L" and ?I = "interrupt_stack_map L"
  obtain root m1 where al: "alloc_pagetable_node alloc m = (root, m1)" by (rule prod.exhaust)
  have lt: "length (pt_nodes m) < 2 ^ 36" and b: "1 \<le> nodes_bound 3"
    using room by (simp_all add: pt_room_def numeral_3_eq_3)
  note fr = fresh_root [OF assms(1) lt al]
  have room1: "pt_room (length ?P + length ?I) m1"
    using room b by (simp add: pt_room_def fr(5))
  then have roomP: "pt_room (length ?P) m1" by (simp add: pt_room_def add_mult_distrib)
  have r1: "list_all (entry_request E) ?P" "list_all (entry_request E) ?I" using reqs by simp_all
  obtain m2 where m2: "compartment_initializer_from_map E alloc root ?P m1 = Some m2" "pt_ext 3 E root m1 m2"
      "length (pt_nodes m2) \<le> length (pt_nodes m1) + length ?P * nodes_bound 3"
      "\<forall>x. unat x < 2 ^ 48 \<longrightarrow> walk 3 E m2 root x = last_mapping E False ?P x (walk 3 E m1 root x)"
    using pt_alloc.compartment_map_spec [OF assms(1) r1(1) fr(1) roomP] by blast
  have roomI: "pt_room (length ?I) m2" using room1 m2(3) by (simp add: pt_room_def add_mult_distrib)
  obtain m3 where m3: "compartment_initializer_from_map E alloc root ?I m2 = Some m3" "pt_ext 3 E root m2 m3"
      "length (pt_nodes m3) \<le> length (pt_nodes m2) + length ?I * nodes_bound 3"
      "\<forall>x. unat x < 2 ^ 48 \<longrightarrow> walk 3 E m3 root x = last_mapping E False ?I x (walk 3 E m2 root x)"
    using pt_alloc.compartment_map_spec [OF assms(1) r1(2) pt_ext_ok [OF m2(2)] roomI] by blast
  have w: "walk 3 E m3 root x = last_mapping E False (?P @ ?I) x 0" if "unat x < 2 ^ 48" for x
    using m2(4) m3(4) that fr(2) by (simp add: last_mapping_append)
  have len: "length (pt_nodes m3) \<le> 1 + length (pt_nodes m) + (length ?P + length ?I) * nodes_bound 3"
    using m2(3) m3(3) fr(5) by (simp add: add_mult_distrib)
  have e: "pt_ext 3 E root m1 m3" by (rule pt_ext_trans [OF m2(2) m3(2)])
  have "nset 3 E m3 root \<inter> set (pt_nodes m) = {}" "\<forall>n \<in> set (pt_nodes m). pt_entry m3 n = pt_entry m n"
    using e fr(3,4,5,7) unfolding pt_ext_def by auto
  then show ?thesis
    using al m2(1) m3(1) fr(4,5,6) pt_ext_ok [OF m3(2)] w e len
    by (intro exI [of _ root] exI [of _ m3]) (simp add: create_compartment_pagetable_def pt_ext_def)
qed

lemma create_map_not_writable:
  assumes "snmalloc_env E" and "\<forall>e \<in> set (interrupt_stack_map L). map_perm e \<noteq> PT_COMPARTMENT_WRITE"
  shows "\<not> user_writable (last_mapping E False (predefined_map E L @ interrupt_stack_map L) x 0)"
  by (rule last_mapping_not_user_writable [OF assms(1)])
    (use assms(2) in \<open>auto simp: predefined_map_def user_writable_def pte_bits\<close>)

text \<open>C11. A new compartment table is created without touching other tables, translates every address
  as its last matching map entry says, and has no page that user mode can write.\<close>
theorem create_compartment_pagetable_protected:
  assumes "pt_alloc E alloc"
    and reqs: "list_all (entry_request E) (predefined_map E L @ interrupt_stack_map L)"
    and perms: "\<forall>e \<in> set (interrupt_stack_map L). map_perm e \<noteq> PT_COMPARTMENT_WRITE"
    and room: "pt_room (length (predefined_map E L @ interrupt_stack_map L) + 1) m"
  shows "\<exists>root m'. create_compartment_pagetable E alloc L m = Some (root, m') \<and> root \<notin> set (pt_nodes m) \<and>
    pt_ok 3 E m' root \<and> (\<forall>n \<in> set (pt_nodes m). pt_entry m' n = pt_entry m n) \<and>
    (\<forall>x. unat x < 2 ^ 48 \<longrightarrow>
      walk 3 E m' root x = last_mapping E False (predefined_map E L @ interrupt_stack_map L) x 0 \<and>
      \<not> user_writable (walk 3 E m' root x))"
proof -
  have "snmalloc_env E" using assms(1) by (simp add: pt_alloc_def)
  note nw = create_map_not_writable [OF this perms]
  show ?thesis using create_compartment_spec [OF assms(1) reqs room] nw by metis
qed

theorem create_compartment_pagetable_protected_witness:
  "\<exists>root m'. create_compartment_pagetable (rounding_env 4096) first_free_node sample_layout sample_pt = Some (root, m') \<and>
    \<not> user_writable (walk 3 (rounding_env 4096) m' root 0x4000)"
proof -
  let ?reqs = "predefined_map (rounding_env 4096) sample_layout @ interrupt_stack_map sample_layout"
  have "list_all (entry_request (rounding_env 4096)) ?reqs" "pt_room (length ?reqs + 1) sample_pt"
    "\<forall>e \<in> set (interrupt_stack_map sample_layout). map_perm e \<noteq> PT_COMPARTMENT_WRITE"
    by (simp_all add: sample_layout_def sample_pt_def predefined_map_def entry_request_def pt_request_def
        align_up_end_def Let_def pt_room_def numeral_3_eq_3)
  from create_compartment_pagetable_protected [OF free_small.pt_alloc_axioms this(1,3,2)]
  obtain root m' where r: "create_compartment_pagetable (rounding_env 4096) first_free_node sample_layout sample_pt = Some (root, m')"
      "\<forall>x. unat x < 2 ^ 48 \<longrightarrow> \<not> user_writable (walk 3 (rounding_env 4096) m' root x)" by blast
  then show ?thesis by (intro exI [of _ root] exI [of _ m']) simp
qed

text \<open>C10. The kernel table is created for every aligned layout, and the kernel lookup then returns for
  each address the leaf of the last request that covers it, and nothing elsewhere.\<close>
theorem create_kernel_page_table_exact:
  assumes "pt_alloc E alloc" and reqs: "list_all (entry_request E) (kernel_requests E L h)"
    and room: "pt_room (length (kernel_requests E L h) + 1) m"
  shows "\<exists>m'. create_kernel_page_table E alloc L h m = Some (Inr m') \<and>
    pt_ok 3 E m' (kernel_pagetable m') \<and>
    (\<forall>x. unat x < 2 ^ 48 \<longrightarrow>
      get_kernel_pagetable_entry E x m' = last_mapping E True (kernel_requests E L h) x 0)"
proof -
  obtain root m1 where al: "alloc_pagetable_node alloc m = (root, m1)" by (rule prod.exhaust)
  have lt: "length (pt_nodes m) < 2 ^ 36" and b: "1 \<le> nodes_bound 3"
    using room by (simp_all add: pt_room_def numeral_3_eq_3)
  note fr = fresh_root [OF assms(1) lt al]
  let ?m = "m1\<lparr>kernel_pagetable := root\<rparr>"
  have same: "pt_entry ?m r = pt_entry m1 r" "pt_nodes ?m = pt_nodes m1" for r by simp_all
  have ok: "pt_ok 3 E ?m (kernel_pagetable ?m)" and w0: "walk 3 E ?m root x = 0" for x
    using pt_frame(3) [where m'="?m", OF _ fr(1)] pt_frame(2) [where m'="?m" and m=m1 and l=3] fr(2)
    by simp_all
  have "pt_room (length (kernel_requests E L h)) ?m" using room b by (simp add: pt_room_def fr(5))
  from pt_alloc.kernel_map_spec [OF assms(1,2) ok this] obtain m' where
    m': "kernel_initializer_from_map E alloc (kernel_requests E L h) ?m = Some (Inr m')" "pt_ext 3 E root ?m m'"
      "\<forall>x. unat x < 2 ^ 48 \<longrightarrow> walk 3 E m' root x = last_mapping E True (kernel_requests E L h) x (walk 3 E ?m root x)"
    by auto
  have k: "kernel_pagetable m' = root" using m'(2) by (simp add: pt_ext_def)
  have env: "snmalloc_env E" using assms(1) by (simp add: pt_alloc_def)
  have low: "PAGETABLE_LOWEST_LEVEL E \<le> 3" using snmalloc_env.lowest_le [OF env] by simp
  have "get_kernel_pagetable_entry E x m' = walk 3 E m' root x" for x
    using snmalloc_env.get_entry_walk [OF env pt_ext_ok [OF m'(2)] low]
    by (simp add: get_kernel_pagetable_entry_def PML4_LEVEL_def k)
  then show ?thesis
    using al m' pt_ext_ok [OF m'(2)] k w0 by (intro exI [of _ m']) (simp add: create_kernel_page_table_def)
qed

theorem create_kernel_page_table_exact_witness:
  "\<exists>m'. create_kernel_page_table (rounding_env 4096) first_free_node sample_layout heap_init sample_pt = Some (Inr m') \<and>
    get_kernel_pagetable_entry (rounding_env 4096) 0x4000 m' =
      last_mapping (rounding_env 4096) True (kernel_requests (rounding_env 4096) sample_layout heap_init) 0x4000 0"
proof -
  let ?reqs = "kernel_requests (rounding_env 4096) sample_layout heap_init"
  have "list_all (entry_request (rounding_env 4096)) ?reqs" "pt_room (length ?reqs + 1) sample_pt"
    by (simp_all add: kernel_requests_def sample_layout_def sample_pt_def predefined_map_def entry_request_def
        pt_request_def align_up_end_def align_up_start_def Let_def pt_room_def numeral_3_eq_3 span_entry_def
        heap_init_def is_empty_range_def range_size_def)
  from create_kernel_page_table_exact [OF free_small.pt_alloc_axioms this]
  obtain m' where r: "create_kernel_page_table (rounding_env 4096) first_free_node sample_layout heap_init sample_pt = Some (Inr m')"
      "\<forall>x. unat x < 2 ^ 48 \<longrightarrow> get_kernel_pagetable_entry (rounding_env 4096) x m' =
        last_mapping (rounding_env 4096) True ?reqs x 0" by blast
  then show ?thesis by (intro exI [of _ m']) simp
qed

text \<open>Deallocation reads the entries it finds and only gives nodes back.\<close>

lemma fold_preserve: "(\<And>x s. x \<in> set xs \<Longrightarrow> P s \<Longrightarrow> P (f x s)) \<Longrightarrow> P s \<Longrightarrow> P (fold f xs s)"
  by (induction xs arbitrary: s) auto

lemma deallocate_entry: "pt_entry (deallocate_pagetable l E root m) = pt_entry m"
proof (induction l arbitrary: root m)
  case (Suc l)
  have "pt_entry (fold (\<lambda>index m. if is_persistent (pt_entry m root index) then m
          else let next_root = next_level (pt_entry m root index) in
            if next_root = 0 then m else deallocate_pagetable l E next_root m)
        [0..<unat pagetable_entry_count] m) = pt_entry m"
    by (rule fold_preserve [where P="\<lambda>s. pt_entry s = pt_entry m"]) (simp_all add: Let_def Suc)
  then show ?case by (simp add: pt_free_def)
qed (simp add: pt_free_def)

lemma deallocate_kernel: "kernel_pagetable (deallocate_pagetable l E root m) = kernel_pagetable m"
proof (induction l arbitrary: root m)
  case (Suc l)
  have "kernel_pagetable (fold (\<lambda>index m. if is_persistent (pt_entry m root index) then m
          else let next_root = next_level (pt_entry m root index) in
            if next_root = 0 then m else deallocate_pagetable l E next_root m)
        [0..<unat pagetable_entry_count] m) = kernel_pagetable m"
    by (rule fold_preserve [where P="\<lambda>s. kernel_pagetable s = kernel_pagetable m"]) (simp_all add: Let_def Suc)
  then show ?case by (simp add: pt_free_def)
qed (simp add: pt_free_def)

lemma nset_entry: "pt_entry m' = pt_entry m \<Longrightarrow> nset l E m' root = nset l E m root"
  by (rule pt_frame(1)) simp

lemma deallocate_keep:
  assumes "r \<in> set (pt_nodes m)" and "r \<notin> nset l E m root"
  shows "r \<in> set (pt_nodes (deallocate_pagetable l E root m))"
  using assms
proof (induction l arbitrary: root m)
  case 0
  then show ?case by (simp add: pt_free_def)
next
  case (Suc l)
  let ?f = "\<lambda>index m. if is_persistent (pt_entry m root index) then m
      else let next_root = next_level (pt_entry m root index) in
        if next_root = 0 then m else deallocate_pagetable l E next_root m"
  have rr: "r \<noteq> root" using Suc.prems(2) root_in_nset by blast
  show ?case
  proof (cases "Suc l = PAGETABLE_LOWEST_LEVEL E")
    case True
    then show ?thesis unfolding deallocate_pagetable.simps using Suc.prems(1) rr by (simp add: pt_free_def)
  next
    case False
    have "pt_entry s = pt_entry m \<and> r \<in> set (pt_nodes s) \<Longrightarrow> i \<in> set [0..<512] \<Longrightarrow>
        pt_entry (?f i s) = pt_entry m \<and> r \<in> set (pt_nodes (?f i s))" for i s
    proof -
      assume h: "pt_entry s = pt_entry m \<and> r \<in> set (pt_nodes s)" "i \<in> set [0..<512]"
      have "r \<notin> nset l E s (child m root i)" if "child m root i \<noteq> 0"
        using nset_child [OF False _ that] Suc.prems(2) h nset_entry [of s m] by auto
      then show ?thesis using h Suc.IH [of s] by (simp add: Let_def deallocate_entry child_def)
    qed
    then have "r \<in> set (pt_nodes (fold ?f [0..<512] m))"
      using fold_preserve [where P="\<lambda>s. pt_entry s = pt_entry m \<and> r \<in> set (pt_nodes s)" and f="?f" and s=m
          and xs="[0..<512]"] Suc.prems(1) by blast
    then show ?thesis unfolding deallocate_pagetable.simps entry_count_512
      using False rr by (simp add: pt_free_def)
  qed
qed

lemma deallocate_persistent_keep:
  assumes ok: "pt_ok (Suc l) E m root" and nl: "Suc l \<noteq> PAGETABLE_LOWEST_LEVEL E"
    and i: "i < 512" "is_persistent (pt_entry m root i)" "child m root i \<noteq> 0"
    and n: "n \<in> nset l E m (child m root i)"
  shows "n \<in> set (pt_nodes (deallocate_pagetable (Suc l) E root m))"
proof -
  let ?f = "\<lambda>index m. if is_persistent (pt_entry m root index) then m
      else let next_root = next_level (pt_entry m root index) in
        if next_root = 0 then m else deallocate_pagetable l E next_root m"
  have oki: "pt_ok l E m (child m root i)" and rn: "n \<noteq> root" using ok nl i n by auto
  have "pt_entry s = pt_entry m \<and> n \<in> set (pt_nodes s) \<Longrightarrow> j \<in> set [0..<512] \<Longrightarrow>
      pt_entry (?f j s) = pt_entry m \<and> n \<in> set (pt_nodes (?f j s))" for j s
  proof -
    assume h: "pt_entry s = pt_entry m \<and> n \<in> set (pt_nodes s)" "j \<in> set [0..<512]"
    have "n \<notin> nset l E s (child m root j)" if "child m root j \<noteq> 0" "j \<noteq> i"
    proof -
      have "nset l E m (child m root i) \<inter> nset l E m (child m root j) = {}" using ok nl i that h(2) by auto
      then show ?thesis using n h(1) nset_entry [of s m] by auto
    qed
    then show ?thesis using h i deallocate_keep [of n s] by (auto simp: Let_def deallocate_entry child_def)
  qed
  then have "n \<in> set (pt_nodes (fold ?f [0..<512] m))"
    using fold_preserve [where P="\<lambda>s. pt_entry s = pt_entry m \<and> n \<in> set (pt_nodes s)" and f="?f" and s=m
        and xs="[0..<512]"] nset_nodes [OF oki] n by blast
  then show ?thesis unfolding deallocate_pagetable.simps entry_count_512 using nl rn by (simp add: pt_free_def)
qed

text \<open>Deallocating a compartment table gives back no node below a persistent PML4 entry: the nodes
  that creation allocated for the predefined map stay allocated.\<close>
theorem deallocate_leaks_persistent:
  assumes "snmalloc_env E" and "pt_ok 3 E m root" and "i < 512" and "is_persistent (pt_entry m root i)"
    and "child m root i \<noteq> 0" and "n \<in> nset 2 E m (child m root i)"
  shows "n \<in> set (pt_nodes (deallocate_compartment_pagetable E root m))"
proof -
  have three: "(3::nat) = Suc 2" by simp
  have "Suc 2 \<noteq> PAGETABLE_LOWEST_LEVEL E" using snmalloc_env.lowest_le [OF assms(1)] by simp
  from deallocate_persistent_keep [OF assms(2) [unfolded three] this assms(3-6)]
  show ?thesis unfolding deallocate_compartment_pagetable_def PML4_LEVEL_def three .
qed

theorem deallocate_leaks_persistent_witness:
  "0x3000 \<in> set (pt_nodes (deallocate_compartment_pagetable (rounding_env 2097152) 0x1000 persistent_pt))"
proof -
  let ?E = "rounding_env 2097152"
  have c: "child persistent_pt 0x1000 i = (if i = 0 then 0x2000 else 0)"
    "child persistent_pt 0x2000 i = (if i = 0 then 0x3000 else 0)" for i
    by (simp_all add: child_def persistent_pt_def set_next_level_def next_level_def ADDRESS_MASK_def
        PERMISSION_MASK_def pagetable_intermediate_permissions_def pte_bits)
  have e: "\<not> is_large_mapping (pt_entry persistent_pt 0x1000 i)" "\<not> is_large_mapping (pt_entry persistent_pt 0x2000 i)" for i
    by (simp_all add: persistent_pt_def set_next_level_def is_large_mapping_def
        pagetable_intermediate_permissions_def pte_bits)
  have low: "PAGETABLE_LOWEST_LEVEL ?E = Suc 0" by (simp add: PAGETABLE_LOWEST_LEVEL_def PD_LEVEL_def)
  have nodes: "pt_nodes persistent_pt = [0x1000, 0x2000, 0x3000]" by (simp add: persistent_pt_def)
  have ns1: "nset (Suc 0) ?E persistent_pt 0x3000 = {0x3000}" by (simp add: low)
  have ns2: "nset (Suc (Suc 0)) ?E persistent_pt 0x2000 = {0x2000, 0x3000}"
    by (subst nset.simps) (auto simp: low c split: if_splits)
  have ok1: "pt_ok (Suc 0) ?E persistent_pt 0x3000" by (simp add: low nodes)
  have ok2: "pt_ok (Suc (Suc 0)) ?E persistent_pt 0x2000"
    by (subst pt_ok.simps) (auto simp: low c e nodes ns1 ok1 simp del: nset.simps pt_ok.simps)
  have "pt_ok (Suc (Suc (Suc 0))) ?E persistent_pt 0x1000"
    by (subst pt_ok.simps) (auto simp: low c e nodes ns2 ok2 simp del: nset.simps pt_ok.simps)
  then have "pt_ok 3 ?E persistent_pt 0x1000" unfolding numeral_3_eq_3 .
  moreover have ns: "nset 2 ?E persistent_pt 0x2000 = {0x2000, 0x3000}" unfolding numeral_2_eq_2 by (rule ns2)
  moreover have "is_persistent (pt_entry persistent_pt 0x1000 0)"
    by (simp add: persistent_pt_def set_next_level_def is_persistent_def pagetable_intermediate_permissions_def pte_bits)
  ultimately show ?thesis
    using deallocate_leaks_persistent [OF large_pages.snmalloc_env_axioms, of persistent_pt "0x1000" 0 "0x3000"] ns
    by (simp add: c)
qed

end
