(* ===== verification/Ownership.thy ===== *)
theory Ownership
  imports Page_Table_Properties
begin

unbundle bit_operations_syntax

text \<open>
  Compartment ownership of heap memory: the pagemap of owners, the cyclic doubly
  linked list of the chunks of a compartment, and the owner checks
  (\<open>MonzaCompartmentOwnership\<close> of \<open>include/public/snmalloc/snmalloc.h\<close>, the owner and
  thread control block of \<open>include/public/tcb.h\<close>).  The list lives in a store of
  next and prev links as in the code; its lemmas refine it to a HOL list.  The
  flat pagemap is snmalloc's: a parameter \<open>slot\<close> from addresses to entries with
  its laws in the locale \<open>flat_pagemap\<close>.
\<close>

text \<open>\<open>CompartmentOwner\<close> is an opaque identifier; 0 is the null owner.\<close>

type_synonym CompartmentOwner = u64

definition null_owner :: CompartmentOwner where
  "null_owner = 0"

record TCB =
  self_ptr :: u64
  stack_limit_low :: u64
  stack_limit_high :: u64
  tcb_compartment :: CompartmentOwner

definition is_compartment :: "TCB option \<Rightarrow> bool" where
  "is_compartment tcb = (case tcb of None \<Rightarrow> False | Some t \<Rightarrow> tcb_compartment t \<noteq> null_owner)"

definition matches_compartment :: "CompartmentOwner \<Rightarrow> TCB option \<Rightarrow> bool" where
  "matches_compartment compartment tcb =
    (case tcb of None \<Rightarrow> False | Some t \<Rightarrow> tcb_compartment t = compartment)"

definition MIN_OWNERSHIP_SIZE :: "env \<Rightarrow> u64" where
  "MIN_OWNERSHIP_SIZE E = max (PAGE_SIZE E) (MIN_CHUNK_SIZE E)"

text \<open>List nodes: the heads (one per compartment allocator) and the pagemap entries.\<close>

datatype list_node = Head nat | Entry nat

record ownership =
  link_next :: "list_node \<Rightarrow> list_node option"
  link_prev :: "list_node \<Rightarrow> list_node option"
  entry_owner :: "nat \<Rightarrow> CompartmentOwner"

definition ownership_init :: ownership where
  "ownership_init = \<lparr>link_next = (\<lambda>_. None), link_prev = (\<lambda>_. None), entry_owner = (\<lambda>_. null_owner)\<rparr>"

definition entry_remove :: "nat \<Rightarrow> ownership \<Rightarrow> ownership" where
  "entry_remove e s =
    (case link_next s (Entry e) of None \<Rightarrow> s
     | Some n \<Rightarrow>
        (case link_prev s (Entry e) of None \<Rightarrow> s
         | Some p \<Rightarrow> s\<lparr>link_prev := (link_prev s)(n := Some p), link_next := (link_next s)(p := Some n)\<rparr>))"

definition clear_owner :: "nat \<Rightarrow> ownership \<Rightarrow> ownership" where
  "clear_owner e s = s\<lparr>entry_owner := (entry_owner s)(e := null_owner)\<rparr>"

definition lazy_init :: "nat \<Rightarrow> ownership \<Rightarrow> ownership" where
  "lazy_init h s =
    (if link_next s (Head h) = None then
       s\<lparr>link_next := (link_next s)(Head h := Some (Head h)), link_prev := (link_prev s)(Head h := Some (Head h))\<rparr>
     else s)"

definition head_add :: "nat \<Rightarrow> nat \<Rightarrow> ownership \<Rightarrow> ownership" where
  "head_add h e s =
    (let s1 = lazy_init h s;
         old = link_next s1 (Head h);
         s2 = s1\<lparr>link_prev := (link_prev s1)(Entry e := Some (Head h)),
                link_next := (link_next s1)(Entry e := old)\<rparr> in
     case old of None \<Rightarrow> s2
     | Some n \<Rightarrow> s2\<lparr>link_prev := (link_prev s2)(n := Some (Entry e)),
                   link_next := (link_next s2)(Head h := Some (Entry e))\<rparr>)"

text \<open>
  The traversal of \<open>forall\<close> over a state that contains the links: the next link is read
  before the callback runs.  Following a null link, or a link to another head, is undefined.
\<close>

partial_function (option) list_walk ::
  "('s \<Rightarrow> ownership) \<Rightarrow> (nat \<Rightarrow> 's \<Rightarrow> 's result option) \<Rightarrow> nat \<Rightarrow> list_node option \<Rightarrow> 's \<Rightarrow> 's result option" where
  "list_walk own f h cur s =
    (if cur = Some (Head h) then Some (Inr s)
     else case cur of None \<Rightarrow> Some (Inl Undefined)
     | Some (Head _) \<Rightarrow> Some (Inl Undefined)
     | Some (Entry e) \<Rightarrow>
        Option.bind (f e s) (\<lambda>r. case r of Inl x \<Rightarrow> Some (Inl x)
          | Inr t \<Rightarrow> list_walk own f h (link_next (own s) (Entry e)) t))"

definition list_forall ::
  "('s \<Rightarrow> ownership) \<Rightarrow> ((ownership \<Rightarrow> ownership) \<Rightarrow> 's \<Rightarrow> 's) \<Rightarrow> (nat \<Rightarrow> 's \<Rightarrow> 's result option) \<Rightarrow> nat \<Rightarrow> 's \<Rightarrow> 's result option" where
  "list_forall own upd f h s =
    (let s1 = upd (lazy_init h) s in list_walk own f h (link_next (own s1) (Head h)) s1)"

definition get_monza_owner :: "(u64 \<Rightarrow> nat option) \<Rightarrow> u64 \<Rightarrow> ownership \<Rightarrow> CompartmentOwner" where
  "get_monza_owner slot p s = (case slot p of None \<Rightarrow> null_owner | Some e \<Rightarrow> entry_owner s e)"

definition add_monza_owner ::
  "env \<Rightarrow> (u64 \<Rightarrow> nat option) \<Rightarrow> u64 \<Rightarrow> u64 \<Rightarrow> CompartmentOwner \<Rightarrow> nat option \<Rightarrow> ownership \<Rightarrow> ownership result option" where
  "add_monza_owner E slot p sz owner list_head s =
    for_loop (\<lambda>a s.
        case slot a of None \<Rightarrow> Inl Undefined
        | Some e \<Rightarrow>
           if entry_owner s e \<noteq> null_owner then Inl KAbort
           else
             let s1 = s\<lparr>entry_owner := (entry_owner s)(e := owner)\<rparr> in
             Inr (case list_head of None \<Rightarrow> s1 | Some h \<Rightarrow> head_add h e s1))
      (\<lambda>a. a + MIN_OWNERSHIP_SIZE E) (p + sz) p s"

definition remove_monza_owner ::
  "env \<Rightarrow> (u64 \<Rightarrow> nat option) \<Rightarrow> u64 \<Rightarrow> u64 \<Rightarrow> CompartmentOwner \<Rightarrow> ownership \<Rightarrow> ownership result option" where
  "remove_monza_owner E slot p sz owner s =
    for_loop (\<lambda>a s.
        case slot a of None \<Rightarrow> Inl Undefined
        | Some e \<Rightarrow>
           if entry_owner s e \<noteq> owner then Inl KAbort
           else Inr (entry_remove e (clear_owner e s)))
      (\<lambda>a. a + MIN_OWNERSHIP_SIZE E) (p + sz) p s"

partial_function (option) validate_loop ::
  "env \<Rightarrow> (u64 \<Rightarrow> nat option) \<Rightarrow> CompartmentOwner \<Rightarrow> u64 \<Rightarrow> u64 \<Rightarrow> ownership \<Rightarrow> bool option" where
  "validate_loop E slot owner stop a s =
    (if a < stop then
       (if get_monza_owner slot a s \<noteq> owner then Some False
        else validate_loop E slot owner stop (a + MIN_OWNERSHIP_SIZE E) s)
     else Some True)"

definition validate_owner_range ::
  "env \<Rightarrow> (u64 \<Rightarrow> nat option) \<Rightarrow> CompartmentOwner \<Rightarrow> u64 \<Rightarrow> u64 \<Rightarrow> ownership \<Rightarrow> bool option" where
  "validate_owner_range E slot owner p sz s = validate_loop E slot owner (p + sz) p s"

definition validate_owner ::
  "env \<Rightarrow> (u64 \<Rightarrow> nat option) \<Rightarrow> CompartmentOwner \<Rightarrow> u64 \<Rightarrow> u64 \<Rightarrow> u64 \<Rightarrow> ownership \<Rightarrow> bool option" where
  "validate_owner E slot owner ptr elem_size count s =
    validate_owner_range E slot owner ptr (elem_size * count) s"

text \<open>What the code relies on of snmalloc's flat pagemap: one entry per ownership granule,
  for the heap below 2^48 only.\<close>

locale flat_pagemap = snmalloc_env +
  fixes slot :: "u64 \<Rightarrow> nat option" and slot_address :: "nat \<Rightarrow> u64"
  assumes slot_granule: "unat x div unat (MIN_OWNERSHIP_SIZE E) = unat y div unat (MIN_OWNERSHIP_SIZE E) \<Longrightarrow>
      slot x = slot y"
    and slot_inj: "slot x = Some e \<Longrightarrow> slot y = Some e \<Longrightarrow>
      unat x div unat (MIN_OWNERSHIP_SIZE E) = unat y div unat (MIN_OWNERSHIP_SIZE E)"
    and slot_address: "slot x = Some e \<Longrightarrow>
      unat (slot_address e) = down_to (unat (MIN_OWNERSHIP_SIZE E)) (unat x)"
    and slot_low: "slot x = Some e \<Longrightarrow> unat x < 2 ^ 48"

text \<open>The cyclic list as a HOL list of entries.\<close>

fun chain :: "ownership \<Rightarrow> list_node \<Rightarrow> list_node list \<Rightarrow> list_node \<Rightarrow> bool" where
  "chain s a [] b \<longleftrightarrow> link_next s a = Some b \<and> link_prev s b = Some a"
| "chain s a (x # xs) b \<longleftrightarrow> link_next s a = Some x \<and> link_prev s x = Some a \<and> chain s x xs b"

definition chunk_list :: "ownership \<Rightarrow> nat \<Rightarrow> nat list \<Rightarrow> bool" where
  "chunk_list s h es \<longleftrightarrow> distinct es \<and>
    (link_next s (Head h) = None \<and> es = [] \<or> chain s (Head h) (map Entry es) (Head h))"

lemma chain_append: "chain s a (xs @ x # ys) b \<longleftrightarrow> chain s a xs x \<and> chain s x ys b"
  by (induction xs arbitrary: a) auto

lemma chain_frame:
  assumes "\<forall>n \<in> insert a (set xs). link_next t n = link_next s n"
    and "\<forall>n \<in> insert b (set xs). link_prev t n = link_prev s n"
  shows "chain t a xs b = chain s a xs b"
  using assms by (induction xs arbitrary: a) auto

lemma chunk_list_frame:
  assumes "\<forall>n \<in> insert (Head h) (Entry ` set es). link_next t n = link_next s n \<and> link_prev t n = link_prev s n"
  shows "chunk_list t h es = chunk_list s h es"
proof -
  have "chain t (Head h) (map Entry es) (Head h) = chain s (Head h) (map Entry es) (Head h)"
    using assms by (intro chain_frame) auto
  then show ?thesis using assms by (simp add: chunk_list_def)
qed

lemma chunk_list_owner [simp]: "chunk_list (s\<lparr>entry_owner := f\<rparr>) h es = chunk_list s h es"
  by (rule chunk_list_frame) simp

lemma chain_next: "chain s a xs b \<Longrightarrow> link_next s a \<noteq> None"
  by (cases xs) auto

lemma chunk_list_lazy_init:
  assumes "chunk_list s h es"
  shows "chain (lazy_init h s) (Head h) (map Entry es) (Head h)" and "distinct es"
  using assms by (auto simp: chunk_list_def lazy_init_def dest: chain_next)

lemma lazy_init_other:
  assumes "h' \<noteq> h"
  shows "chunk_list (lazy_init h s) h' es = chunk_list s h' es"
  by (rule chunk_list_frame) (use assms in \<open>auto simp: lazy_init_def\<close>)

lemma head_add_list:
  assumes "chunk_list s h es" and "e \<notin> set es"
  shows "chunk_list (head_add h e s) h (e # es)"
proof (cases es)
  case Nil
  then show ?thesis using chunk_list_lazy_init [OF assms(1)]
    by (auto simp: head_add_def chunk_list_def Let_def)
next
  case (Cons x xs)
  note init = chunk_list_lazy_init [OF assms(1)]
  let ?s1 = "lazy_init h s" and ?t = "head_add h e s"
  have nx: "link_next ?s1 (Head h) = Some (Entry x)" and ch: "chain ?s1 (Entry x) (map Entry xs) (Head h)"
    using init(1) Cons by simp_all
  have "chain ?t (Entry x) (map Entry xs) (Head h) = chain ?s1 (Entry x) (map Entry xs) (Head h)"
    by (rule chain_frame) (use assms(2) init(2) Cons in \<open>auto simp: head_add_def Let_def nx\<close>)
  then show ?thesis using ch init(2) assms(2) Cons
    by (auto simp: chunk_list_def head_add_def Let_def nx)
qed

lemma head_add_other:
  assumes "chunk_list s h es" and "h' \<noteq> h" and "e \<notin> set es'" and "set es \<inter> set es' = {}"
  shows "chunk_list (head_add h e s) h' es' = chunk_list s h' es'"
proof -
  let ?s1 = "lazy_init h s"
  have "chain ?s1 (Head h) (map Entry es) (Head h)" by (rule chunk_list_lazy_init [OF assms(1)])
  then obtain n where n: "link_next ?s1 (Head h) = Some n" "n \<in> insert (Head h) (Entry ` set es)"
    by (cases es) auto
  have "chunk_list (head_add h e s) h' es' = chunk_list ?s1 h' es'"
    by (rule chunk_list_frame) (use n assms in \<open>auto simp: head_add_def Let_def\<close>)
  then show ?thesis using lazy_init_other [OF assms(2)] by simp
qed

lemma entry_remove_list:
  assumes "chunk_list s h (xs @ e # ys)"
  shows "chunk_list (entry_remove e s) h (xs @ ys)"
proof -
  have d: "distinct (xs @ e # ys)" and c: "chain s (Head h) (map Entry xs) (Entry e)"
      "chain s (Entry e) (map Entry ys) (Head h)"
    using assms by (auto simp: chunk_list_def chain_append)
  obtain n where n: "link_next s (Entry e) = Some n" "n = (case ys of [] \<Rightarrow> Head h | y # _ \<Rightarrow> Entry y)"
    using c(2) by (cases ys) auto
  obtain p where p: "link_prev s (Entry e) = Some p" "p = (if xs = [] then Head h else Entry (last xs))"
    using c(1) by (cases xs rule: rev_cases) (auto simp: chain_append)
  let ?t = "entry_remove e s"
  have t: "?t = s\<lparr>link_prev := (link_prev s)(n := Some p), link_next := (link_next s)(p := Some n)\<rparr>"
    by (simp add: entry_remove_def n(1) p(1))
  have "chain ?t (Head h) (map Entry xs) n"
  proof (cases xs rule: rev_cases)
    case Nil
    then show ?thesis using p by (simp add: t)
  next
    case (snoc zs z)
    have "chain s (Head h) (map Entry zs) (Entry z)" using c(1) snoc by (simp add: chain_append)
    moreover have "chain ?t (Head h) (map Entry zs) (Entry z) = chain s (Head h) (map Entry zs) (Entry z)"
      by (rule chain_frame) (use d n(2) p(2) snoc in \<open>auto simp: t split: list.splits\<close>)
    ultimately have "chain ?t (Head h) (map Entry zs) (Entry z)" by simp
    then show ?thesis using p snoc by (simp add: chain_append t)
  qed
  note front = this
  have "chain ?t (Head h) (map Entry (xs @ ys)) (Head h)"
  proof (cases ys)
    case Nil
    then show ?thesis using front n(2) by simp
  next
    case (Cons y zs)
    have yc: "chain s (Entry y) (map Entry zs) (Head h)" using c(2) Cons by simp
    have lx: "xs \<noteq> [] \<Longrightarrow> last xs \<notin> set (y # zs)" using d Cons last_in_set [of xs] by (auto simp: disjoint_iff)
    have "chain ?t (Entry y) (map Entry zs) (Head h) = chain s (Entry y) (map Entry zs) (Head h)"
      by (rule chain_frame) (use d n(2) p(2) Cons lx in \<open>auto simp: t\<close>)
    then show ?thesis using front yc n(2) Cons by (simp add: chain_append)
  qed
  then show ?thesis using d by (simp add: chunk_list_def)
qed

lemma entry_remove_other:
  assumes "chunk_list s h (xs @ e # ys)" and "h' \<noteq> h" and "set (xs @ ys) \<inter> set es' = {}"
  shows "chunk_list (entry_remove e s) h' es' = chunk_list s h' es'"
proof -
  have c: "chain s (Head h) (map Entry xs) (Entry e)" "chain s (Entry e) (map Entry ys) (Head h)"
    using assms(1) by (auto simp: chunk_list_def chain_append)
  obtain n where n: "link_next s (Entry e) = Some n" "n \<in> insert (Head h) (Entry ` set ys)"
    using c(2) by (cases ys) auto
  obtain p where p: "link_prev s (Entry e) = Some p" "p \<in> insert (Head h) (Entry ` set xs)"
    using c(1) by (cases xs rule: rev_cases) (auto simp: chain_append)
  show ?thesis
    by (rule chunk_list_frame) (use n p assms(2,3) in \<open>auto simp: entry_remove_def\<close>)
qed

text \<open>The contract of a registry of chunks, and what follows for sequences of operations.\<close>

locale chunk_registry =
  fixes rep :: "'s \<Rightarrow> nat \<Rightarrow> nat list \<Rightarrow> bool"
    and reg_add :: "nat \<Rightarrow> nat \<Rightarrow> 's \<Rightarrow> 's" and reg_remove :: "nat \<Rightarrow> 's \<Rightarrow> 's"
  assumes add_rep: "rep s h es \<Longrightarrow> e \<notin> set es \<Longrightarrow> rep (reg_add h e s) h (e # es)"
    and remove_rep: "rep s h (xs @ e # ys) \<Longrightarrow> rep (reg_remove e s) h (xs @ ys)"
    and rep_distinct: "rep s h es \<Longrightarrow> distinct es"
begin

lemma add_many:
  "rep s h es \<Longrightarrow> distinct ns \<Longrightarrow> set ns \<inter> set es = {} \<Longrightarrow> rep (fold (reg_add h) ns s) h (rev ns @ es)"
proof (induction ns arbitrary: s es)
  case (Cons n ns)
  then show ?case using add_rep [of s h es n] Cons.IH [of "reg_add h n s" "n # es"] by auto
qed simp

lemma remove_any: "rep s h es \<Longrightarrow> e \<in> set es \<Longrightarrow> rep (reg_remove e s) h (remove1 e es)"
proof -
  assume h: "rep s h es" "e \<in> set es"
  then obtain xs ys where xs: "es = xs @ e # ys" "e \<notin> set xs" by (meson split_list_first)
  then show ?thesis using remove_rep h(1) by (auto simp: remove1_append)
qed

lemma remove_many:
  "rep s h es \<Longrightarrow> distinct ns \<Longrightarrow> set ns \<subseteq> set es \<Longrightarrow>
   rep (fold reg_remove ns s) h (filter (\<lambda>e. e \<notin> set ns) es)"
proof (induction ns arbitrary: s es)
  case (Cons n ns)
  have d: "distinct es" using Cons.prems(1) by (rule rep_distinct)
  have "rep (fold reg_remove ns (reg_remove n s)) h (filter (\<lambda>e. e \<notin> set ns) (remove1 n es))"
    using Cons.prems d by (intro Cons.IH remove_any) (auto simp: in_set_remove1)
  moreover have "filter (\<lambda>e. e \<notin> set ns) (remove1 n es) = filter (\<lambda>e. e \<notin> set (n # ns)) es"
    using d by (simp add: distinct_remove1_removeAll removeAll_filter_not_eq conj_commute eq_commute)
  ultimately show ?case by simp
qed simp

lemma add_remove_many:
  "rep s h es \<Longrightarrow> distinct ns \<Longrightarrow> set ns \<inter> set es = {} \<Longrightarrow>
   rep (fold reg_remove ns (fold (reg_add h) ns s)) h es"
proof -
  assume h: "rep s h es" "distinct ns" "set ns \<inter> set es = {}"
  have "filter (\<lambda>e. e \<notin> set ns) (rev ns @ es) = es"
    using h(3) by (auto simp: filter_empty_conv intro!: filter_True)
  then show ?thesis using remove_many [OF add_many [OF h] h(2)] by auto
qed

end

interpretation chunks: chunk_registry chunk_list head_add entry_remove
proof
  show "chunk_list s h es \<Longrightarrow> e \<notin> set es \<Longrightarrow> chunk_list (head_add h e s) h (e # es)" for s h es e
    by (rule head_add_list)
  show "chunk_list s h (xs @ e # ys) \<Longrightarrow> chunk_list (entry_remove e s) h (xs @ ys)" for s h xs e ys
    by (rule entry_remove_list)
  show "chunk_list s h es \<Longrightarrow> distinct es" for s h es by (simp add: chunk_list_def)
qed

text \<open>The effect of the owner operations on the owner of every address.\<close>

context snmalloc_env
begin

lemma ownership_pow2: "pow2 (MIN_OWNERSHIP_SIZE E)"
  by (simp add: MIN_OWNERSHIP_SIZE_def max_def chunk_size_pow2)

lemma ownership_pos: "0 < unat (MIN_OWNERSHIP_SIZE E)"
  by (rule pow2_pos [OF ownership_pow2])

lemma ownership_bound: "unat (MIN_OWNERSHIP_SIZE E) \<le> 2 ^ 32"
  using chunk_size_bound page_size_bound by (auto simp: MIN_OWNERSHIP_SIZE_def max_def)

lemma ownership_dvd_48: "unat (MIN_OWNERSHIP_SIZE E) dvd 2 ^ 48"
proof -
  have "unat (2 ^ 48 :: u64) = 2 ^ 48" by simp
  moreover have "pow2 (2 ^ 48)" by (rule pow2I [of 48]) simp_all
  ultimately show ?thesis using pow2_dvd [OF ownership_pow2, of "2 ^ 48"] ownership_bound by simp
qed

lemma page_dvd_ownership: "unat (PAGE_SIZE E) dvd unat (MIN_OWNERSHIP_SIZE E)"
  by (rule pow2_dvd [OF page_size_pow2 ownership_pow2]) (simp add: MIN_OWNERSHIP_SIZE_def max_def word_nat)

end

definition granule_request :: "env \<Rightarrow> u64 \<Rightarrow> u64 \<Rightarrow> bool" where
  "granule_request E p sz \<longleftrightarrow> unat (MIN_OWNERSHIP_SIZE E) dvd unat p \<and>
    unat (MIN_OWNERSHIP_SIZE E) dvd unat sz \<and> unat p + unat sz \<le> 2 ^ 48"

definition owner_effect ::
  "(u64 \<Rightarrow> nat option) \<Rightarrow> nat \<Rightarrow> nat \<Rightarrow> CompartmentOwner \<Rightarrow> CompartmentOwner \<Rightarrow> ownership \<Rightarrow> ownership \<Rightarrow> bool" where
  "owner_effect slot lo hi old new s t \<longleftrightarrow>
    (\<forall>x. get_monza_owner slot x t = (if lo \<le> unat x \<and> unat x < hi then new else get_monza_owner slot x s)) \<and>
    (\<forall>x. lo \<le> unat x \<and> unat x < hi \<longrightarrow> get_monza_owner slot x s = old)"

lemma link_ops_owner [simp]:
  "entry_owner (head_add h e s) = entry_owner s" "entry_owner (entry_remove e s) = entry_owner s"
  by (auto simp: head_add_def lazy_init_def entry_remove_def Let_def split: option.splits)

context flat_pagemap
begin

lemma owner_same_granule:
  "unat x div unat (MIN_OWNERSHIP_SIZE E) = unat y div unat (MIN_OWNERSHIP_SIZE E) \<Longrightarrow>
   get_monza_owner slot x s = get_monza_owner slot y s"
  using slot_granule [of x y] by (simp add: get_monza_owner_def)

lemma owner_update:
  assumes "slot a = Some e" and "unat (MIN_OWNERSHIP_SIZE E) dvd unat a"
    and "entry_owner t = (entry_owner s)(e := new)"
  shows "get_monza_owner slot x t =
    (if unat a \<le> unat x \<and> unat x < unat a + unat (MIN_OWNERSHIP_SIZE E) then new else get_monza_owner slot x s)"
proof -
  have "slot x = Some e \<longleftrightarrow> unat x div unat (MIN_OWNERSHIP_SIZE E) = unat a div unat (MIN_OWNERSHIP_SIZE E)"
    using slot_inj [of x e a] slot_granule [of x a] assms(1) by auto
  also have "\<dots> \<longleftrightarrow> unat a \<le> unat x \<and> unat x < unat a + unat (MIN_OWNERSHIP_SIZE E)"
    by (rule div_eq_block [OF assms(2) ownership_pos])
  finally show ?thesis using assms(3) by (auto simp: get_monza_owner_def split: option.splits)
qed

lemma granule_loop:
  assumes req: "granule_request E p sz"
    and body: "\<And>a s t. body a s = Inr t \<Longrightarrow> \<exists>e. slot a = Some e \<and> entry_owner s e = old \<and>
      entry_owner t = (entry_owner s)(e := new)"
    and run: "for_loop body (\<lambda>a. a + MIN_OWNERSHIP_SIZE E) (p + sz) p s = Some (Inr t)"
  shows "owner_effect slot (unat p) (unat p + unat sz) old new s t"
proof -
  let ?G = "unat (MIN_OWNERSHIP_SIZE E)"
  have stop: "unat (p + sz) = unat p + unat sz" using req by (simp add: granule_request_def unat_add64)
  have next_a: "unat (a + MIN_OWNERSHIP_SIZE E) = unat a + ?G" if "a < p + sz" for a
    using that req ownership_bound stop by (intro unat_add64) (auto simp: granule_request_def word_less_nat)
  define I where "I = (\<lambda>(a :: u64) u. ?G dvd unat a \<and> unat a \<le> unat p + unat sz \<and> unat p \<le> unat a \<and>
    owner_effect slot (unat p) (unat a) old new s u)"
  have "\<exists>b. p + sz \<le> b \<and> I b t"
  proof (rule for_loop_inv [OF run, where base=p])
    fix a u v
    assume a: "p \<le> a" "a < p + sz" and i: "I a u" and b: "body a u = Inr v"
    obtain e where e: "slot a = Some e" "entry_owner u e = old" "entry_owner v = (entry_owner u)(e := new)"
      using body [OF b] by blast
    have Ga: "?G dvd unat a" and eff: "owner_effect slot (unat p) (unat a) old new s u"
      using i by (simp_all add: I_def)
    note upd = owner_update [OF e(1) Ga e(3)]
    have old: "get_monza_owner slot x s = old" if "unat a \<le> unat x" "unat x < unat a + ?G" for x
    proof -
      have "unat x div ?G = unat a div ?G" using that div_eq_block [OF Ga ownership_pos] by blast
      then have "get_monza_owner slot x u = get_monza_owner slot a u" by (rule owner_same_granule)
      then show ?thesis using e(1,2) eff that by (auto simp: get_monza_owner_def owner_effect_def split: if_splits)
    qed
    have "unat a + ?G \<le> unat p + unat sz"
      using req Ga a(2) stop by (intro dvd_less_step) (auto simp: granule_request_def word_less_nat)
    moreover have "owner_effect slot (unat p) (unat a + ?G) old new s v"
      unfolding owner_effect_def
    proof (intro conjI allI impI)
      fix x
      show "get_monza_owner slot x v = (if unat p \<le> unat x \<and> unat x < unat a + ?G then new else get_monza_owner slot x s)"
        using upd [of x] eff a(1) by (auto simp: owner_effect_def word_nat)
    next
      fix x :: u64 assume "unat p \<le> unat x \<and> unat x < unat a + ?G"
      then show "get_monza_owner slot x s = old"
        using old [of x] eff by (cases "unat x < unat a") (auto simp: owner_effect_def)
    qed
    ultimately show "I (a + MIN_OWNERSHIP_SIZE E) v"
      using Ga a(1) by (simp add: I_def next_a [OF a(2)] word_nat dvd_add)
  next
    fix a assume "p \<le> a" "a < p + sz"
    then show "a < a + MIN_OWNERSHIP_SIZE E" using next_a [of a] ownership_pos by (simp add: word_less_nat)
  next
    show "I p s" using req by (auto simp: I_def granule_request_def owner_effect_def)
  qed simp
  then obtain b where "unat b = unat p + unat sz" "I b t" using stop by (auto simp: I_def word_nat)
  then show ?thesis by (simp add: I_def)
qed

lemma granule_loop_total:
  assumes "granule_request E p sz"
  shows "\<exists>r. for_loop body (\<lambda>a. a + MIN_OWNERSHIP_SIZE E) (p + sz) p s = Some r"
proof (rule for_loop_total [where base=p])
  fix a assume "p \<le> a" "a < p + sz"
  then have "unat (a + MIN_OWNERSHIP_SIZE E) = unat a + unat (MIN_OWNERSHIP_SIZE E)"
    using assms ownership_bound by (intro unat_add64) (auto simp: granule_request_def word_less_nat unat_add64)
  then show "a < a + MIN_OWNERSHIP_SIZE E" using ownership_pos by (simp add: word_less_nat)
qed simp

lemma add_owner_total: "granule_request E p sz \<Longrightarrow> \<exists>r. add_monza_owner E slot p sz owner lh s = Some r"
  unfolding add_monza_owner_def by (rule granule_loop_total)

lemma remove_owner_total: "granule_request E p sz \<Longrightarrow> \<exists>r. remove_monza_owner E slot p sz owner s = Some r"
  unfolding remove_monza_owner_def by (rule granule_loop_total)

lemma add_owner_effect:
  assumes "granule_request E p sz" and "add_monza_owner E slot p sz owner lh s = Some (Inr t)"
  shows "owner_effect slot (unat p) (unat p + unat sz) null_owner owner s t"
  using assms(2) unfolding add_monza_owner_def
  by (intro granule_loop [OF assms(1)]) (auto simp: Let_def split: option.splits if_splits)

lemma remove_owner_effect:
  assumes "granule_request E p sz" and "remove_monza_owner E slot p sz owner s = Some (Inr t)"
  shows "owner_effect slot (unat p) (unat p + unat sz) owner null_owner s t"
  using assms(2) unfolding remove_monza_owner_def
  by (intro granule_loop [OF assms(1)]) (auto simp: clear_owner_def split: option.splits if_splits)

end

lemma validate_loop_checked:
  assumes "validate_loop E slot owner stop a s = Some True" and "0 < unat (MIN_OWNERSHIP_SIZE E)"
    and "unat stop + unat (MIN_OWNERSHIP_SIZE E) \<le> 2 ^ 64"
    and "unat a + k * unat (MIN_OWNERSHIP_SIZE E) < unat stop" and "unat x = unat a + k * unat (MIN_OWNERSHIP_SIZE E)"
  shows "get_monza_owner slot x s = owner"
  using assms(1,4,5)
proof (induction k arbitrary: a)
  case 0
  then have "x = a" "a < stop" by (simp_all add: word_eq_nat word_less_nat)
  then show ?case using 0(1) by (subst (asm) validate_loop.simps) (auto split: if_splits)
next
  case (Suc k)
  have lt: "a < stop" using Suc.prems(2) by (simp add: word_less_nat)
  have na: "unat (a + MIN_OWNERSHIP_SIZE E) = unat a + unat (MIN_OWNERSHIP_SIZE E)"
    using lt assms(3) by (intro unat_add64) (simp add: word_less_nat)
  have "validate_loop E slot owner stop (a + MIN_OWNERSHIP_SIZE E) s = Some True"
    using Suc.prems(1) lt by (subst (asm) validate_loop.simps) (simp split: if_splits)
  then show ?case
    by (rule Suc.IH) (use Suc.prems(2,3) na in \<open>simp_all only: mult_Suc add.assoc\<close>)
qed

text \<open>The invariant of the chunk lists: each registered list holds exactly its owner's entries.\<close>

definition exact_list :: "ownership \<Rightarrow> nat \<Rightarrow> CompartmentOwner \<Rightarrow> bool" where
  "exact_list s h owner \<longleftrightarrow> (\<exists>es. chunk_list s h es \<and> (\<forall>e. e \<in> set es \<longleftrightarrow> entry_owner s e = owner))"

definition lists_ok :: "ownership \<Rightarrow> (nat \<times> CompartmentOwner) set \<Rightarrow> bool" where
  "lists_ok s reg \<longleftrightarrow> (\<forall>(h, owner) \<in> reg. owner \<noteq> null_owner \<and> exact_list s h owner) \<and>
    (\<forall>(h, owner) \<in> reg. \<forall>(h', owner') \<in> reg. h = h' \<longleftrightarrow> owner = owner')"

lemma add_entry_lists_ok:
  assumes ok: "lists_ok s reg" and reg: "(h, owner) \<in> reg" and null: "entry_owner s e = null_owner"
  shows "lists_ok (head_add h e (s\<lparr>entry_owner := (entry_owner s)(e := owner)\<rparr>)) reg"
proof -
  let ?s1 = "s\<lparr>entry_owner := (entry_owner s)(e := owner)\<rparr>" and ?t = "head_add h e (s\<lparr>entry_owner := (entry_owner s)(e := owner)\<rparr>)"
  obtain es where es: "chunk_list s h es" "\<forall>e. e \<in> set es \<longleftrightarrow> entry_owner s e = owner" and on: "owner \<noteq> null_owner"
    using ok reg by (auto simp: lists_ok_def exact_list_def)
  have ne: "e \<notin> set es" using es(2) null on by simp
  have es1: "chunk_list ?s1 h es" using es(1) by simp
  have "exact_list ?t h' owner'" if r: "(h', owner') \<in> reg" for h' owner'
  proof (cases "h' = h")
    case True
    then have "owner' = owner" using ok reg r by (auto simp: lists_ok_def)
    then show ?thesis using head_add_list [OF es1 ne] es(2) True unfolding exact_list_def
      by (intro exI [of _ "e # es"]) auto
  next
    case False
    then have no: "owner' \<noteq> owner" "owner' \<noteq> null_owner" using ok reg r by (auto simp: lists_ok_def)
    obtain es' where es': "chunk_list s h' es'" "\<forall>e. e \<in> set es' \<longleftrightarrow> entry_owner s e = owner'"
      using ok r by (auto simp: lists_ok_def exact_list_def)
    have "chunk_list ?t h' es' = chunk_list ?s1 h' es'"
      using es(2) es'(2) no null by (intro head_add_other [OF es1 False]) auto
    then show ?thesis using es' no null unfolding exact_list_def by (intro exI [of _ es']) auto
  qed
  then show ?thesis using ok unfolding lists_ok_def by blast
qed

lemma remove_entry_lists_ok:
  assumes ok: "lists_ok s reg" and reg: "(h, owner) \<in> reg" and own: "entry_owner s e = owner"
  shows "lists_ok (entry_remove e (clear_owner e s)) reg"
proof -
  let ?s1 = "clear_owner e s" and ?t = "entry_remove e (clear_owner e s)"
  obtain es where es: "chunk_list s h es" "\<forall>e. e \<in> set es \<longleftrightarrow> entry_owner s e = owner" and on: "owner \<noteq> null_owner"
    using ok reg by (auto simp: lists_ok_def exact_list_def)
  obtain xs ys where xy: "es = xs @ e # ys" using es(2) own split_list [of e es] by auto
  have es1: "chunk_list ?s1 h (xs @ e # ys)" using es(1) xy by (simp add: clear_owner_def)
  have d: "distinct (xs @ e # ys)" using es(1) xy by (simp add: chunk_list_def)
  have "exact_list ?t h' owner'" if r: "(h', owner') \<in> reg" for h' owner'
  proof (cases "h' = h")
    case True
    then have "owner' = owner" using ok reg r by (auto simp: lists_ok_def)
    moreover have "\<forall>e'. e' \<in> set (xs @ ys) \<longleftrightarrow> entry_owner ?t e' = owner"
      using es(2) xy d on by (auto simp: clear_owner_def)
    ultimately show ?thesis using entry_remove_list [OF es1] True unfolding exact_list_def by blast
  next
    case False
    then have no: "owner' \<noteq> owner" "owner' \<noteq> null_owner" using ok reg r by (auto simp: lists_ok_def)
    obtain es' where es': "chunk_list s h' es'" "\<forall>e. e \<in> set es' \<longleftrightarrow> entry_owner s e = owner'"
      using ok r by (auto simp: lists_ok_def exact_list_def)
    have "set (xs @ ys) \<inter> set es' = {}" using es(2) es'(2) no xy by auto
    from entry_remove_other [OF es1 False this] have "chunk_list ?t h' es' = chunk_list ?s1 h' es'" .
    then show ?thesis using es' no own unfolding exact_list_def
      by (intro exI [of _ es']) (auto simp: clear_owner_def)
  qed
  then show ?thesis using ok unfolding lists_ok_def by blast
qed

text \<open>Runs that succeed: the entries of the range are mapped and have the expected owner.\<close>

context flat_pagemap
begin

lemma granule_loop_ok:
  assumes req: "granule_request E p sz"
    and mapped: "\<forall>x. unat p \<le> unat x \<and> unat x < unat p + unat sz \<longrightarrow> slot x \<noteq> None \<and> get_monza_owner slot x s = old"
    and body: "\<And>a s e. slot a = Some e \<Longrightarrow> entry_owner s e = old \<Longrightarrow> Q s \<Longrightarrow>
      \<exists>t. body a s = Inr t \<and> entry_owner t = (entry_owner s)(e := new) \<and> Q t" and "Q s"
  shows "\<exists>t. for_loop body (\<lambda>a. a + MIN_OWNERSHIP_SIZE E) (p + sz) p s = Some (Inr t) \<and> Q t"
proof -
  let ?G = "unat (MIN_OWNERSHIP_SIZE E)"
  have stop: "unat (p + sz) = unat p + unat sz" using req by (simp add: granule_request_def unat_add64)
  have next_a: "unat (a + MIN_OWNERSHIP_SIZE E) = unat a + ?G" if "a < p + sz" for a
    using that req ownership_bound stop by (intro unat_add64) (auto simp: granule_request_def word_less_nat)
  define I where "I = (\<lambda>(a :: u64) u. ?G dvd unat a \<and> unat p \<le> unat a \<and> Q u \<and>
    (\<forall>x. unat a \<le> unat x \<and> unat x < unat p + unat sz \<longrightarrow> slot x \<noteq> None \<and> get_monza_owner slot x u = old))"
  have "\<exists>t b. for_loop body (\<lambda>a. a + MIN_OWNERSHIP_SIZE E) (p + sz) p s = Some (Inr t) \<and> p + sz \<le> b \<and> I b t"
  proof (rule for_loop_rule [where base=p])
    fix a u assume a: "p \<le> a" "a < p + sz" and i: "I a u"
    have "slot a \<noteq> None" "get_monza_owner slot a u = old"
      using i a stop by (simp_all add: I_def word_less_nat)
    then obtain e where e: "slot a = Some e" "entry_owner u e = old" by (auto simp: get_monza_owner_def)
    obtain v where v: "body a u = Inr v" "entry_owner v = (entry_owner u)(e := new)" "Q v"
      using body [OF e] i unfolding I_def by blast
    have Ga: "?G dvd unat a" using i by (simp add: I_def)
    have "get_monza_owner slot x v = get_monza_owner slot x u" if "unat a + ?G \<le> unat x" for x
      using owner_update [OF e(1) Ga v(2), of x] that by auto
    then have "I (a + MIN_OWNERSHIP_SIZE E) v"
      using i v(3) Ga by (simp add: I_def next_a [OF a(2)])
    then show "\<exists>t. body a u = Inr t \<and> I (a + MIN_OWNERSHIP_SIZE E) t" using v(1) by blast
  next
    fix a assume "p \<le> a" "a < p + sz"
    then show "a < a + MIN_OWNERSHIP_SIZE E" using next_a [of a] ownership_pos by (simp add: word_less_nat)
  next
    show "I p s" using assms by (auto simp: I_def granule_request_def)
  qed simp
  then show ?thesis by (auto simp: I_def)
qed

lemma add_owner_ok:
  assumes "granule_request E p sz" and "lists_ok s reg" and "(h, owner) \<in> reg"
    and "\<forall>x. unat p \<le> unat x \<and> unat x < unat p + unat sz \<longrightarrow> slot x \<noteq> None \<and> get_monza_owner slot x s = null_owner"
  shows "\<exists>t. add_monza_owner E slot p sz owner (Some h) s = Some (Inr t) \<and> lists_ok t reg"
  unfolding add_monza_owner_def
  by (rule granule_loop_ok [where new=owner, OF assms(1,4)])
    (use assms(2,3) in \<open>auto simp: Let_def intro: add_entry_lists_ok\<close>)

lemma remove_owner_ok:
  assumes "granule_request E p sz" and "lists_ok s reg" and "(h, owner) \<in> reg"
    and "\<forall>x. unat p \<le> unat x \<and> unat x < unat p + unat sz \<longrightarrow> slot x \<noteq> None \<and> get_monza_owner slot x s = owner"
  shows "\<exists>t. remove_monza_owner E slot p sz owner s = Some (Inr t) \<and> lists_ok t reg"
  unfolding remove_monza_owner_def
  by (rule granule_loop_ok [where new=null_owner, OF assms(1,4)])
    (use assms(2,3) in \<open>auto simp: clear_owner_def [symmetric] intro: remove_entry_lists_ok, auto simp: clear_owner_def\<close>)

lemma granule_loop_keeps:
  assumes "granule_request E p sz" and "for_loop body (\<lambda>a. a + MIN_OWNERSHIP_SIZE E) (p + sz) p s = Some (Inr t)"
    and "\<And>a s t. Q s \<Longrightarrow> body a s = Inr t \<Longrightarrow> Q t" and "Q s"
  shows "Q t"
proof -
  have "\<exists>b. p + sz \<le> b \<and> Q t"
  proof (rule for_loop_inv [OF assms(2), where base=p])
    fix a assume "p \<le> a" "a < p + sz"
    then have "unat (a + MIN_OWNERSHIP_SIZE E) = unat a + unat (MIN_OWNERSHIP_SIZE E)"
      using assms ownership_bound by (intro unat_add64) (auto simp: granule_request_def word_less_nat unat_add64)
    then show "a < a + MIN_OWNERSHIP_SIZE E" using ownership_pos by (simp add: word_less_nat)
  qed (use assms(3,4) in auto)
  then show ?thesis by blast
qed

lemma add_owner_lists_ok:
  assumes "granule_request E p sz" and "add_monza_owner E slot p sz owner (Some h) s = Some (Inr t)"
    and "lists_ok s reg" and "(h, owner) \<in> reg"
  shows "lists_ok t reg"
  by (rule granule_loop_keeps [where Q="\<lambda>u. lists_ok u reg", OF assms(1) assms(2) [unfolded add_monza_owner_def] _ assms(3)])
    (use assms(4) in \<open>auto simp: Let_def split: option.splits if_splits intro: add_entry_lists_ok\<close>)

lemma remove_owner_lists_ok:
  assumes "granule_request E p sz" and "remove_monza_owner E slot p sz owner s = Some (Inr t)"
    and "lists_ok s reg" and "(h, owner) \<in> reg"
  shows "lists_ok t reg"
  by (rule granule_loop_keeps [where Q="\<lambda>u. lists_ok u reg", OF assms(1) assms(2) [unfolded remove_monza_owner_def] _ assms(3)])
    (use assms(4) in \<open>auto split: option.splits if_splits intro: remove_entry_lists_ok\<close>)

end

text \<open>A pagemap with one entry for every granule below 2^48.\<close>

definition full_slot :: "env \<Rightarrow> u64 \<Rightarrow> nat option" where
  "full_slot E x = (if unat x < 2 ^ 48 then Some (unat x div unat (MIN_OWNERSHIP_SIZE E)) else None)"

definition full_address :: "env \<Rightarrow> nat \<Rightarrow> u64" where
  "full_address E e = word_of_nat (e * unat (MIN_OWNERSHIP_SIZE E))"

lemma granule_same_low:
  assumes "snmalloc_env E" and "unat x div unat (MIN_OWNERSHIP_SIZE E) = unat y div unat (MIN_OWNERSHIP_SIZE E)"
  shows "unat x < 2 ^ 48 \<longleftrightarrow> unat y < (2 :: nat) ^ 48"
proof -
  let ?G = "unat (MIN_OWNERSHIP_SIZE E)"
  have d: "?G dvd 2 ^ 48" by (rule snmalloc_env.ownership_dvd_48 [OF assms(1)])
  have "n < 2 ^ 48 \<longleftrightarrow> n div ?G < 2 ^ 48 div ?G" for n :: nat
    using d snmalloc_env.ownership_pos [OF assms(1)] by (auto simp: div_less_iff_less_mult elim!: dvdE)
  then show ?thesis using assms(2) by simp
qed

lemma full_pagemap:
  assumes "snmalloc_env E"
  shows "flat_pagemap E (full_slot E) (full_address E)"
proof -
  let ?G = "unat (MIN_OWNERSHIP_SIZE E)"
  have addr: "unat (full_address E e) = down_to ?G (unat x)" if "full_slot E x = Some e" for x e
    using that le_less_trans [OF down_to_le unat_lt64] unfolding full_slot_def full_address_def down_to_def
    by (intro unat_of_nat64 [THEN trans]) (auto split: if_splits)
  have same: "full_slot E x = full_slot E y" if "unat x div ?G = unat y div ?G" for x y
    using that granule_same_low [OF assms that] by (simp add: full_slot_def)
  have inj: "unat x div ?G = e" "unat x < 2 ^ 48" if "full_slot E x = Some e" for x e
    using that by (simp_all add: full_slot_def split: if_splits)
  show ?thesis
    by (intro flat_pagemap.intro flat_pagemap_axioms.intro assms)
      (erule same, blast dest: inj(1), erule addr, erule inj(2))
qed

interpretation full_small: flat_pagemap "rounding_env 4096" "full_slot (rounding_env 4096)" "full_address (rounding_env 4096)"
  by (rule full_pagemap) (rule small_pages.snmalloc_env_axioms)

interpretation full_large: flat_pagemap "rounding_env 2097152" "full_slot (rounding_env 2097152)" "full_address (rounding_env 2097152)"
  by (rule full_pagemap) (rule large_pages.snmalloc_env_axioms)

lemma granule_small: "MIN_OWNERSHIP_SIZE (rounding_env 4096) = 0x4000"
  by (simp add: MIN_OWNERSHIP_SIZE_def max_def)

lemma init_owner [simp]: "get_monza_owner slot x ownership_init = null_owner"
  by (simp add: get_monza_owner_def ownership_init_def split: option.splits)

lemma init_lists_ok: "owner \<noteq> null_owner \<Longrightarrow> lists_ok ownership_init {(h, owner)}"
  by (auto simp: lists_ok_def exact_list_def chunk_list_def ownership_init_def)

lemma small_request: "granule_request (rounding_env 4096) 0x10000 0x8000"
  by (simp add: granule_request_def granule_small)

text \<open>C6. Taking ownership of a free, granule-aligned range always returns, gives the compartment exactly
  the addresses of the range, changes no other owner, and keeps every compartment's chunk list
  equal to the set of the entries it owns.\<close>
theorem add_monza_owner_exact:
  assumes "flat_pagemap E slot slot_address" and "granule_request E p sz"
    and "lists_ok s reg" and "(h, owner) \<in> reg"
    and "\<forall>x. unat p \<le> unat x \<and> unat x < unat p + unat sz \<longrightarrow> slot x \<noteq> None \<and> get_monza_owner slot x s = null_owner"
  shows "\<exists>t. add_monza_owner E slot p sz owner (Some h) s = Some (Inr t) \<and> lists_ok t reg \<and>
    (\<forall>x. get_monza_owner slot x t = (if in_request p sz x then owner else get_monza_owner slot x s))"
proof -
  obtain t where t: "add_monza_owner E slot p sz owner (Some h) s = Some (Inr t)" "lists_ok t reg"
    using flat_pagemap.add_owner_ok [OF assms] by blast
  from flat_pagemap.add_owner_effect [OF assms(1,2) t(1)] t show ?thesis
    by (auto simp: owner_effect_def in_request_def)
qed

theorem add_monza_owner_exact_witness:
  "\<exists>t. add_monza_owner (rounding_env 4096) (full_slot (rounding_env 4096)) 0x10000 0x8000 7 (Some 0) ownership_init = Some (Inr t) \<and>
    get_monza_owner (full_slot (rounding_env 4096)) 0x17fff t = 7 \<and>
    get_monza_owner (full_slot (rounding_env 4096)) 0x18000 t = null_owner"
proof -
  have "lists_ok ownership_init {(0, 7)}" by (rule init_lists_ok) (simp add: null_owner_def)
  from add_monza_owner_exact [OF full_small.flat_pagemap_axioms small_request this, of 0 7]
  show ?thesis by (auto simp: in_request_def full_slot_def)
qed

text \<open>C7. Giving up a range that the compartment owns always returns, makes exactly that range unowned and
  unlinks its entries from the compartment's chunk list.\<close>
theorem remove_monza_owner_exact:
  assumes "flat_pagemap E slot slot_address" and "granule_request E p sz"
    and "lists_ok s reg" and "(h, owner) \<in> reg"
    and "\<forall>x. unat p \<le> unat x \<and> unat x < unat p + unat sz \<longrightarrow> slot x \<noteq> None \<and> get_monza_owner slot x s = owner"
  shows "\<exists>t. remove_monza_owner E slot p sz owner s = Some (Inr t) \<and> lists_ok t reg \<and>
    (\<forall>x. get_monza_owner slot x t = (if in_request p sz x then null_owner else get_monza_owner slot x s))"
proof -
  obtain t where t: "remove_monza_owner E slot p sz owner s = Some (Inr t)" "lists_ok t reg"
    using flat_pagemap.remove_owner_ok [OF assms] by blast
  from flat_pagemap.remove_owner_effect [OF assms(1,2) t(1)] t show ?thesis
    by (auto simp: owner_effect_def in_request_def)
qed

theorem remove_monza_owner_exact_witness:
  "\<exists>s t. add_monza_owner (rounding_env 4096) (full_slot (rounding_env 4096)) 0x10000 0x8000 7 (Some 0) ownership_init = Some (Inr s) \<and>
    remove_monza_owner (rounding_env 4096) (full_slot (rounding_env 4096)) 0x10000 0x8000 7 s = Some (Inr t) \<and>
    get_monza_owner (full_slot (rounding_env 4096)) 0x14000 t = null_owner"
proof -
  let ?E = "rounding_env 4096"
  have l: "lists_ok ownership_init {(0, 7)}" by (rule init_lists_ok) (simp add: null_owner_def)
  have r: "(0, 7) \<in> {(0 :: nat, 7 :: CompartmentOwner)}" by simp
  have m: "\<forall>x. unat (0x10000 :: u64) \<le> unat x \<and> unat x < unat (0x10000 :: u64) + unat (0x8000 :: u64) \<longrightarrow>
      full_slot ?E x \<noteq> None \<and> get_monza_owner (full_slot ?E) x ownership_init = null_owner"
    by (simp add: full_slot_def)
  obtain s where s: "add_monza_owner ?E (full_slot ?E) 0x10000 0x8000 7 (Some 0) ownership_init = Some (Inr s)" "lists_ok s {(0, 7)}"
    using full_small.add_owner_ok [OF small_request l r m] by blast
  from full_small.add_owner_effect [OF small_request s(1)]
  have "\<forall>x. unat (0x10000 :: u64) \<le> unat x \<and> unat x < unat (0x10000 :: u64) + unat (0x8000 :: u64) \<longrightarrow>
      full_slot ?E x \<noteq> None \<and> get_monza_owner (full_slot ?E) x s = 7"
    unfolding owner_effect_def by (simp add: full_slot_def)
  from remove_monza_owner_exact [OF full_small.flat_pagemap_axioms small_request s(2) r this] s(1)
  show ?thesis by (auto simp: in_request_def)
qed

text \<open>Memory that has an owner is never given to another one: if any address of the range is owned,
  the operation stops with an error.\<close>
theorem add_monza_owner_refuses:
  assumes "flat_pagemap E slot slot_address" and "granule_request E p sz"
    and "in_request p sz x" and "get_monza_owner slot x s \<noteq> null_owner"
  shows "\<exists>f. add_monza_owner E slot p sz owner lh s = Some (Inl f)"
proof -
  obtain r where r: "add_monza_owner E slot p sz owner lh s = Some r"
    using flat_pagemap.add_owner_total [OF assms(1,2)] by blast
  show ?thesis
  proof (cases r)
    case (Inr t)
    then have "owner_effect slot (unat p) (unat p + unat sz) null_owner owner s t"
      using flat_pagemap.add_owner_effect [OF assms(1,2)] r by blast
    then show ?thesis using assms(3,4) unfolding owner_effect_def in_request_def by blast
  qed (use r in simp)
qed

definition owned_once :: ownership where
  "owned_once = ownership_init\<lparr>entry_owner := (\<lambda>_. null_owner)(5 := 7)\<rparr>"

theorem add_monza_owner_refuses_witness:
  "\<exists>f. add_monza_owner (rounding_env 4096) (full_slot (rounding_env 4096)) 0x10000 0x8000 9 None owned_once = Some (Inl f)"
  using add_monza_owner_refuses [OF full_small.flat_pagemap_axioms small_request, of "0x14000" owned_once 9 None]
  by (simp add: in_request_def owned_once_def get_monza_owner_def full_slot_def granule_small null_owner_def)

lemma validated_range_owned:
  assumes fp: "flat_pagemap E slot slot_address" and al: "unat (MIN_OWNERSHIP_SIZE E) dvd unat p"
    and top: "unat p + unat sz + unat (MIN_OWNERSHIP_SIZE E) \<le> 2 ^ 64"
    and "validate_owner_range E slot owner p sz s = Some True" and x: "in_request p sz x"
  shows "get_monza_owner slot x s = owner"
proof -
  let ?G = "unat (MIN_OWNERSHIP_SIZE E)"
  have env: "snmalloc_env E" using fp by (simp add: flat_pagemap_def)
  have pos: "0 < ?G" by (rule snmalloc_env.ownership_pos [OF env])
  have stop: "unat (p + sz) = unat p + unat sz" using top pos by (intro unat_add64) simp
  define k where "k = (unat x - unat p) div ?G"
  have kx: "unat p + k * ?G \<le> unat x" using x by (simp add: k_def in_request_def) (metis add.commute div_times_less_eq_dividend le_diff_conv2)
  define y :: u64 where "y = word_of_nat (unat p + k * ?G)"
  have y: "unat y = unat p + k * ?G"
    unfolding y_def using le_less_trans [OF kx unat_lt64] by (intro unat_of_nat64) simp
  have "get_monza_owner slot y s = owner"
    using assms(4) pos top kx x stop y unfolding validate_owner_range_def
    by (intro validate_loop_checked [where stop="p + sz" and a=p and k=k]) (auto simp: in_request_def)
  moreover have "unat y div ?G = unat x div ?G"
  proof -
    have "?G dvd unat y" using al y by simp
    moreover have "unat x < unat y + ?G"
      using pos dividend_less_div_times [of ?G "unat x - unat p"] y by (simp add: k_def)
    ultimately show ?thesis using div_eq_block [of ?G "unat y" "unat x"] kx y pos by auto
  qed
  ultimately show ?thesis using flat_pagemap.owner_same_granule [OF fp, of y x s] by simp
qed

text \<open>A range inside one granule, at any offset, is checked by its start.\<close>

lemma validated_granule_owned:
  assumes fp: "flat_pagemap E slot slot_address" and "unat p + unat sz < 2 ^ 64"
    and v: "validate_owner_range E slot owner p sz s = Some True" and x: "in_request p sz x"
    and one: "unat p div unat (MIN_OWNERSHIP_SIZE E) = (unat p + unat sz - 1) div unat (MIN_OWNERSHIP_SIZE E)"
  shows "get_monza_owner slot x s = owner"
proof -
  have "unat (p + sz) = unat p + unat sz" using assms(2) by (rule unat_add64)
  moreover have "0 < unat sz" using x by (simp add: in_request_def)
  ultimately have "p < p + sz" by (simp add: word_less_nat)
  then have "get_monza_owner slot p s = owner"
    using v unfolding validate_owner_range_def by (subst (asm) validate_loop.simps) (auto split: if_splits)
  moreover have "unat p div unat (MIN_OWNERSHIP_SIZE E) \<le> unat x div unat (MIN_OWNERSHIP_SIZE E)"
    "unat x div unat (MIN_OWNERSHIP_SIZE E) \<le> (unat p + unat sz - 1) div unat (MIN_OWNERSHIP_SIZE E)"
    using x unfolding in_request_def by (intro div_le_mono; linarith)+
  ultimately show ?thesis using one flat_pagemap.owner_same_granule [OF fp, of x p s] by simp
qed

text \<open>C12. The owner check of a range that starts on a granule and ends at least one granule below the
  top of the address space is sound: if it passes, the compartment owns every address of the range.\<close>
theorem validate_owner_range_sound:
  assumes fp: "flat_pagemap E slot slot_address" and al: "unat (MIN_OWNERSHIP_SIZE E) dvd unat p"
    and top: "unat p + unat sz + unat (MIN_OWNERSHIP_SIZE E) \<le> 2 ^ 64"
    and "validate_owner_range E slot owner p sz s = Some True" and x: "in_request p sz x"
  shows "get_monza_owner slot x s = owner"
  by (rule validated_range_owned [OF assms])

theorem validate_owner_range_sound_witness:
  "get_monza_owner (full_slot (rounding_env 4096)) 0x17fff
     (ownership_init\<lparr>entry_owner := (\<lambda>e. if e \<in> {4, 5} then 7 else null_owner)\<rparr>) = 7"
proof -
  let ?s = "ownership_init\<lparr>entry_owner := (\<lambda>e. if e \<in> {4, 5} then 7 else null_owner)\<rparr>"
  have "validate_owner_range (rounding_env 4096) (full_slot (rounding_env 4096)) 7 0x10000 0x8000 ?s = Some True"
    by (simp add: validate_owner_range_def validate_loop.simps granule_small get_monza_owner_def full_slot_def)
  then show ?thesis
    by (intro validate_owner_range_sound [OF full_small.flat_pagemap_axioms, of "0x10000" "0x8000"])
      (simp_all add: granule_small in_request_def)
qed

text \<open>For a range that does not start on a granule the check looks only at the granules of its start and
  of the addresses one granule further: a range that straddles into a second granule passes when
  just the first granule is owned, whoever owns the bytes behind it.\<close>
theorem validate_owner_range_straddle:
  assumes fp: "flat_pagemap E slot slot_address" and al: "unat (MIN_OWNERSHIP_SIZE E) dvd unat g"
    and room: "unat g + 2 * unat (MIN_OWNERSHIP_SIZE E) \<le> 2 ^ 64" and n: "0 < n" "n < unat (MIN_OWNERSHIP_SIZE E)"
    and p: "unat p = unat g + unat (MIN_OWNERSHIP_SIZE E) - n" and sz: "n < unat sz" "unat sz \<le> unat (MIN_OWNERSHIP_SIZE E)"
    and own: "get_monza_owner slot g s = owner"
  shows "validate_owner_range E slot owner p sz s = Some True \<and> in_request p sz (g + MIN_OWNERSHIP_SIZE E)"
proof -
  let ?G = "unat (MIN_OWNERSHIP_SIZE E)"
  have pos: "0 < ?G" using n by simp
  have stop: "unat (p + sz) = unat p + unat sz" using p sz n room by (intro unat_add64) simp
  have next_p: "unat (p + MIN_OWNERSHIP_SIZE E) = unat p + ?G" using p n room by (intro unat_add64) simp
  have ng: "unat (g + MIN_OWNERSHIP_SIZE E) = unat g + ?G" using room pos by (intro unat_add64) simp
  have "unat p div ?G = unat g div ?G" using div_eq_block [OF al pos] p n by simp
  then have "get_monza_owner slot p s = owner" using flat_pagemap.owner_same_granule [OF fp, of p g] own by simp
  moreover have "\<not> p + MIN_OWNERSHIP_SIZE E < p + sz" using stop next_p sz by (simp add: word_less_nat)
  ultimately have "validate_owner_range E slot owner p sz s = Some True"
    by (simp add: validate_owner_range_def validate_loop.simps)
  then show ?thesis using p n sz ng by (simp add: in_request_def)
qed

theorem validate_owner_range_straddle_witness:
  "validate_owner_range (rounding_env 4096) (full_slot (rounding_env 4096)) 7 0x17ff8 0x10 owned_once = Some True \<and>
   in_request 0x17ff8 0x10 0x18000 \<and> get_monza_owner (full_slot (rounding_env 4096)) 0x18000 owned_once \<noteq> 7"
proof -
  let ?E = "rounding_env 4096"
  have "get_monza_owner (full_slot ?E) 0x14000 owned_once = 7"
    by (simp add: owned_once_def get_monza_owner_def full_slot_def granule_small)
  from validate_owner_range_straddle [OF full_small.flat_pagemap_axioms _ _ _ _ _ _ _ this, of 8 "0x17ff8" "0x10"]
  show ?thesis
    by (simp add: granule_small owned_once_def get_monza_owner_def full_slot_def null_owner_def ownership_init_def)
qed

text \<open>When the end of the range wraps past the top of the address space the check looks at no entry and
  passes for every compartment.\<close>
theorem validate_owner_range_wraps:
  assumes "2 ^ 64 \<le> unat p + unat sz"
  shows "validate_owner_range E slot owner p sz s = Some True"
proof -
  let ?M = "18446744073709551616 :: nat"
  have ge: "?M \<le> unat p + unat sz" using assms by simp
  then have lt: "unat p + unat sz - ?M < unat p" using unat_lt64 [of sz] by linarith
  have "unat (p + sz) = (unat p + unat sz) mod ?M" using unat_word_ariths(1) [of p sz] by simp
  also have "\<dots> = unat p + unat sz - ?M"
    using ge less_trans [OF lt unat_lt64] by (simp only: le_mod_geq mod_less)
  finally have "\<not> p < p + sz" using lt by (simp add: word_less_nat)
  then show ?thesis by (simp add: validate_owner_range_def validate_loop.simps)
qed

theorem validate_owner_range_wraps_witness:
  "validate_owner_range (rounding_env 4096) (full_slot (rounding_env 4096)) 7 0x18000 0xFFFFFFFFFFFF0000 owned_once = Some True \<and>
   get_monza_owner (full_slot (rounding_env 4096)) 0x18000 owned_once \<noteq> 7"
  using validate_owner_range_wraps [of "0x18000" "0xFFFFFFFFFFFF0000"]
  by (simp add: owned_once_def get_monza_owner_def full_slot_def granule_small null_owner_def ownership_init_def)

end
