(* ===== verification/Byte_Memory.thy ===== *)
theory Byte_Memory
  imports Monza_Prelude
begin

text \<open>
  Byte-addressed memory: the effect of \<open>memset\<close> and \<open>memcpy\<close> and little-endian loads and
  stores of fixed width.  Addresses wrap at 64 bits; an access of n bytes at a covers the
  addresses x with x - a < n.  The two blocks of a \<open>memcpy\<close> do not overlap.
\<close>

type_synonym bytes = "u64 \<Rightarrow> u8"

definition memset :: "u64 \<Rightarrow> u8 \<Rightarrow> u64 \<Rightarrow> bytes \<Rightarrow> bytes" where
  "memset p v n m = (\<lambda>x. if x - p < n then v else m x)"

definition memcpy :: "u64 \<Rightarrow> u64 \<Rightarrow> u64 \<Rightarrow> bytes \<Rightarrow> bytes" where
  "memcpy dst src n m = (\<lambda>x. if x - dst < n then m (src + (x - dst)) else m x)"

definition load_le :: "nat \<Rightarrow> u64 \<Rightarrow> bytes \<Rightarrow> nat" where
  "load_le n a m = (\<Sum>i<n. unat (m (a + word_of_nat i)) * 256 ^ i)"

definition store_le :: "nat \<Rightarrow> u64 \<Rightarrow> nat \<Rightarrow> bytes \<Rightarrow> bytes" where
  "store_le n a v m = (\<lambda>x. if unat (x - a) < n then word_of_nat (v div 256 ^ unat (x - a)) else m x)"

definition load64 :: "u64 \<Rightarrow> bytes \<Rightarrow> u64" where
  "load64 a m = word_of_nat (load_le 8 a m)"

definition store64 :: "u64 \<Rightarrow> u64 \<Rightarrow> bytes \<Rightarrow> bytes" where
  "store64 a v m = store_le 8 a (unat v) m"

lemma digits_sum: "(\<Sum>i<n. (v div 256 ^ i mod 256) * 256 ^ i) = v mod 256 ^ n" for v :: nat
proof (induction n)
  case (Suc n)
  have "v mod 256 ^ Suc n = 256 ^ n * (v div 256 ^ n mod 256) + v mod 256 ^ n"
    by (metis mod_mult2_eq power_Suc2)
  then show ?case using Suc.IH by simp
qed simp

lemma load_store_le:
  assumes "n < 2 ^ 64"
  shows "load_le n a (store_le n a v m) = v mod 256 ^ n"
proof -
  have "unat (store_le n a v m (a + word_of_nat i)) = v div 256 ^ i mod 256" if "i < n" for i
    using that assms by (simp add: store_le_def unat_of_nat64 unsigned_of_nat take_bit_eq_mod)
  then have "load_le n a (store_le n a v m) = (\<Sum>i<n. (v div 256 ^ i mod 256) * 256 ^ i)"
    unfolding load_le_def by (intro sum.cong) auto
  then show ?thesis by (simp only: digits_sum)
qed

lemma load_le_cong: "(\<And>i. i < n \<Longrightarrow> m (a + word_of_nat i) = m' (a + word_of_nat i)) \<Longrightarrow> load_le n a m = load_le n a m'"
  unfolding load_le_def by (intro sum.cong) auto

lemma load64_store64 [simp]: "load64 a (store64 a v m) = v"
proof -
  have "unat v < 256 ^ 8" using unat_lt64 [of v] by simp
  then show ?thesis by (simp add: load64_def store64_def load_store_le)
qed

lemma store64_out: "8 \<le> unat (x - a) \<Longrightarrow> store64 a v m x = m x"
  by (simp add: store64_def store_le_def)

lemma memset_out: "n \<le> x - p \<Longrightarrow> memset p v n m x = m x"
  by (simp add: memset_def leD)

lemma memcpy_out: "n \<le> x - dst \<Longrightarrow> memcpy dst src n m x = m x"
  by (simp add: memcpy_def leD)

text \<open>Offsets of a block that does not wrap.\<close>

lemma unat_offset:
  assumes "unat base + n \<le> 2 ^ 64" "k < n"
  shows "unat (base + word_of_nat k :: u64) = unat base + k"
  using assms by (subst unat_add64) (simp_all add: unat_of_nat64)

lemma unat_diff_below:
  assumes "unat x < unat p"
  shows "unat (x - p :: u64) = unat x + 2 ^ 64 - unat p"
  using assms by (simp add: unat_sub_if' not_le)

text \<open>Membership in a block of n bytes, by addresses.\<close>

lemma block_iff:
  assumes "unat p + n \<le> 2 ^ 64"
  shows "unat (x - p :: u64) < n \<longleftrightarrow> unat p \<le> unat x \<and> unat x < unat p + n"
proof (cases "unat p \<le> unat x")
  case True
  then show ?thesis by (auto simp: unat_sub64)
next
  case False
  then have "unat (x - p) = unat x + 2 ^ 64 - unat p" by (intro unat_diff_below) simp
  then show ?thesis using assms False by linarith
qed

lemma load64_store64_other:
  assumes "8 \<le> unat (b - a)" "unat (b - a) \<le> 2 ^ 64 - 8"
  shows "load64 b (store64 a v m) = load64 b m"
proof -
  have "8 \<le> unat (b + word_of_nat i - a)" if "i < 8" for i
  proof -
    have "b + word_of_nat i - a = (b - a) + word_of_nat i" by simp
    moreover have "unat ((b - a) + word_of_nat i) = unat (b - a) + i"
      using that assms by (intro unat_offset [of _ 8]) simp_all
    ultimately have "unat (b + word_of_nat i - a) = unat (b - a) + i" by (simp only:)
    then show ?thesis using assms(1) by simp
  qed
  then have "load_le 8 b (store64 a v m) = load_le 8 b m"
    by (intro load_le_cong store64_out)
  then show ?thesis by (simp add: load64_def)
qed

lemma load64_cong:
  assumes "\<And>x. unat (x - a) < 8 \<Longrightarrow> m x = m' x"
  shows "load64 a m = load64 a m'"
proof -
  have "load_le 8 a m = load_le 8 a m'"
    by (intro load_le_cong assms) (simp add: unat_of_nat64)
  then show ?thesis by (simp add: load64_def)
qed

text \<open>Blocks of bytes as lists, and little-endian numbers in them.\<close>

definition store_bytes :: "u64 \<Rightarrow> u8 list \<Rightarrow> bytes \<Rightarrow> bytes" where
  "store_bytes a bs m = (\<lambda>x. let i = unat (x - a) in if i < length bs then bs ! i else m x)"

definition load_bytes :: "u64 \<Rightarrow> nat \<Rightarrow> bytes \<Rightarrow> u8 list" where
  "load_bytes a n m = map (\<lambda>i. m (a + word_of_nat i)) [0..<n]"

definition le_bytes :: "nat \<Rightarrow> nat \<Rightarrow> u8 list" where
  "le_bytes n v = map (\<lambda>i. word_of_nat (v div 256 ^ i)) [0..<n]"

definition le_value :: "u8 list \<Rightarrow> nat" where
  "le_value bs = (\<Sum>i < length bs. unat (bs ! i) * 256 ^ i)"

lemma length_bytes [simp]: "length (le_bytes n v) = n" "length (load_bytes a n m) = n"
  by (simp_all add: le_bytes_def load_bytes_def)

lemma load_store_bytes: "length bs < 2 ^ 64 \<Longrightarrow> load_bytes a (length bs) (store_bytes a bs m) = bs"
proof (rule nth_equalityI)
  fix i assume len: "length bs < 2 ^ 64" and i: "i < length (load_bytes a (length bs) (store_bytes a bs m))"
  have "unat (word_of_nat i :: u64) = i" by (rule unat_of_nat64) (use len i in simp)
  then show "load_bytes a (length bs) (store_bytes a bs m) ! i = bs ! i" using i by (simp add: load_bytes_def store_bytes_def)
qed simp

lemma le_value_le_bytes: "le_value (le_bytes n v) = v mod 256 ^ n"
proof -
  have digit: "unat (word_of_nat k :: u8) = k mod 256" for k by (simp add: unsigned_of_nat take_bit_eq_mod)
  have "le_value (le_bytes n v) = (\<Sum>i<n. (v div 256 ^ i mod 256) * 256 ^ i)"
    unfolding le_value_def length_bytes by (rule sum.cong) (simp_all add: le_bytes_def digit)
  then show ?thesis by (simp add: digits_sum)
qed

lemma le_bytes_inject: "v < 256 ^ n \<Longrightarrow> w < 256 ^ n \<Longrightarrow> le_bytes n v = le_bytes n w \<Longrightarrow> v = w"
  by (metis le_value_le_bytes mod_less)

end
