(* ===== verification/Simulation.thy ===== *)
theory Simulation
  imports Monza_Prelude
begin

text \<open>
  Functional refinement, shared by the components: a detailed operation that may fault
  implements an abstract one when, on every state with the invariant, it returns, gives the
  same answer, keeps the invariant and commutes with the abstraction.  The locale carries
  this from one operation to every sequence of operations.
\<close>

primrec run_ops :: "('op \<Rightarrow> 's \<Rightarrow> ('r \<times> 's) result) \<Rightarrow> 'op list \<Rightarrow> 's \<Rightarrow> ('r list \<times> 's) result" where
  "run_ops step [] s = Inr ([], s)"
| "run_ops step (op # ops) s =
    res_bind (step op s) (\<lambda>(r, s1). res_bind (run_ops step ops s1) (\<lambda>(rs, s2). Inr (r # rs, s2)))"

primrec spec_ops :: "('op \<Rightarrow> 'a \<Rightarrow> 'r \<times> 'a) \<Rightarrow> 'op list \<Rightarrow> 'a \<Rightarrow> 'r list \<times> 'a" where
  "spec_ops spec [] a = ([], a)"
| "spec_ops spec (op # ops) a =
    (let (r, a1) = spec op a; (rs, a2) = spec_ops spec ops a1 in (r # rs, a2))"

locale simulation =
  fixes step :: "'op \<Rightarrow> 's \<Rightarrow> ('r \<times> 's) result"
    and spec :: "'op \<Rightarrow> 'a \<Rightarrow> 'r \<times> 'a"
    and abs :: "'s \<Rightarrow> 'a"
    and inv :: "'s \<Rightarrow> bool"
  assumes step_sim: "inv s \<Longrightarrow> \<exists>r s'. step op s = Inr (r, s') \<and> inv s' \<and> spec op (abs s) = (r, abs s')"
begin

lemma run_sim: "inv s \<Longrightarrow> \<exists>rs s'. run_ops step ops s = Inr (rs, s') \<and> inv s' \<and> spec_ops spec ops (abs s) = (rs, abs s')"
proof (induction ops arbitrary: s)
  case (Cons op ops)
  obtain r s1 where 1: "step op s = Inr (r, s1)" "inv s1" "spec op (abs s) = (r, abs s1)"
    using step_sim [OF Cons.prems] by blast
  obtain rs s2 where 2: "run_ops step ops s1 = Inr (rs, s2)" "inv s2" "spec_ops spec ops (abs s1) = (rs, abs s2)"
    using Cons.IH [OF 1(2)] by blast
  show ?case using 1 2 by simp
qed simp

end

end
