(* ===== verification/Thread_Local.thy ===== *)
theory Thread_Local
  imports Ownership Byte_Memory Simulation
begin

text \<open>
  Thread-local storage: the region of initialised data, zeroed data and thread control
  block (\<open>crt/tls.cc\<close>), and the dynamic slots of \<open>crt/thread.cc\<close>.  The linker symbols
  \<open>__tdata_start\<close>, \<open>__tdata_end\<close> and \<open>__tbss_size\<close> are the record \<open>tls_layout\<close>;
  \<open>aligned_size\<close>, the allocators and \<open>free\<close> are snmalloc's and are parameters.  The thread
  control block is four little-endian words in the byte memory, as the code lays it out.
\<close>

record tls_layout =
  tdata_start :: u64
  tdata_end :: u64
  tbss_size :: u64
  aligned_size :: "u64 \<Rightarrow> u64 \<Rightarrow> u64"

definition TBSS_ALIGNMENT :: u64 where
  "TBSS_ALIGNMENT = 4096"

definition sizeof_TCB :: u64 where
  "sizeof_TCB = 32"

definition store_tcb :: "u64 \<Rightarrow> TCB \<Rightarrow> bytes \<Rightarrow> bytes" where
  "store_tcb p t m =
    store64 (p + 24) (tcb_compartment t) (store64 (p + 16) (stack_limit_high t)
      (store64 (p + 8) (stack_limit_low t) (store64 p (self_ptr t) m)))"

definition load_tcb :: "u64 \<Rightarrow> bytes \<Rightarrow> TCB" where
  "load_tcb p m = \<lparr>self_ptr = load64 p m, stack_limit_low = load64 (p + 8) m,
     stack_limit_high = load64 (p + 16) m, tcb_compartment = load64 (p + 24) m\<rparr>"

definition get_initialized_tls_size :: "tls_layout \<Rightarrow> u64" where
  "get_initialized_tls_size l = tdata_end l - tdata_start l"

definition get_initialized_tls_start :: "tls_layout \<Rightarrow> u64" where
  "get_initialized_tls_start l = tdata_start l"

definition get_uninitialized_tls_size :: "tls_layout \<Rightarrow> u64" where
  "get_uninitialized_tls_size l = tbss_size l"

definition get_uninitialized_tls_offset :: "env \<Rightarrow> tls_layout \<Rightarrow> u64" where
  "get_uninitialized_tls_offset E l = align_up E (tdata_end l) TBSS_ALIGNMENT - tdata_start l"

definition get_tls_size :: "env \<Rightarrow> tls_layout \<Rightarrow> u64" where
  "get_tls_size E l = aligned_size l TBSS_ALIGNMENT (tbss_size l) + get_uninitialized_tls_offset E l"

definition get_tls_alloc_size :: "env \<Rightarrow> tls_layout \<Rightarrow> u64" where
  "get_tls_alloc_size E l = get_tls_size E l + sizeof_TCB"

definition initialize_tls :: "env \<Rightarrow> tls_layout \<Rightarrow> CompartmentOwner \<Rightarrow> u64 \<Rightarrow> u64 \<Rightarrow> u64 \<Rightarrow> bytes \<Rightarrow> u64 \<times> bytes" where
  "initialize_tls E l compartment tls_alloc_base limit_low limit_high m =
    (let m1 = memcpy tls_alloc_base (get_initialized_tls_start l) (get_initialized_tls_size l) m;
         total_size = get_tls_size E l;
         m2 = memset (tls_alloc_base + get_uninitialized_tls_offset E l) 0 (get_uninitialized_tls_size l) m1;
         tls_base = tls_alloc_base + total_size in
     (tls_base, store_tcb tls_base \<lparr>self_ptr = tls_base, stack_limit_low = limit_low,
        stack_limit_high = limit_high, tcb_compartment = compartment\<rparr> m2))"

text \<open>The two allocators and \<open>free\<close>; an allocation returns memory set to zero, or null.\<close>

record 'h tls_heap =
  early_alloc_zero :: "u64 \<Rightarrow> 'h \<times> bytes \<Rightarrow> u64 \<times> 'h \<times> bytes"
  thread_alloc_zero :: "u64 \<Rightarrow> 'h \<times> bytes \<Rightarrow> u64 \<times> 'h \<times> bytes"
  heap_free :: "u64 \<Rightarrow> 'h \<times> bytes \<Rightarrow> 'h \<times> bytes"

definition create_tls ::
  "env \<Rightarrow> tls_layout \<Rightarrow> 'h tls_heap \<Rightarrow> bool \<Rightarrow> u64 \<Rightarrow> u64 \<Rightarrow> 'h \<times> bytes \<Rightarrow> (u64 \<times> 'h \<times> bytes) result" where
  "create_tls E l A is_early limit_low limit_high s =
    (let (tls_alloc_base, h, m) =
       (if is_early then early_alloc_zero A (get_tls_alloc_size E l) s
        else thread_alloc_zero A (get_tls_alloc_size E l) s) in
     if tls_alloc_base = 0 then Inl KAbort
     else let (p, m1) = initialize_tls E l null_owner tls_alloc_base limit_low limit_high m in Inr (p, h, m1))"

definition free_tls :: "env \<Rightarrow> tls_layout \<Rightarrow> 'h tls_heap \<Rightarrow> u64 \<Rightarrow> 'h \<times> bytes \<Rightarrow> 'h \<times> bytes" where
  "free_tls E l A tls s = heap_free A (tls - get_tls_size E l) s"

text \<open>The dynamic slots as one execution context sees them.\<close>

definition GLOBAL_DYNAMIC_TLS_SIZE :: u64 where
  "GLOBAL_DYNAMIC_TLS_SIZE = 256"

definition COMPARTMENT_DYNAMIC_TLS_SIZE :: u64 where
  "COMPARTMENT_DYNAMIC_TLS_SIZE = 256"

definition DYNAMIC_TLS_SIZE :: u64 where
  "DYNAMIC_TLS_SIZE = GLOBAL_DYNAMIC_TLS_SIZE + COMPARTMENT_DYNAMIC_TLS_SIZE"

record tls_slots =
  dynamic_tls :: "u64 list"
  current_dynamic_tls_slot :: u16
  compartment_dynamic_tls_slot :: u16

definition tls_slots_init :: tls_slots where
  "tls_slots_init = \<lparr>dynamic_tls = replicate (unat DYNAMIC_TLS_SIZE) 0, current_dynamic_tls_slot = 0,
     compartment_dynamic_tls_slot = ucast GLOBAL_DYNAMIC_TLS_SIZE\<rparr>"

definition allocate_tls_slot :: "TCB option \<Rightarrow> tls_slots \<Rightarrow> u16 option \<times> tls_slots" where
  "allocate_tls_slot tcb s =
    (if is_compartment tcb then
       (if ucast (compartment_dynamic_tls_slot s) = DYNAMIC_TLS_SIZE - 1 then (None, s)
        else (Some (compartment_dynamic_tls_slot s),
          s\<lparr>compartment_dynamic_tls_slot := compartment_dynamic_tls_slot s + 1\<rparr>))
     else
       (if ucast (current_dynamic_tls_slot s) = GLOBAL_DYNAMIC_TLS_SIZE - 1 then (None, s)
        else (Some (current_dynamic_tls_slot s),
          s\<lparr>current_dynamic_tls_slot := current_dynamic_tls_slot s + 1\<rparr>)))"

definition is_slot_valid :: "TCB option \<Rightarrow> u16 \<Rightarrow> tls_slots \<Rightarrow> bool" where
  "is_slot_valid tcb key s =
    (if is_compartment tcb then
       (if compartment_dynamic_tls_slot s \<le> key then False
        else if current_dynamic_tls_slot s \<le> key \<and> ucast key < GLOBAL_DYNAMIC_TLS_SIZE then False
        else True)
     else if current_dynamic_tls_slot s \<le> key then False
     else True)"

definition get_tls_slot :: "TCB option \<Rightarrow> u16 \<Rightarrow> tls_slots \<Rightarrow> u64 result" where
  "get_tls_slot tcb key s =
    (if is_slot_valid tcb key s then
       (if unat key < length (dynamic_tls s) then Inr (dynamic_tls s ! unat key) else Inl Undefined)
     else Inr 0)"

definition set_tls_slot :: "TCB option \<Rightarrow> u16 \<Rightarrow> u64 \<Rightarrow> tls_slots \<Rightarrow> (bool \<times> tls_slots) result" where
  "set_tls_slot tcb key data s =
    (if is_slot_valid tcb key s then
       (if unat key < length (dynamic_tls s) then Inr (True, s\<lparr>dynamic_tls := (dynamic_tls s)[unat key := data]\<rparr>)
        else Inl Undefined)
     else Inr (False, s))"

lemma load_store_tcb [simp]: "load_tcb p (store_tcb p t m) = t"
  by (simp add: load_tcb_def store_tcb_def load64_store64_other)

lemma store_tcb_out: "32 \<le> unat (x - p) \<Longrightarrow> store_tcb p t m x = m x"
proof -
  assume x: "32 \<le> unat (x - p)"
  have "8 \<le> unat (x - (p + c))" if "unat c \<le> 24" for c
  proof -
    have "x - (p + c) = (x - p) - c" by simp
    then have "unat (x - (p + c)) = unat (x - p) - unat c" using x that by (simp only: unat_sub64)
    then show ?thesis using x that by simp
  qed
  from this [of 0] this [of 8] this [of 16] this [of 24] show ?thesis
    by (simp add: store_tcb_def store64_out)
qed

text \<open>The distance from the initialised to the zeroed data.\<close>

definition tls_off :: "tls_layout \<Rightarrow> nat" where
  "tls_off l = up_to 4096 (unat (tdata_end l)) - unat (tdata_start l)"

text \<open>
  What the layout needs of the linker script and of \<open>aligned_size\<close>: the symbols are in
  order, nothing wraps, and \<open>aligned_size\<close> rounds a size up to its alignment.
\<close>

locale tls_region = snmalloc_env E for E :: env +
  fixes l :: tls_layout
  assumes symbols: "unat (tdata_start l) \<le> unat (tdata_end l)" "unat (tdata_end l) + 4096 \<le> 2 ^ 64"
    and sizes: "up_to 4096 (unat (tdata_end l)) - unat (tdata_start l) + up_to 4096 (unat (tbss_size l)) + 32 < 2 ^ 64"
    and aligned_size: "unat n + 4096 \<le> 2 ^ 64 \<Longrightarrow> unat (aligned_size l 4096 n) = up_to 4096 (unat n)"
begin

lemma tls_offset: "unat (get_uninitialized_tls_offset E l) = tls_off l"
proof -
  have "unat (align_up E (tdata_end l) 4096) = up_to 4096 (unat (tdata_end l))"
    using align_up [of 4096 "tdata_end l"] symbols by simp
  moreover have "unat (tdata_end l) \<le> up_to 4096 (unat (tdata_end l))" by (intro up_to_ge) simp
  ultimately show ?thesis using symbols
    by (simp add: get_uninitialized_tls_offset_def TBSS_ALIGNMENT_def tls_off_def unat_sub64)
qed

lemma tls_initialized: "unat (get_initialized_tls_size l) = unat (tdata_end l) - unat (tdata_start l)"
  using symbols by (simp add: get_initialized_tls_size_def unat_sub64)

lemma tls_initialized_fits: "unat (get_initialized_tls_size l) \<le> tls_off l"
  using symbols up_to_ge [of 4096 "unat (tdata_end l)"] by (simp add: tls_initialized tls_off_def)

lemma tls_size: "unat (get_tls_size E l) = tls_off l + up_to 4096 (unat (tbss_size l))"
proof -
  have b: "unat (tbss_size l) \<le> up_to 4096 (unat (tbss_size l))" by (intro up_to_ge) simp
  have "unat (tbss_size l) + 4096 \<le> 2 ^ 64"
  proof (rule ccontr)
    assume "\<not> unat (tbss_size l) + 4096 \<le> 2 ^ 64"
    then have "2 ^ 64 - 4096 < up_to 4096 (unat (tbss_size l))" using b by simp
    moreover have "4096 dvd up_to 4096 (unat (tbss_size l))" "4096 dvd (2 ^ 64 - 4096 :: nat)" by simp_all
    ultimately have "2 ^ 64 - 4096 + 4096 \<le> up_to 4096 (unat (tbss_size l))" by (intro dvd_less_step)
    then show False using sizes by simp
  qed
  then have a: "unat (aligned_size l 4096 (tbss_size l)) = up_to 4096 (unat (tbss_size l))" by (rule aligned_size)
  show ?thesis using sizes a tls_offset
    by (simp add: get_tls_size_def TBSS_ALIGNMENT_def tls_off_def unat_add64)
qed

lemma tls_alloc_size: "unat (get_tls_alloc_size E l) = unat (get_tls_size E l) + 32"
  using sizes tls_size
  by (simp add: get_tls_alloc_size_def sizeof_TCB_def tls_off_def unat_add64)

end

context tls_region
begin

lemma initialize_block:
  assumes base: "unat base + unat (get_tls_alloc_size E l) \<le> 2 ^ 64"
    and init: "initialize_tls E l c base lo hi m = (p, m')"
  shows "unat p = unat base + unat (get_tls_size E l)"
    and "load_tcb p m' = \<lparr>self_ptr = p, stack_limit_low = lo, stack_limit_high = hi, tcb_compartment = c\<rparr>"
    and "unat x < unat p \<or> unat p + 32 \<le> unat x \<Longrightarrow>
      m' x = (if unat base + tls_off l \<le> unat x \<and> unat x < unat base + tls_off l + unat (tbss_size l) then 0
        else if unat base \<le> unat x \<and> unat x < unat base + unat (get_initialized_tls_size l)
        then m (tdata_start l + (x - base)) else m x)"
proof -
  have p: "p = base + get_tls_size E l" using init by (simp add: initialize_tls_def Let_def)
  show up: "unat p = unat base + unat (get_tls_size E l)"
    using base tls_alloc_size by (simp add: p unat_add64)
  show "load_tcb p m' = \<lparr>self_ptr = p, stack_limit_low = lo, stack_limit_high = hi, tcb_compartment = c\<rparr>"
    using init by (auto simp: initialize_tls_def Let_def)
  assume x: "unat x < unat p \<or> unat p + 32 \<le> unat x"
  have bound: "unat (tbss_size l) \<le> up_to 4096 (unat (tbss_size l))" by (intro up_to_ge) simp
  have uoff: "unat (base + get_uninitialized_tls_offset E l) = unat base + tls_off l"
    using base tls_alloc_size tls_size tls_offset by (subst unat_add64) simp_all
  have b1: "32 \<le> unat (x - p)"
    using x base up tls_alloc_size block_iff [of p 32 x] by linarith
  have b2: "unat (x - (base + get_uninitialized_tls_offset E l)) < unat (tbss_size l) \<longleftrightarrow>
      unat base + tls_off l \<le> unat x \<and> unat x < unat base + tls_off l + unat (tbss_size l)"
    using base tls_alloc_size tls_size uoff bound by (subst block_iff) simp_all
  have b3: "unat (x - base) < unat (get_initialized_tls_size l) \<longleftrightarrow>
      unat base \<le> unat x \<and> unat x < unat base + unat (get_initialized_tls_size l)"
    using base tls_alloc_size tls_size tls_initialized_fits by (subst block_iff) simp_all
  have "m' x = (if unat (x - (base + get_uninitialized_tls_offset E l)) < unat (tbss_size l) then 0
      else if unat (x - base) < unat (get_initialized_tls_size l) then m (tdata_start l + (x - base)) else m x)"
    using init b1 by (auto simp: initialize_tls_def Let_def store_tcb_out memset_def memcpy_def word_less_nat
      get_uninitialized_tls_size_def get_initialized_tls_start_def)
  then show "m' x = (if unat base + tls_off l \<le> unat x \<and> unat x < unat base + tls_off l + unat (tbss_size l) then 0
      else if unat base \<le> unat x \<and> unat x < unat base + unat (get_initialized_tls_size l)
      then m (tdata_start l + (x - base)) else m x)"
    by (simp only: b2 b3)
qed

lemma initialize_data:
  assumes base: "unat base + unat (get_tls_alloc_size E l) \<le> 2 ^ 64"
    and init: "initialize_tls E l c base lo hi m = (p, m')"
  shows "i < get_initialized_tls_size l \<Longrightarrow> m' (base + i) = m (get_initialized_tls_start l + i)"
    and "i < get_uninitialized_tls_size l \<Longrightarrow> m' (base + get_uninitialized_tls_offset E l + i) = 0"
    and "get_tls_alloc_size E l \<le> x - base \<Longrightarrow> m' x = m x"
proof -
  note blk = initialize_block [OF base init]
  have bound: "unat (tbss_size l) \<le> up_to 4096 (unat (tbss_size l))" by (intro up_to_ge) simp
  note nums = base tls_alloc_size tls_size tls_initialized_fits bound blk(1)
  show "m' (base + i) = m (get_initialized_tls_start l + i)" if "i < get_initialized_tls_size l"
  proof -
    have i: "unat i < unat (get_initialized_tls_size l)" using that by (simp add: word_less_nat)
    then have "unat (base + i) = unat base + unat i" using nums by (subst unat_add64) simp_all
    then show ?thesis using i nums by (subst blk(3)) (simp_all add: get_initialized_tls_start_def)
  qed
  show "m' (base + get_uninitialized_tls_offset E l + i) = 0" if "i < get_uninitialized_tls_size l"
  proof -
    have i: "unat i < unat (tbss_size l)" using that by (simp add: word_less_nat get_uninitialized_tls_size_def)
    have u: "unat (base + get_uninitialized_tls_offset E l) = unat base + tls_off l"
      using nums tls_offset by (subst unat_add64) simp_all
    have "unat (base + get_uninitialized_tls_offset E l + i) = unat base + tls_off l + unat i"
      using i u nums by (subst unat_add64) simp_all
    then show ?thesis using i nums by (subst blk(3)) simp_all
  qed
  show "m' x = m x" if "get_tls_alloc_size E l \<le> x - base"
  proof -
    have "unat x < unat base \<or> unat base + unat (get_tls_alloc_size E l) \<le> unat x"
      using that block_iff [OF base, of x] by (simp add: word_le_nat) linarith
    then have o: "unat x < unat base \<or> unat p + 32 \<le> unat x" using nums by linarith
    then have "unat x < unat p \<or> unat p + 32 \<le> unat x" using nums by linarith
    then show ?thesis using o nums by (subst blk(3)) auto
  qed
qed

end

text \<open>
  The promise of the dynamic slots: two growing tables of values, one of slots made outside
  compartments (keys from 0) and one of slots made by the compartment (keys from 256); a
  context outside compartments sees the first only.  Each table holds at most 255 slots.
\<close>

datatype slot_op = SlotAllocate | SlotGet u16 | SlotSet u16 u64

datatype slot_answer = Key "u16 option" | Value u64 | Stored bool

definition slot_step :: "TCB option \<Rightarrow> slot_op \<Rightarrow> tls_slots \<Rightarrow> (slot_answer \<times> tls_slots) result" where
  "slot_step tcb op s =
    (case op of
       SlotAllocate \<Rightarrow> (let (k, s1) = allocate_tls_slot tcb s in Inr (Key k, s1))
     | SlotGet k \<Rightarrow> res_bind (get_tls_slot tcb k s) (\<lambda>v. Inr (Value v, s))
     | SlotSet k v \<Rightarrow> res_bind (set_tls_slot tcb k v s) (\<lambda>(b, s1). Inr (Stored b, s1)))"

definition slot_known :: "bool \<Rightarrow> nat \<Rightarrow> u64 list \<times> u64 list \<Rightarrow> bool" where
  "slot_known inside k a \<longleftrightarrow> k < length (fst a) \<or> inside \<and> 256 \<le> k \<and> k < 256 + length (snd a)"

definition slot_spec :: "bool \<Rightarrow> slot_op \<Rightarrow> u64 list \<times> u64 list \<Rightarrow> slot_answer \<times> u64 list \<times> u64 list" where
  "slot_spec inside op a =
    (case op of
       SlotAllocate \<Rightarrow>
         (if inside then
            (if length (snd a) = 255 then (Key None, a)
             else (Key (Some (word_of_nat (256 + length (snd a)))), fst a, snd a @ [0]))
          else if length (fst a) = 255 then (Key None, a)
          else (Key (Some (word_of_nat (length (fst a)))), fst a @ [0], snd a))
     | SlotGet k \<Rightarrow>
         (Value (if \<not> slot_known inside (unat k) a then 0
            else if unat k < 256 then fst a ! unat k else snd a ! (unat k - 256)), a)
     | SlotSet k v \<Rightarrow>
         (if \<not> slot_known inside (unat k) a then (Stored False, a)
          else if unat k < 256 then (Stored True, (fst a)[unat k := v], snd a)
          else (Stored True, fst a, (snd a)[unat k - 256 := v])))"

definition slots_abs :: "tls_slots \<Rightarrow> u64 list \<times> u64 list" where
  "slots_abs s = (take (unat (current_dynamic_tls_slot s)) (dynamic_tls s),
     take (unat (compartment_dynamic_tls_slot s) - 256) (drop 256 (dynamic_tls s)))"

definition slots_ok :: "tls_slots \<Rightarrow> bool" where
  "slots_ok s \<longleftrightarrow> length (dynamic_tls s) = 512 \<and> unat (current_dynamic_tls_slot s) \<le> 255 \<and>
    256 \<le> unat (compartment_dynamic_tls_slot s) \<and> unat (compartment_dynamic_tls_slot s) \<le> 511 \<and>
    (\<forall>k < 256. unat (current_dynamic_tls_slot s) \<le> k \<longrightarrow> dynamic_tls s ! k = 0) \<and>
    (\<forall>k < 512. unat (compartment_dynamic_tls_slot s) \<le> k \<longrightarrow> dynamic_tls s ! k = 0)"

lemma slots_ok_init: "slots_ok tls_slots_init" "slots_abs tls_slots_init = ([], [])"
  by (simp_all add: slots_ok_def slots_abs_def tls_slots_init_def DYNAMIC_TLS_SIZE_def
    GLOBAL_DYNAMIC_TLS_SIZE_def COMPARTMENT_DYNAMIC_TLS_SIZE_def)

lemma unat_ucast16: "unat (ucast (k :: u16) :: u64) = unat k"
  by transfer simp

lemma ucast16_eq: "(ucast (k :: u16) :: u64) = n \<longleftrightarrow> unat k = unat n"
  by (simp add: word_eq_nat [of "ucast k :: u64"] unat_ucast16)

lemma unat_succ16: "unat (k :: u16) < 65535 \<Longrightarrow> unat (k + 1) = unat k + 1"
  by (simp add: unat_word_ariths)

lemma slots_abs_length:
  "slots_ok s \<Longrightarrow> length (fst (slots_abs s)) = unat (current_dynamic_tls_slot s)"
  "slots_ok s \<Longrightarrow> length (snd (slots_abs s)) = unat (compartment_dynamic_tls_slot s) - 256"
  by (auto simp: slots_ok_def slots_abs_def)

lemma slot_valid_known:
  assumes ok: "slots_ok s"
  shows "is_slot_valid tcb k s = slot_known (is_compartment tcb) (unat k) (slots_abs s)"
    and "is_slot_valid tcb k s \<Longrightarrow> unat k < 512"
proof -
  show v: "is_slot_valid tcb k s = slot_known (is_compartment tcb) (unat k) (slots_abs s)"
    using ok unfolding is_slot_valid_def slot_known_def slots_abs_length [OF ok] slots_ok_def
    by (auto simp: word_nat GLOBAL_DYNAMIC_TLS_SIZE_def unat_ucast16)
  show "unat k < 512" if "is_slot_valid tcb k s"
    using that ok unfolding v slot_known_def slots_abs_length [OF ok] slots_ok_def by auto
qed

lemma slot_allocate_sim:
  assumes ok: "slots_ok s" and run: "allocate_tls_slot tcb s = (k, s')"
  shows "slots_ok s'" and "slot_spec (is_compartment tcb) SlotAllocate (slots_abs s) = (Key k, slots_abs s')"
proof -
  let ?c = "current_dynamic_tls_slot s" and ?p = "compartment_dynamic_tls_slot s"
  have full: "(ucast ?p = DYNAMIC_TLS_SIZE - 1) = (unat ?p = 511)" "(ucast ?c = GLOBAL_DYNAMIC_TLS_SIZE - 1) = (unat ?c = 255)"
    by (simp_all add: ucast16_eq DYNAMIC_TLS_SIZE_def GLOBAL_DYNAMIC_TLS_SIZE_def COMPARTMENT_DYNAMIC_TLS_SIZE_def)
  have n: "unat (?c + 1) = unat ?c + 1" "unat (?p + 1) = unat ?p + 1"
    using ok by (simp_all add: slots_ok_def unat_succ16)
  have len: "(length (snd (slots_abs s)) = 255) = (unat ?p = 511)" "(length (fst (slots_abs s)) = 255) = (unat ?c = 255)"
    "256 + length (snd (slots_abs s)) = unat ?p"
    using ok unfolding slots_abs_length [OF ok] slots_ok_def by auto
  have "(256 :: u16) + word_of_nat (unat ?p - 256) = word_of_nat (256 + (unat ?p - 256))"
    by (simp only: of_nat_add of_nat_numeral)
  also have "\<dots> = ?p" using ok by (simp add: slots_ok_def del: of_nat_add)
  finally have key: "256 + word_of_nat (unat ?p - 256) = ?p" .
  have take_p: "take (unat ?p + 1 - 256) (drop 256 (dynamic_tls s)) = take (unat ?p - 256) (drop 256 (dynamic_tls s)) @ [0]"
    if "unat ?p \<noteq> 511"
  proof -
    obtain j where j: "unat ?p = 256 + j" using ok by (auto simp: slots_ok_def dest: le_Suc_ex)
    then have "j < 255" "dynamic_tls s ! (256 + j) = 0" "length (dynamic_tls s) = 512"
      using ok that by (auto simp: slots_ok_def)
    then show ?thesis by (simp add: j take_Suc_conv_app_nth)
  qed
  have take_c: "take (unat ?c + 1) (dynamic_tls s) = take (unat ?c) (dynamic_tls s) @ [0]" if "unat ?c \<noteq> 255"
    using ok that by (simp add: slots_ok_def take_Suc_conv_app_nth)
  show "slots_ok s'"
    using ok run n unfolding allocate_tls_slot_def full slots_ok_def by (auto split: if_splits)
  show "slot_spec (is_compartment tcb) SlotAllocate (slots_abs s) = (Key k, slots_abs s')"
    using run n take_p take_c unfolding allocate_tls_slot_def full slot_spec_def len slots_abs_length [OF ok]
    by (auto simp: slots_abs_def len slots_abs_length [OF ok] key split: if_splits)
qed

lemma slot_set_sim:
  fixes v :: u64
  assumes ok: "slots_ok s" and v: "is_slot_valid tcb k s"
  defines "s' \<equiv> s\<lparr>dynamic_tls := (dynamic_tls s)[unat k := v]\<rparr>"
  shows "slots_ok s'" and "slot_spec (is_compartment tcb) (SlotSet k v) (slots_abs s) = (Stored True, slots_abs s')"
proof -
  note known = v [unfolded slot_valid_known(1) [OF ok]]
  have side: "unat k < 256 \<Longrightarrow> unat k < unat (current_dynamic_tls_slot s)"
      "256 \<le> unat k \<Longrightarrow> unat k < unat (compartment_dynamic_tls_slot s)"
    using known ok unfolding slot_known_def slots_abs_length [OF ok] slots_ok_def by auto
  have ne: "unat k \<noteq> j" if "j < 256 \<and> unat (current_dynamic_tls_slot s) \<le> j \<or> unat (compartment_dynamic_tls_slot s) \<le> j" for j
    using side that ok unfolding slots_ok_def by (cases "unat k < 256") auto
  show "slots_ok s'"
    using ok ne unfolding slots_ok_def s'_def by simp
  show "slot_spec (is_compartment tcb) (SlotSet k v) (slots_abs s) = (Stored True, slots_abs s')"
  proof (cases "unat k < 256")
    case True
    then show ?thesis using known unfolding slot_spec_def slots_abs_def s'_def by (simp add: take_update_swap)
  next
    case False
    moreover have "unat (current_dynamic_tls_slot s) \<le> unat k" using False ok by (simp add: slots_ok_def)
    ultimately show ?thesis using known unfolding slot_spec_def slots_abs_def s'_def
      by (simp add: take_update_swap drop_update_swap list_update_beyond min_le_iff_disj)
  qed
qed

lemma slot_get_sim:
  assumes ok: "slots_ok s" and v: "is_slot_valid tcb k s"
  shows "slot_spec (is_compartment tcb) (SlotGet k) (slots_abs s) = (Value (dynamic_tls s ! unat k), slots_abs s)"
proof -
  note known = v [unfolded slot_valid_known(1) [OF ok]]
  have side: "unat k < 256 \<Longrightarrow> unat k < unat (current_dynamic_tls_slot s)"
      "256 \<le> unat k \<Longrightarrow> unat k - 256 < unat (compartment_dynamic_tls_slot s) - 256"
    using known ok unfolding slot_known_def slots_abs_length [OF ok] slots_ok_def by auto
  have len: "length (dynamic_tls s) = 512" using ok by (simp add: slots_ok_def)
  show ?thesis using known side len unfolding slot_spec_def by (auto simp: slots_abs_def)
qed

interpretation slots: simulation "slot_step tcb" "slot_spec (is_compartment tcb)" slots_abs slots_ok
proof
  fix s op assume ok: "slots_ok s"
  have len: "length (dynamic_tls s) = 512" using ok by (simp add: slots_ok_def)
  note valid = slot_valid_known [OF ok]
  show "\<exists>r s'. slot_step tcb op s = Inr (r, s') \<and> slots_ok s' \<and> slot_spec (is_compartment tcb) op (slots_abs s) = (r, slots_abs s')"
  proof (cases op)
    case SlotAllocate
    obtain k s' where a: "allocate_tls_slot tcb s = (k, s')" by (cases "allocate_tls_slot tcb s")
    then show ?thesis using SlotAllocate slot_allocate_sim [OF ok a] by (simp add: slot_step_def)
  next
    case (SlotGet k)
    show ?thesis
    proof (cases "is_slot_valid tcb k s")
      case True
      then show ?thesis using SlotGet ok valid(2) [OF True] len slot_get_sim [OF ok True]
        by (simp add: slot_step_def get_tls_slot_def)
    next
      case False
      then show ?thesis using SlotGet ok valid(1) [of tcb k] by (simp add: slot_step_def get_tls_slot_def slot_spec_def)
    qed
  next
    case (SlotSet k v)
    show ?thesis
    proof (cases "is_slot_valid tcb k s")
      case True
      then show ?thesis using SlotSet valid(2) [OF True] len slot_set_sim [OF ok True]
        by (simp add: slot_step_def set_tls_slot_def)
    next
      case False
      then show ?thesis using SlotSet ok valid(1) [of tcb k] by (simp add: slot_step_def set_tls_slot_def slot_spec_def)
    qed
  qed
qed

lemma free_tls_create:
  assumes "create_tls E l A early lo hi s = Inr (p, h, m)"
  obtains base where "base \<noteq> 0"
    and "fst ((if early then early_alloc_zero A else thread_alloc_zero A) (get_tls_alloc_size E l) s) = base"
    and "free_tls E l A p t = heap_free A base t"
  using assms
  by (auto simp: create_tls_def free_tls_def initialize_tls_def Let_def split: prod.splits if_splits)

text \<open>A concrete layout for the witnesses: a data segment that starts off a page boundary.\<close>

definition sample_tls :: tls_layout where
  "sample_tls = \<lparr>tdata_start = 0x20F10, tdata_end = 0x21008, tbss_size = 0x30,
     aligned_size = (\<lambda>a n. (n + (a - 1)) - (n + (a - 1)) mod a)\<rparr>"

lemma sample_tls_region: "tls_region (rounding_env 4096) sample_tls"
proof (intro tls_region.intro tls_region_axioms.intro)
  show "snmalloc_env (rounding_env 4096)" by (rule rounding_env_laws) simp
  show "unat (aligned_size sample_tls 4096 n) = up_to 4096 (unat n)" if "unat n + 4096 \<le> 2 ^ 64" for n
    using that small_pages.align_up [of 4096 n] by (simp add: sample_tls_def)
qed (simp_all add: sample_tls_def up_to_def)

interpretation sample: tls_region "rounding_env 4096" sample_tls
  by (rule sample_tls_region)



text \<open>
  C18: every sequence of slot allocations, reads and writes of one context returns and
  answers as two growing tables of values of at most 255 slots each do: an allocated key is
  fresh, a slot reads back what was last written, a key that was never handed out reads as
  null and is not written, and a context outside compartments reaches the first table only.
\<close>

theorem tls_slots_refine:
  assumes "slots_ok s"
  shows "\<exists>rs s'. run_ops (slot_step tcb) ops s = Inr (rs, s') \<and> slots_ok s' \<and>
    spec_ops (slot_spec (is_compartment tcb)) ops (slots_abs s) = (rs, slots_abs s')"
  by (rule slots.run_sim [OF assms])

theorem tls_slots_refine_witness:
  "\<exists>s'. run_ops (slot_step None) [SlotAllocate, SlotSet 0 5, SlotGet 0, SlotGet 1, SlotSet 256 9] tls_slots_init =
    Inr ([Key (Some 0), Stored True, Value 5, Value 0, Stored False], s') \<and> slots_ok s'"
  using tls_slots_refine [OF slots_ok_init(1), of None "[SlotAllocate, SlotSet 0 5, SlotGet 0, SlotGet 1, SlotSet 256 9]"]
  by (auto simp: slots_ok_init(2) slot_spec_def slot_known_def is_compartment_def)

end
