(* ===== verification/Threads.thy ===== *)
theory Threads
  imports Thread_Local
begin

text \<open>
  Cores and threads: the per-core data (\<open>arch/x86_64/inc/per_core_data.h\<close>, \<open>arch/x86_64/cores.cc\<close>), the
  threads on top of it (\<open>crt/thread.cc\<close>), the loop of a secondary core and the halting
  semaphore (\<open>arch/x86_64/cores.asm\<close>), and spinlocks.  Concurrent code is a step relation in which
  each step is one access to shared memory; accesses are taken in one order, as the
  acquire and release orderings and the x86 memory model give for these locations.
\<close>

definition MAX_CORE_COUNT :: u64 where
  "MAX_CORE_COUNT = 256"

record ThreadExecutionContext =
  code_ptr :: u64
  tec_arg :: u64
  tls_ptr :: u64
  stack_ptr :: u64
  done_flag :: u64
  last_stack_ptr :: u64

definition empty_context :: ThreadExecutionContext where
  "empty_context = \<lparr>code_ptr = 0, tec_arg = 0, tls_ptr = 0, stack_ptr = 0, done_flag = 0, last_stack_ptr = 0\<rparr>"

record PerCoreData =
  core_id :: u32
  notification_generation :: u64
  thread_execution_context :: ThreadExecutionContext
  apic_id :: u8

definition per_core_initialize :: "u64 \<Rightarrow> PerCoreData list result" where
  "per_core_initialize core_count =
    (if core_count = 0 \<or> MAX_CORE_COUNT < core_count then Inl KAbort
     else Inr (map (\<lambda>i. \<lparr>core_id = word_of_nat i, notification_generation = 0,
       thread_execution_context = empty_context, apic_id = 0\<rparr>) [0..<unat core_count]))"

definition get_core_count :: "PerCoreData list \<Rightarrow> nat" where
  "get_core_count ds = length ds"

definition per_core_get :: "u64 \<Rightarrow> PerCoreData list \<Rightarrow> PerCoreData result" where
  "per_core_get i ds = (if unat i < length ds then Inr (ds ! unat i) else Inl KAbort)"

definition to_platform :: "u64 \<Rightarrow> PerCoreData list \<Rightarrow> u32 result" where
  "to_platform i ds = (if unat i < length ds then Inr (ucast i) else Inl KAbort)"

definition get_thread_execution_context :: "u64 \<Rightarrow> PerCoreData list \<Rightarrow> ThreadExecutionContext result" where
  "get_thread_execution_context i ds = res_bind (per_core_get i ds) (\<lambda>d. Inr (thread_execution_context d))"

definition core_to_thread :: "u64 \<Rightarrow> u32" where
  "core_to_thread i = ucast (i + 1)"

definition thread_to_core :: "u32 \<Rightarrow> u64" where
  "thread_to_core t = ucast (t - 1)"

definition is_thread_done :: "u32 \<Rightarrow> PerCoreData list \<Rightarrow> bool result" where
  "is_thread_done t ds = res_bind (get_thread_execution_context (thread_to_core t) ds) (\<lambda>x. Inr (done_flag x = 1))"

text \<open>
  \<open>initialize_threads\<close>: each further core gets a stack, a TLS region and the initialiser as its
  first function, and is reset; the second loop waits for the cores.  \<open>malloc\<close> and \<open>init_cpu\<close> are
  parameters.
\<close>

definition setup_core ::
  "env \<Rightarrow> tls_layout \<Rightarrow> 'h tls_heap \<Rightarrow> (u64 \<Rightarrow> 'h \<times> bytes \<Rightarrow> u64 \<times> 'h \<times> bytes) \<Rightarrow> u64 \<Rightarrow> u64 \<Rightarrow> (u32 \<Rightarrow> u64 \<Rightarrow> u64 \<Rightarrow> 'r) \<Rightarrow> nat \<Rightarrow>
   PerCoreData list \<times> 'r list \<times> 'h \<times> bytes \<Rightarrow> (PerCoreData list \<times> 'r list \<times> 'h \<times> bytes) result" where
  "setup_core E l A malloc stack_size core_initializer init_cpu i s =
    (let (ds, log, h) = s;
         (stack_alloc_base, h1) = malloc stack_size h in
     res_bind (create_tls E l A False stack_alloc_base (stack_alloc_base + stack_size) h1) (\<lambda>(tls, h2).
     if i < length ds then
       let c = (thread_execution_context (ds ! i))\<lparr>stack_ptr := stack_alloc_base + stack_size, tls_ptr := tls,
             tec_arg := word_of_nat i, code_ptr := core_initializer\<rparr>;
           ds1 = ds[i := (ds ! i)\<lparr>thread_execution_context := c\<rparr>] in
       Inr (ds1, log @ [init_cpu (word_of_nat i) (stack_ptr c) (tls_ptr c)], h2)
     else Inl KAbort))"

definition initialize_threads ::
  "env \<Rightarrow> tls_layout \<Rightarrow> 'h tls_heap \<Rightarrow> (u64 \<Rightarrow> 'h \<times> bytes \<Rightarrow> u64 \<times> 'h \<times> bytes) \<Rightarrow> u64 \<Rightarrow> u64 \<Rightarrow> (u32 \<Rightarrow> u64 \<Rightarrow> u64 \<Rightarrow> 'r) \<Rightarrow>
   PerCoreData list \<times> 'r list \<times> 'h \<times> bytes \<Rightarrow> (PerCoreData list \<times> 'r list \<times> 'h \<times> bytes) result" where
  "initialize_threads E l A malloc stack_size core_initializer init_cpu s =
    res_fold (setup_core E l A malloc stack_size core_initializer init_cpu) [1..<get_core_count (fst s)] s"

text \<open>The loop of a secondary core, one access per step; the history of what it ran is kept beside it.\<close>

datatype core_pc = Poll | Fetch u64 | IncExecuting u64 u64 | ClearDone u64 u64 | ClearCode u64 u64 | Running u64 u64 | SetDone | DecExecuting

record core =
  c_code :: u64
  c_arg :: u64
  c_done :: u64
  c_pc :: core_pc
  c_started :: "(u64 \<times> u64) list"
  c_finished :: nat

definition ap_reset_loop :: "core \<times> u64 \<Rightarrow> core \<times> u64" where
  "ap_reset_loop s =
    (let (c, executing_cores) = s in
     case c_pc c of
       Poll \<Rightarrow> (if c_code c \<noteq> 0 then (c\<lparr>c_pc := Fetch (c_code c)\<rparr>, executing_cores) else (c, executing_cores))
     | Fetch f \<Rightarrow> (c\<lparr>c_pc := IncExecuting f (c_arg c)\<rparr>, executing_cores)
     | IncExecuting f a \<Rightarrow> (c\<lparr>c_pc := ClearDone f a\<rparr>, executing_cores + 1)
     | ClearDone f a \<Rightarrow> (c\<lparr>c_done := 0, c_pc := ClearCode f a\<rparr>, executing_cores)
     | ClearCode f a \<Rightarrow> (c\<lparr>c_code := 0, c_pc := Running f a, c_started := c_started c @ [(f, a)]\<rparr>, executing_cores)
     | Running f a \<Rightarrow> (c\<lparr>c_pc := SetDone, c_finished := Suc (c_finished c)\<rparr>, executing_cores)
     | SetDone \<Rightarrow> (c\<lparr>c_done := 1, c_pc := DecExecuting\<rparr>, executing_cores)
     | DecExecuting \<Rightarrow> (c\<lparr>c_pc := Poll\<rparr>, executing_cores - 1))"

text \<open>\<open>add_thread\<close>, one access per step, and the calls that returned, per core.\<close>

datatype add_pc = AddIdle | CheckDone nat u64 u64 | StoreArg nat u64 u64 | StoreCode nat u64 u64 | WaitTaken nat u64 u64

record thread_system =
  cores :: "nat \<Rightarrow> core"
  executing :: u64
  callers :: "nat \<Rightarrow> add_pc"
  spawned :: "nat \<Rightarrow> (u64 \<times> u64) list"

definition add_thread_step :: "nat \<Rightarrow> nat \<Rightarrow> thread_system \<Rightarrow> thread_system" where
  "add_thread_step num_usable_cores t s =
    (case callers s t of
       AddIdle \<Rightarrow> s
     | CheckDone i f a \<Rightarrow>
         (if i < num_usable_cores then
            (if c_done (cores s i) = 1 then s\<lparr>callers := (callers s)(t := StoreArg i f a)\<rparr>
             else s\<lparr>callers := (callers s)(t := CheckDone (Suc i) f a)\<rparr>)
          else s\<lparr>callers := (callers s)(t := AddIdle)\<rparr>)
     | StoreArg i f a \<Rightarrow> s\<lparr>cores := (cores s)(i := (cores s i)\<lparr>c_arg := a\<rparr>), callers := (callers s)(t := StoreCode i f a)\<rparr>
     | StoreCode i f a \<Rightarrow> s\<lparr>cores := (cores s)(i := (cores s i)\<lparr>c_code := f\<rparr>), callers := (callers s)(t := WaitTaken i f a)\<rparr>
     | WaitTaken i f a \<Rightarrow>
         (if c_code (cores s i) \<noteq> 0 then s
          else s\<lparr>callers := (callers s)(t := AddIdle), spawned := (spawned s)(i := spawned s i @ [(f, a)])\<rparr>))"

text \<open>The callers in the set T may call \<open>add_thread\<close>, with a function pointer that is not null, as often as they like.\<close>

inductive thread_step :: "nat \<Rightarrow> nat set \<Rightarrow> thread_system \<Rightarrow> thread_system \<Rightarrow> bool" for n T where
  core: "1 \<le> i \<Longrightarrow> i < n \<Longrightarrow> ap_reset_loop (cores s i, executing s) = (c, e) \<Longrightarrow>
    thread_step n T s (s\<lparr>cores := (cores s)(i := c), executing := e\<rparr>)"
| call: "t \<in> T \<Longrightarrow> callers s t = AddIdle \<Longrightarrow> f \<noteq> 0 \<Longrightarrow>
    thread_step n T s (s\<lparr>callers := (callers s)(t := CheckDone 1 f a)\<rparr>)"
| caller: "t \<in> T \<Longrightarrow> thread_step n T s (add_thread_step n t s)"

text \<open>After \<open>initialize_threads\<close>: every core has run its initialiser and polls.\<close>

definition idle_core :: core where
  "idle_core = \<lparr>c_code = 0, c_arg = 0, c_done = 1, c_pc = Poll, c_started = [], c_finished = 0\<rparr>"

definition threads_ready :: thread_system where
  "threads_ready = \<lparr>cores = (\<lambda>_. idle_core), executing = 0, callers = (\<lambda>_. AddIdle), spawned = (\<lambda>_. [])\<rparr>"

text \<open>The states of a core as the caller of \<open>add_thread\<close> sees them.\<close>

definition quiet :: "core \<Rightarrow> (u64 \<times> u64) list \<Rightarrow> bool" where
  "quiet c sp \<longleftrightarrow> c_code c = 0 \<and> c_started c = sp \<and>
    (case c_pc c of Poll \<Rightarrow> True | Running f a \<Rightarrow> True | SetDone \<Rightarrow> True | DecExecuting \<Rightarrow> True | _ \<Rightarrow> False)"

definition posted :: "u64 \<Rightarrow> u64 \<Rightarrow> core \<Rightarrow> (u64 \<times> u64) list \<Rightarrow> bool" where
  "posted f a c sp \<longleftrightarrow> c_code c = f \<and> c_arg c = a \<and> c_started c = sp \<and>
    c_pc c \<in> {Poll, DecExecuting, Fetch f, IncExecuting f a, ClearDone f a, ClearCode f a}"

definition history_ok :: "core \<Rightarrow> bool" where
  "history_ok c \<longleftrightarrow>
    (case c_pc c of
       Running f a \<Rightarrow> c_done c \<noteq> 1 \<and> Suc (c_finished c) = length (c_started c)
     | SetDone \<Rightarrow> c_done c \<noteq> 1 \<and> c_finished c = length (c_started c)
     | ClearCode f a \<Rightarrow> c_done c \<noteq> 1 \<and> c_finished c = length (c_started c)
     | _ \<Rightarrow> c_finished c = length (c_started c))"

definition core_inv :: "add_pc \<Rightarrow> nat \<Rightarrow> core \<Rightarrow> (u64 \<times> u64) list \<Rightarrow> bool" where
  "core_inv p i c sp \<longleftrightarrow> history_ok c \<and>
    (case p of
       AddIdle \<Rightarrow> quiet c sp
     | CheckDone j f a \<Rightarrow> f \<noteq> 0 \<and> quiet c sp
     | StoreArg j f a \<Rightarrow> f \<noteq> 0 \<and> quiet c sp \<and> (j = i \<longrightarrow> c_pc c = Poll \<or> c_pc c = DecExecuting)
     | StoreCode j f a \<Rightarrow> f \<noteq> 0 \<and> quiet c sp \<and> (j = i \<longrightarrow> (c_pc c = Poll \<or> c_pc c = DecExecuting) \<and> c_arg c = a)
     | WaitTaken j f a \<Rightarrow> f \<noteq> 0 \<and> (if j = i then posted f a c sp \<or> quiet c (sp @ [(f, a)]) else quiet c sp))"

lemmas core_inv_defs = core_inv_def quiet_def posted_def history_ok_def

lemma core_inv_loop:
  assumes "core_inv p i c sp" "ap_reset_loop (c, e) = (c', e')"
  shows "core_inv p i c' sp"
  using assms unfolding core_inv_defs ap_reset_loop_def
  by (cases "c_pc c"; cases p) (auto split: if_splits)

lemma core_inv_caller:
  assumes inv: "\<forall>i. 1 \<le> i \<and> i < n \<longrightarrow> core_inv (callers s t) i (cores s i) (spawned s i)"
    and start: "\<forall>i f a. callers s t = StoreArg i f a \<or> callers s t = StoreCode i f a \<or> callers s t = WaitTaken i f a \<or>
      callers s t = CheckDone i f a \<longrightarrow> 1 \<le> i"
    and i: "1 \<le> i" "i < n"
  shows "core_inv (callers (add_thread_step n t s) t) i (cores (add_thread_step n t s) i) (spawned (add_thread_step n t s) i)"
  using inv [rule_format, OF conjI [OF i]] start unfolding core_inv_defs add_thread_step_def
  by (cases "callers s t"; cases "c_pc (cores s i)") (auto split: if_splits)

definition threads_ok :: "nat \<Rightarrow> thread_system \<Rightarrow> bool" where
  "threads_ok n s \<longleftrightarrow> (\<forall>i. 1 \<le> i \<and> i < n \<longrightarrow> core_inv (callers s 0) i (cores s i) (spawned s i)) \<and>
    (\<forall>i f a. callers s 0 = StoreArg i f a \<or> callers s 0 = StoreCode i f a \<or> callers s 0 = WaitTaken i f a \<or>
      callers s 0 = CheckDone i f a \<longrightarrow> 1 \<le> i)"

lemma thread_step_ok:
  assumes "thread_step n {0} s s'" "threads_ok n s"
  shows "threads_ok n s'"
  using assms
proof (induction rule: thread_step.induct)
  case (core i s c e)
  then show ?case using core_inv_loop by (auto simp: threads_ok_def)
next
  case (call t s f a)
  then show ?case by (auto simp: threads_ok_def core_inv_def)
next
  case (caller t s)
  then have t: "t = 0" by simp
  have inv: "\<forall>i. 1 \<le> i \<and> i < n \<longrightarrow> core_inv (callers s 0) i (cores s i) (spawned s i)"
    and start: "\<forall>i f a. callers s 0 = StoreArg i f a \<or> callers s 0 = StoreCode i f a \<or> callers s 0 = WaitTaken i f a \<or>
      callers s 0 = CheckDone i f a \<longrightarrow> 1 \<le> i"
    using caller by (simp_all add: threads_ok_def)
  have "\<forall>i f a. callers (add_thread_step n 0 s) 0 = StoreArg i f a \<or> callers (add_thread_step n 0 s) 0 = StoreCode i f a \<or>
      callers (add_thread_step n 0 s) 0 = WaitTaken i f a \<or> callers (add_thread_step n 0 s) 0 = CheckDone i f a \<longrightarrow> 1 \<le> i"
    using start by (cases "callers s 0") (auto simp: add_thread_step_def)
  then show ?case using core_inv_caller [OF inv start] by (simp add: threads_ok_def t)
qed

lemma threads_ready_ok: "threads_ok n threads_ready"
  by (simp add: threads_ok_def threads_ready_def core_inv_defs idle_core_def)

lemma threads_reach_ok: "(thread_step n {0})\<^sup>*\<^sup>* threads_ready s \<Longrightarrow> threads_ok n s"
  by (induction rule: rtranclp_induct) (auto intro: thread_step_ok threads_ready_ok)

text \<open>Schedules, for concrete runs.\<close>

datatype move = MoveCore nat | MoveCall nat u64 u64 | MoveCaller nat

definition do_move :: "nat \<Rightarrow> move \<Rightarrow> thread_system \<Rightarrow> thread_system" where
  "do_move n mv s =
    (case mv of
       MoveCore i \<Rightarrow> (let (c, e) = ap_reset_loop (cores s i, executing s) in s\<lparr>cores := (cores s)(i := c), executing := e\<rparr>)
     | MoveCall t f a \<Rightarrow> s\<lparr>callers := (callers s)(t := CheckDone 1 f a)\<rparr>
     | MoveCaller t \<Rightarrow> add_thread_step n t s)"

fun may_move :: "nat \<Rightarrow> nat set \<Rightarrow> move \<Rightarrow> thread_system \<Rightarrow> bool" where
  "may_move n T (MoveCore i) s = (1 \<le> i \<and> i < n)"
| "may_move n T (MoveCall t f a) s = (t \<in> T \<and> callers s t = AddIdle \<and> f \<noteq> 0)"
| "may_move n T (MoveCaller t) s = (t \<in> T)"

fun may_run :: "nat \<Rightarrow> nat set \<Rightarrow> move list \<Rightarrow> thread_system \<Rightarrow> bool" where
  "may_run n T [] s = True"
| "may_run n T (mv # mvs) s = (may_move n T mv s \<and> may_run n T mvs (do_move n mv s))"

lemma move_step: "may_move n T mv s \<Longrightarrow> thread_step n T s (do_move n mv s)"
  by (cases mv) (auto simp: do_move_def intro: thread_step.intros thread_step.call [unfolded One_nat_def] split: prod.splits)

lemma run_reach: "may_run n T mvs s \<Longrightarrow> (thread_step n T)\<^sup>*\<^sup>* s (fold (do_move n) mvs s)"
  by (induction mvs arbitrary: s) (auto intro: converse_rtranclp_into_rtranclp move_step)

text \<open>
  C24: when one caller at a time uses \<open>add_thread\<close>, every call that returns a thread has
  handed its function and argument to that core exactly once and in order, before it
  returns; and a done flag of 1, what \<open>join_thread\<close> waits for, means that every function the
  core has started is finished.
\<close>

theorem add_thread_runs_once:
  assumes "(thread_step n {0})\<^sup>*\<^sup>* threads_ready s" and "1 \<le> i" and "i < n"
  shows "(callers s 0 = AddIdle \<longrightarrow> c_started (cores s i) = spawned s i) \<and>
    (\<forall>f a. callers s 0 = WaitTaken i f a \<and> c_code (cores s i) = 0 \<longrightarrow> c_started (cores s i) = spawned s i @ [(f, a)]) \<and>
    (c_done (cores s i) = 1 \<longrightarrow> c_finished (cores s i) = length (c_started (cores s i)))"
proof -
  have "core_inv (callers s 0) i (cores s i) (spawned s i)"
    using threads_reach_ok [OF assms(1)] assms(2,3) by (simp add: threads_ok_def)
  then show ?thesis unfolding core_inv_defs by (cases "c_pc (cores s i)") auto
qed

definition one_spawn :: "move list" where
  "one_spawn = [MoveCall 0 5 6, MoveCaller 0, MoveCaller 0, MoveCaller 0, MoveCore 1, MoveCore 1, MoveCore 1, MoveCore 1,
     MoveCore 1, MoveCaller 0, MoveCore 1, MoveCore 1]"

theorem add_thread_runs_once_witness:
  "\<exists>s. (thread_step 2 {0})\<^sup>*\<^sup>* threads_ready s \<and> spawned s 1 = [(5, 6)] \<and> c_started (cores s 1) = [(5, 6)] \<and>
    c_done (cores s 1) = 1 \<and> c_finished (cores s 1) = 1"
proof -
  let ?s = "fold (do_move 2) one_spawn threads_ready"
  have "may_run 2 {0} one_spawn threads_ready"
    by (simp add: one_spawn_def do_move_def add_thread_step_def ap_reset_loop_def threads_ready_def idle_core_def)
  then have reach: "(thread_step 2 {0})\<^sup>*\<^sup>* threads_ready ?s" by (rule run_reach)
  have v: "callers ?s 0 = AddIdle" "spawned ?s 1 = [(5, 6)]" "c_done (cores ?s 1) = 1"
    by (simp_all add: one_spawn_def do_move_def add_thread_step_def ap_reset_loop_def threads_ready_def idle_core_def)
  from add_thread_runs_once [OF reach, of 1] v
  have "c_started (cores ?s 1) = [(5, 6)]" "c_finished (cores ?s 1) = 1" by simp_all
  then show ?thesis using reach v by blast
qed

definition lost_spawn :: "move list" where
  "lost_spawn = [MoveCall 0 5 50, MoveCall 1 6 60, MoveCaller 0, MoveCaller 1, MoveCaller 0, MoveCaller 0, MoveCaller 1, MoveCaller 1,
     MoveCore 1, MoveCore 1, MoveCore 1, MoveCore 1, MoveCore 1, MoveCaller 0, MoveCaller 1, MoveCore 1, MoveCore 1, MoveCore 1]"

text \<open>
  Two callers that use \<open>add_thread\<close> at the same time can both be told that their
  function runs on the same core, while the core runs only one of them.
\<close>

theorem add_thread_race_loses_function:
  "\<exists>s. (thread_step 2 {0, 1})\<^sup>*\<^sup>* threads_ready s \<and> callers s 0 = AddIdle \<and> callers s 1 = AddIdle \<and>
    spawned s 1 = [(5, 50), (6, 60)] \<and> c_started (cores s 1) = [(6, 60)] \<and> c_pc (cores s 1) = Poll \<and> c_done (cores s 1) = 1"
proof -
  let ?s = "fold (do_move 2) lost_spawn threads_ready"
  have "may_run 2 {0, 1} lost_spawn threads_ready"
    by (simp add: lost_spawn_def do_move_def add_thread_step_def ap_reset_loop_def threads_ready_def idle_core_def)
  then have "(thread_step 2 {0, 1})\<^sup>*\<^sup>* threads_ready ?s" by (rule run_reach)
  moreover have "callers ?s 0 = AddIdle" "callers ?s 1 = AddIdle" "spawned ?s 1 = [(5, 50), (6, 60)]"
    "c_started (cores ?s 1) = [(6, 60)]" "c_pc (cores ?s 1) = Poll" "c_done (cores ?s 1) = 1"
    by (simp_all add: lost_spawn_def do_move_def add_thread_step_def ap_reset_loop_def threads_ready_def idle_core_def)
  ultimately show ?thesis by blast
qed

end
