(* ===== verification/Segments.thy ===== *)
theory Segments
  imports Threads Page_Table
begin

unbundle bit_operations_syntax

text \<open>
  The segment descriptors of \<open>arch/x86_64/inc/gdt.h\<close> and their set-up in \<open>gdt.cc\<close>, and the
  segment registers that \<open>hv.h\<close> and \<open>sev.h\<close> make of them to start a core.  Bit-fields are
  words of their width.  The early allocator is a parameter: the address it gives.
\<close>

section \<open>Descriptors\<close>

record SegmentAttributes =
  segment_type :: "4 word"
  user_segment :: bool
  descriptor_privilege_level :: "2 word"
  present :: bool
  limit_high :: "4 word"
  available :: bool
  long_mode :: bool
  protected_mode :: bool
  granularity :: bool

definition SegmentType_Code :: "4 word" where "SegmentType_Code = 0b1011"
definition SegmentType_Data :: "4 word" where "SegmentType_Data = 0b0011"
definition SegmentType_Tss :: "4 word" where "SegmentType_Tss = 0b1001"

record UserGDTEntry =
  limit_low :: u16
  base_low :: "24 word"
  attributes :: SegmentAttributes
  base_high :: u8

record SystemGDTEntry =
  common :: UserGDTEntry
  system_base_high :: u64

definition attribute_bits :: "SegmentAttributes \<Rightarrow> u64" where
  "attribute_bits a =
    ucast (segment_type a) OR push_bit 4 (of_bool (user_segment a)) OR push_bit 5 (ucast (descriptor_privilege_level a)) OR
    push_bit 7 (of_bool (present a)) OR push_bit 8 (ucast (limit_high a)) OR push_bit 12 (of_bool (available a)) OR
    push_bit 13 (of_bool (long_mode a)) OR push_bit 14 (of_bool (protected_mode a)) OR push_bit 15 (of_bool (granularity a))"

text \<open>The 8 bytes of an entry.\<close>

definition descriptor_bits :: "UserGDTEntry \<Rightarrow> u64" where
  "descriptor_bits d =
    ucast (limit_low d) OR push_bit 16 (ucast (base_low d)) OR push_bit 40 (attribute_bits (attributes d)) OR push_bit 56 (ucast (base_high d))"

definition NullSegment :: UserGDTEntry where
  "NullSegment = \<lparr>limit_low = 0, base_low = 0, attributes = \<lparr>segment_type = 0, user_segment = False,
     descriptor_privilege_level = 0, present = False, limit_high = 0, available = False, long_mode = False,
     protected_mode = False, granularity = False\<rparr>, base_high = 0\<rparr>"

definition CodeSegment64 :: "2 word \<Rightarrow> UserGDTEntry" where
  "CodeSegment64 ring = \<lparr>limit_low = 0xFFFF, base_low = 0, attributes = \<lparr>segment_type = SegmentType_Code, user_segment = True,
     descriptor_privilege_level = ring, present = True, limit_high = 0xF, available = False, long_mode = True,
     protected_mode = False, granularity = True\<rparr>, base_high = 0\<rparr>"

definition CodeSegment32 :: "2 word \<Rightarrow> UserGDTEntry" where
  "CodeSegment32 ring = \<lparr>limit_low = 0xFFFF, base_low = 0, attributes = \<lparr>segment_type = SegmentType_Code, user_segment = True,
     descriptor_privilege_level = ring, present = True, limit_high = 0xF, available = False, long_mode = False,
     protected_mode = True, granularity = True\<rparr>, base_high = 0\<rparr>"

definition DataSegment64 :: "2 word \<Rightarrow> UserGDTEntry" where
  "DataSegment64 ring = \<lparr>limit_low = 0xFFFF, base_low = 0, attributes = \<lparr>segment_type = SegmentType_Data, user_segment = True,
     descriptor_privilege_level = ring, present = True, limit_high = 0xF, available = False, long_mode = True,
     protected_mode = False, granularity = True\<rparr>, base_high = 0\<rparr>"

text \<open>The packed task state segment: 4 + 4 * 8 + 7 * 8 + 3 * 2 + 2 bytes.\<close>

definition sizeof_TaskStateSegment :: u64 where "sizeof_TaskStateSegment = 4 + 4 * 8 + 7 * 8 + 3 * 2 + 2"

definition TssSegment64Initial :: SystemGDTEntry where
  "TssSegment64Initial = \<lparr>common = \<lparr>limit_low = ucast (sizeof_TaskStateSegment - 1), base_low = 0,
     attributes = \<lparr>segment_type = SegmentType_Tss, user_segment = False, descriptor_privilege_level = 3, present = True,
       limit_high = 0, available = False, long_mode = True, protected_mode = False, granularity = False\<rparr>, base_high = 0\<rparr>,
     system_base_high = 0\<rparr>"

record GDT =
  null_seg :: UserGDTEntry
  kernel_code :: UserGDTEntry
  kernel_data :: UserGDTEntry
  compartment_code32 :: UserGDTEntry
  compartment_data :: UserGDTEntry
  compartment_code :: UserGDTEntry
  tss :: "SystemGDTEntry list"

definition initial_gdt :: GDT where
  "initial_gdt = \<lparr>null_seg = NullSegment, kernel_code = CodeSegment64 0, kernel_data = DataSegment64 0,
     compartment_code32 = CodeSegment32 3, compartment_data = DataSegment64 3, compartment_code = CodeSegment64 3,
     tss = replicate (unat MAX_CORE_COUNT) TssSegment64Initial\<rparr>"

definition fill_tss_entry :: "u64 \<Rightarrow> SystemGDTEntry \<Rightarrow> SystemGDTEntry" where
  "fill_tss_entry tss_ptr e =
    e\<lparr>common := (common e)\<lparr>base_low := ucast (tss_ptr AND 0xFFFFFF), base_high := ucast (drop_bit 24 tss_ptr AND 0xFF)\<rparr>,
      system_base_high := drop_bit 32 tss_ptr\<rparr>"

definition fill_tss :: "u64 \<Rightarrow> GDT \<Rightarrow> GDT" where
  "fill_tss per_core_tss g =
    g\<lparr>tss := map (\<lambda>i. fill_tss_entry (per_core_tss + word_of_nat i * sizeof_TaskStateSegment) (tss g ! i)) [0..<length (tss g)]\<rparr>"

text \<open>Offsets in the table; a selector carries the privilege level in its low bits.\<close>

definition KERNEL_CS :: u64 where "KERNEL_CS = 8"
definition KERNEL_DS :: u64 where "KERNEL_DS = 16"
definition COMPARTMENT_CS32 :: u64 where "COMPARTMENT_CS32 = 24 OR 0x3"
definition COMPARTMENT_CS :: u64 where "COMPARTMENT_CS = 40 OR 0x3"
definition TSS_SEG :: "u64 \<Rightarrow> u64" where "TSS_SEG core = 48 + 16 * core + 0x3"

section \<open>Segment registers\<close>

record SegmentRegister =
  sr_base :: u64
  sr_limit :: u32
  sr_selector :: u16
  sr_attributes :: SegmentAttributes

text \<open>
  The register of an entry at an offset of the table.  The low bit-fields of the base are
  promoted to a signed 32-bit number before they are extended to 64 bits.
\<close>

definition segment_register :: "u64 \<Rightarrow> SystemGDTEntry \<Rightarrow> SegmentRegister" where
  "segment_register offset e =
    \<lparr>sr_base = scast (ucast (base_low (common e)) OR push_bit 24 (ucast (base_high (common e))) :: u32) OR push_bit 32 (system_base_high e),
     sr_limit = ucast (limit_low (common e)) OR push_bit 16 (ucast (limit_high (attributes (common e)))),
     sr_selector = ucast offset OR ucast (descriptor_privilege_level (attributes (common e))),
     sr_attributes = attributes (common e)\<rparr>"

section \<open>Set-up\<close>

definition INTERRUPT_STACK_SIZE :: u64 where "INTERRUPT_STACK_SIZE = 64 * 1024"

definition interrupt_stack_allocation_size :: "env \<Rightarrow> u64 \<Rightarrow> u64" where
  "interrupt_stack_allocation_size E num_cores = align_up E (num_cores * INTERRUPT_STACK_SIZE) (PAGE_SIZE E)"

text \<open>The table, the interrupt stack of each core, and the map of all stacks for the page tables.\<close>

definition setup_gdt :: "env \<Rightarrow> u64 \<Rightarrow> u64 \<Rightarrow> u64 \<Rightarrow> GDT \<times> u64 list \<times> MapEntry" where
  "setup_gdt E per_core_tss num_cores stacks =
    (fill_tss per_core_tss initial_gdt,
     map (\<lambda>i. stacks + (word_of_nat i + 1) * INTERRUPT_STACK_SIZE) [0..<unat num_cores],
     \<lparr>map_range = span_range stacks (interrupt_stack_allocation_size E num_cores) 1, map_perm = PT_FORCE_KERNEL_WRITE\<rparr>)"

lemma descriptor_values:
  "descriptor_bits NullSegment = 0"
  "descriptor_bits (CodeSegment64 0) = 0x00AF9B000000FFFF" "descriptor_bits (DataSegment64 0) = 0x00AF93000000FFFF"
  "descriptor_bits (CodeSegment32 3) = 0x00CFFB000000FFFF" "descriptor_bits (DataSegment64 3) = 0x00AFF3000000FFFF"
  "descriptor_bits (CodeSegment64 3) = 0x00AFFB000000FFFF"
  by code_simp+

section \<open>The task segment of a core\<close>

lemma mask_values: "(0xFF :: u64) = mask 8" "(0xFFFFFF :: u64) = mask 24" "(0xFFFFFFFF00000000 :: u64) = push_bit 32 (mask 32)"
  by (simp_all add: mask_eq_exp_minus_1)

lemma tss_register_base:
  "sr_base (segment_register offset (fill_tss_entry p e)) = (if bit p 31 then p OR 0xFFFFFFFF00000000 else p)"
proof (rule bit_word_eqI)
  fix n assume n: "n < LENGTH(64)"
  consider "n < 24" | "24 \<le> n" "n < 31" | "n = 31" | "32 \<le> n" by linarith
  then show "bit (sr_base (segment_register offset (fill_tss_entry p e))) n = bit (if bit p 31 then p OR 0xFFFFFFFF00000000 else p) n"
    using n unfolding mask_values segment_register_def fill_tss_entry_def
    by cases (auto simp: bit_simps min_def not_less)
qed

lemma tss_entry: "i < 256 \<Longrightarrow> tss (fill_tss per_core_tss initial_gdt) ! i = fill_tss_entry (per_core_tss + word_of_nat i * sizeof_TaskStateSegment) TssSegment64Initial"
  by (simp add: fill_tss_def initial_gdt_def MAX_CORE_COUNT_def)

lemma tss_pointer:
  assumes "unat p + 25600 \<le> 2 ^ 31" "i < 256"
  shows "unat (p + word_of_nat i * sizeof_TaskStateSegment) = unat p + 100 * i" "\<not> bit (p + word_of_nat i * sizeof_TaskStateSegment) 31"
proof -
  have w: "word_of_nat i * sizeof_TaskStateSegment = (word_of_nat (100 * i) :: u64)" by (simp add: sizeof_TaskStateSegment_def)
  show u: "unat (p + word_of_nat i * sizeof_TaskStateSegment) = unat p + 100 * i"
    unfolding w using assms by (intro unat_offset [of p 25600]) simp_all
  have "unat (p + word_of_nat i * sizeof_TaskStateSegment) div 2 ^ 31 = 0" using assms by (simp add: u)
  then have "\<not> bit (unat (p + word_of_nat i * sizeof_TaskStateSegment)) 31" by (simp add: bit_iff_odd)
  then show "\<not> bit (p + word_of_nat i * sizeof_TaskStateSegment) 31" by (simp add: bit_unsigned_iff)
qed

lemma tss_selector:
  assumes "i < 256"
  shows "ucast (ucast (48 + 16 * word_of_nat i :: u64) OR 3 :: u16) = TSS_SEG (word_of_nat i)"
proof -
  have "list_all (\<lambda>i. ucast (ucast (48 + 16 * word_of_nat i :: u64) OR 3 :: u16) = TSS_SEG (word_of_nat i)) [0..<256]" by code_simp
  then show ?thesis using assms by (simp add: list_all_iff)
qed

lemma stack_allocation:
  assumes "snmalloc_env E" "unat n \<le> 256"
  shows "unat (interrupt_stack_allocation_size E n) = up_to (unat (PAGE_SIZE E)) (unat n * 65536)"
proof -
  have u: "unat (n * INTERRUPT_STACK_SIZE) = unat n * 65536"
    using assms(2) unat_mult_lem [of n INTERRUPT_STACK_SIZE] by (simp add: INTERRUPT_STACK_SIZE_def)
  show ?thesis unfolding interrupt_stack_allocation_size_def u [symmetric]
    using assms(2) snmalloc_env.page_size_bound [OF assms(1)] by (intro snmalloc_env.align_up [OF assms(1)] snmalloc_env.page_size_pow2 [OF assms(1)]) (simp add: u)
qed

lemma stack_top: "unat stacks + 65536 * (i + 1) < 2 ^ 64 \<Longrightarrow> unat (stacks + (word_of_nat i + 1) * INTERRUPT_STACK_SIZE) = unat stacks + 65536 * (i + 1)"
proof -
  assume h: "unat stacks + 65536 * (i + 1) < 2 ^ 64"
  have w: "(word_of_nat i + 1) * INTERRUPT_STACK_SIZE = (word_of_nat (65536 * (i + 1)) :: u64)" by (simp add: INTERRUPT_STACK_SIZE_def algebra_simps)
  show ?thesis unfolding w using h by (intro unat_offset [of stacks "65536 * (i + 1) + 1"]) simp_all
qed

text \<open>
  What a core gets: for every core of the platform the task register made from the
  table has the address of the core's task state segment, if these lie below 2 GB, with
  its limit, its selector and the type of an available segment; the interrupt stacks of
  the cores are disjoint blocks of 64 KB inside the range that the page tables map for
  the kernel.
\<close>

theorem setup_gdt_cores:
  assumes env: "snmalloc_env E" and cores: "0 < unat n" "unat n \<le> 256" "i < unat n"
    and low: "unat per_core_tss + 25600 \<le> 2 ^ 31"
    and stacks: "unat stacks + up_to (unat (PAGE_SIZE E)) (unat n * 65536) < 2 ^ 64"
    and run: "setup_gdt E per_core_tss n stacks = (g, ists, me)"
  shows "(let r = segment_register (48 + 16 * word_of_nat i) (tss g ! i) in
      unat (sr_base r) = unat per_core_tss + 100 * i \<and> sr_limit r = 99 \<and> ucast (sr_selector r) = TSS_SEG (word_of_nat i) \<and>
      segment_type (sr_attributes r) = SegmentType_Tss) \<and>
    length ists = unat n \<and> unat (ists ! i) = unat stacks + 65536 * (i + 1) \<and>
    (\<forall>x. unat stacks + 65536 * i \<le> unat x \<and> unat x < unat stacks + 65536 * (i + 1) \<longrightarrow> overlaps (map_range me) x) \<and>
    map_perm me = PT_FORCE_KERNEL_WRITE"
proof -
  have d: "g = fill_tss per_core_tss initial_gdt" "ists = map (\<lambda>i. stacks + (word_of_nat i + 1) * INTERRUPT_STACK_SIZE) [0..<unat n]"
    "map_range me = span_range stacks (interrupt_stack_allocation_size E n) 1" "map_perm me = PT_FORCE_KERNEL_WRITE"
    using run by (auto simp: setup_gdt_def)
  have i: "i < 256" using cores by simp
  define p where "p = per_core_tss + word_of_nat i * sizeof_TaskStateSegment"
  have p: "unat p = unat per_core_tss + 100 * i" "\<not> bit p 31" using tss_pointer [OF low i] by (simp_all add: p_def)
  have entry: "tss g ! i = fill_tss_entry p TssSegment64Initial" using tss_entry [OF i] by (simp add: d(1) p_def)
  have reg: "sr_limit (segment_register (48 + 16 * word_of_nat i) (tss g ! i)) = 99"
    "ucast (sr_selector (segment_register (48 + 16 * word_of_nat i) (tss g ! i))) = TSS_SEG (word_of_nat i)"
    "segment_type (sr_attributes (segment_register (48 + 16 * word_of_nat i) (tss g ! i))) = SegmentType_Tss"
    "unat (sr_base (segment_register (48 + 16 * word_of_nat i) (tss g ! i))) = unat per_core_tss + 100 * i"
    using tss_selector [OF i] p unfolding entry tss_register_base
    by (simp_all add: segment_register_def fill_tss_entry_def TssSegment64Initial_def sizeof_TaskStateSegment_def)
  have size: "unat (interrupt_stack_allocation_size E n) = up_to (unat (PAGE_SIZE E)) (unat n * 65536)"
    using stack_allocation [OF env cores(2)] .
  have ge: "unat n * 65536 \<le> up_to (unat (PAGE_SIZE E)) (unat n * 65536)"
    using snmalloc_env.page_size_pos [OF env] by (rule up_to_ge)
  have "65536 * (i + 1) \<le> unat n * 65536" using cores(3) by simp
  then have top: "unat stacks + 65536 * (i + 1) < 2 ^ 64" using ge stacks by linarith
  have ist: "unat (ists ! i) = unat stacks + 65536 * (i + 1)" using stack_top [OF top] cores(3) by (simp add: d(2))
  have "overlaps (map_range me) x" if "unat stacks + 65536 * i \<le> unat x" "unat x < unat stacks + 65536 * (i + 1)" for x
  proof -
    have "unat (stacks + interrupt_stack_allocation_size E n) = unat stacks + up_to (unat (PAGE_SIZE E)) (unat n * 65536)"
      using stacks size by (subst unat_add64) simp_all
    then show ?thesis using that ge \<open>65536 * (i + 1) \<le> unat n * 65536\<close> by (simp add: d(3) overlaps_def span_range_def word_nat)
  qed
  then show ?thesis using reg ist d by (simp add: Let_def)
qed

theorem setup_gdt_cores_witness:
  "\<exists>g ists me. setup_gdt (rounding_env 4096) 0x300000 4 0x900000 = (g, ists, me) \<and>
    unat (sr_base (segment_register (48 + 16 * word_of_nat 3) (tss g ! 3))) = 0x300000 + 300 \<and> unat (ists ! 3) = 0x940000"
proof -
  obtain g ists me where run: "setup_gdt (rounding_env 4096) 0x300000 4 0x900000 = (g, ists, me)" by (cases "setup_gdt (rounding_env 4096) 0x300000 4 0x900000") auto
  have "up_to (unat (PAGE_SIZE (rounding_env 4096))) (unat (4 :: u64) * 65536) \<le> 2 ^ 32" by (simp add: rounding_env_def up_to_def)
  then have "unat (0x900000 :: u64) + up_to (unat (PAGE_SIZE (rounding_env 4096))) (unat (4 :: u64) * 65536) < 2 ^ 64" by simp
  from setup_gdt_cores [OF small_pages.snmalloc_env_axioms _ _ _ _ this run, of 3] show ?thesis using run by (simp add: Let_def)
qed

end
