(* ===== verification/Sev_Memory.thy ===== *)
theory Sev_Memory
  imports Heap_Ranges
begin

unbundle bit_operations_syntax

text \<open>
  Memory set-up of the SEV-SNP guest (\<open>arch/x86_64/hv_sev.cc\<close>, \<open>inc/sev.h\<close>): the
  validation of the host-supplied memory map, the acceptance of private pages
  and the heap description built from it.  The host controls every entry of
  the map.  The acceptance loop advances a 64-bit address and may wrap, so it is
  a partial function whose value is the list of the pages handed to \<open>pvalidate\<close>;
  the lemmas show that it returns on the ranges the set-up gives it.
\<close>

definition HV_PAGE_SIZE :: u64 where
  "HV_PAGE_SIZE = 4096"

definition RMP_GRANULARITY :: u64 where
  "RMP_GRANULARITY = 4096"

record SevMemoryMapEntry =
  gpa_page_offset :: u64
  page_count :: u64
  mm_flags :: u64

definition is_null :: "SevMemoryMapEntry \<Rightarrow> bool" where
  "is_null e \<longleftrightarrow> gpa_page_offset e = 0 \<and> page_count e = 0 \<and> mm_flags e = 0"

partial_function (option) accept_loop :: "u64 \<Rightarrow> u64 \<Rightarrow> u64 list option" where
  "accept_loop address stop =
    (if address < stop then
       Option.bind (accept_loop (address + RMP_GRANULARITY) stop) (\<lambda>rest. Some (address # rest))
     else Some [])"

definition accept_private_memory :: "AddressRange \<Rightarrow> u64 list option" where
  "accept_private_memory r = accept_loop (rstart r) (rend r)"

record sev_heap =
  sev_ranges :: HeapRanges
  above_vtom_memory_range :: byte_span
  first_entry :: bool
  first_vtom_entry :: bool
  last_entry_end_address :: u64

definition sev_heap_init :: sev_heap where
  "sev_heap_init = \<lparr>sev_ranges = heap_init, above_vtom_memory_range = mk_span 0 0,
     first_entry = True, first_vtom_entry = True, last_entry_end_address = 0\<rparr>"

definition sev_heap_store ::
  "env \<Rightarrow> u64 \<Rightarrow> u64 \<Rightarrow> u64 \<Rightarrow> u64 \<Rightarrow> sev_heap \<Rightarrow> sev_heap result" where
  "sev_heap_store E heap_start entry_address current_end entry_size st =
    (if entry_size \<noteq> 0 then
       (if first_entry st then
          res_bind (set_first E (mk_span heap_start (current_end - heap_start)) (sev_ranges st))
            (\<lambda>h. Inr (st\<lparr>sev_ranges := h, first_entry := False\<rparr>))
        else
          res_bind (add_heap E (mk_span entry_address entry_size) (sev_ranges st))
            (\<lambda>h. Inr (st\<lparr>sev_ranges := h\<rparr>)))
     else Inr st)"

definition sev_heap_entry ::
  "env \<Rightarrow> u64 \<Rightarrow> u64 \<Rightarrow> SevMemoryMapEntry \<Rightarrow> sev_heap \<Rightarrow> sev_heap result" where
  "sev_heap_entry E heap_start vtom entry st =
    (let entry_address = gpa_page_offset entry * HV_PAGE_SIZE;
         entry_size = page_count entry * HV_PAGE_SIZE;
         current_end = entry_address + entry_size in
     if entry_size = 0 then Inl KAbort
     else if current_end < entry_address \<or> current_end > push_bit 48 1 then Inl KAbort
     else if entry_address < last_entry_end_address st then Inl KAbort
     else if first_entry st \<and> (heap_start < entry_address \<or> heap_start \<ge> current_end) then Inl KAbort
     else
       let st1 = st\<lparr>last_entry_end_address := current_end\<rparr> in
       if vtom \<noteq> 0 \<and> current_end > vtom then
         (if first_vtom_entry st then
            let above_vtom_size = current_end - vtom in
            sev_heap_store E heap_start entry_address vtom (entry_size - above_vtom_size)
              (st1\<lparr>above_vtom_memory_range := mk_span vtom above_vtom_size,
                 first_vtom_entry := False\<rparr>)
          else Inr st1)
       else sev_heap_store E heap_start entry_address current_end entry_size st1)"

fun sev_heap_loop ::
  "env \<Rightarrow> u64 \<Rightarrow> u64 \<Rightarrow> SevMemoryMapEntry list \<Rightarrow> sev_heap \<Rightarrow> sev_heap result" where
  "sev_heap_loop E heap_start vtom [] st = Inr st"
| "sev_heap_loop E heap_start vtom (entry # rest) st =
    (if is_null entry then Inr st
     else res_bind (sev_heap_entry E heap_start vtom entry st)
            (sev_heap_loop E heap_start vtom rest))"

text \<open>The outer option is None when the acceptance loop does not end.\<close>

definition setup_heap_sev ::
  "env \<Rightarrow> u64 \<Rightarrow> u64 \<Rightarrow> SevMemoryMapEntry list \<Rightarrow> (sev_heap \<times> u64 list) result option" where
  "setup_heap_sev E heap_start vtom memory_map =
    (if vtom \<noteq> 0 \<and> (heap_start \<ge> vtom \<or> vtom mod PAGE_SIZE E \<noteq> 0) then Some (Inl KAbort)
     else case sev_heap_loop E heap_start vtom memory_map sev_heap_init of
       Inl f \<Rightarrow> Some (Inl f)
     | Inr st \<Rightarrow>
        if vtom \<noteq> 0 \<and> scount (above_vtom_memory_range st) = 0 then Some (Inl KAbort)
        else
          let heap_range = mk_range heap_start (largest_valid_address (sev_ranges st) + 1) in
          Option.bind (accept_private_memory (align_up_start E heap_range (PAGE_SIZE E)))
            (\<lambda>pages. Some (Inr (st, pages))))"

text \<open>The pages that \<open>init_hyperv_sev\<close> accepts before the heap is set up.\<close>

definition accept_unloaded :: "env \<Rightarrow> u64 \<Rightarrow> u64 \<Rightarrow> u64 list option" where
  "accept_unloaded E unloaded_start heap_start =
    (let unmapped_range = mk_range unloaded_start heap_start in
     accept_private_memory
       (align_up_end E (align_up_start E unmapped_range HV_PAGE_SIZE) (PAGE_SIZE E)))"

text \<open>The 4 KB pages between two page frame numbers.\<close>

definition frames :: "nat \<Rightarrow> nat \<Rightarrow> u64 list" where
  "frames m n = map frame [m..<n]"

lemma frames_append: "m \<le> n \<Longrightarrow> n \<le> p \<Longrightarrow> frames m n @ frames n p = frames m p"
  unfolding frames_def map_append [symmetric]
  by (metis le_add_diff_inverse upt_add_eq_append)

lemma accept_loop_frames:
  assumes "unat stop = 4096 * n" and "unat address = 4096 * m" and "m \<le> n"
  shows "accept_loop address stop = Some (frames m n)"
  using assms(3,2)
proof (induction m arbitrary: address rule: inc_induct)
  case base
  then show ?case using assms(1)
    by (subst accept_loop.simps) (simp add: word_less_nat frames_def)
next
  case (step m)
  have lt: "address < stop" using step assms(1) by (simp add: word_less_nat)
  have "4096 * n < 2 ^ 64" using unat_lt64 [of stop] assms(1) by simp
  then have "unat (address + RMP_GRANULARITY) = 4096 * Suc m"
    using step by (subst unat_add64) (simp_all add: RMP_GRANULARITY_def)
  from step.IH [OF this] lt step(2) show ?case
    by (subst accept_loop.simps) (simp add: frames_def upt_rec [of m] frame_unique [OF step.prems])
qed

lemma distinct_frames: "4096 * n \<le> 2 ^ 64 \<Longrightarrow> distinct (frames m n)"
  unfolding frames_def distinct_map
proof (intro conjI inj_onI)
  fix x y assume h: "4096 * n \<le> 2 ^ 64" "x \<in> set [m..<n]" "y \<in> set [m..<n]" "frame x = frame y"
  have "unat (frame x) = 4096 * x" "unat (frame y) = 4096 * y"
    using h(1-3) by (auto intro!: unat_frame)
  with h(4) have "4096 * x = 4096 * y" by metis
  then show "x = y" by simp
qed (rule distinct_upt)

lemma set_frames:
  assumes "4096 * n < 2 ^ 64"
  shows "x \<in> set (frames m n) \<longleftrightarrow> 4096 dvd unat x \<and> 4096 * m \<le> unat x \<and> unat x < 4096 * n"
proof
  assume "x \<in> set (frames m n)"
  then obtain k where k: "x = frame k" "m \<le> k" "k < n" by (auto simp: frames_def)
  then have "unat x = 4096 * k" using assms by (simp add: unat_frame)
  then show "4096 dvd unat x \<and> 4096 * m \<le> unat x \<and> unat x < 4096 * n" using k by simp
next
  assume x: "4096 dvd unat x \<and> 4096 * m \<le> unat x \<and> unat x < 4096 * n"
  then obtain k where k: "unat x = 4096 * k" by blast
  then have "x = frame k" by (rule frame_unique)
  then show "x \<in> set (frames m n)" using x k by (auto simp: frames_def)
qed

text \<open>
  The invariant of the loop over the memory map.  \<open>ordered_ranges\<close> reads the heap as
  a list of nat intervals that do not overlap and increase.
\<close>

definition span_end :: "byte_span \<Rightarrow> nat" where
  "span_end s = unat (sdata s) + unat (scount s)"

definition heap_spans :: "HeapRanges \<Rightarrow> byte_span list" where
  "heap_spans h = first_range h # additional_ranges h"

definition ordered_ranges :: "byte_span list \<Rightarrow> bool" where
  "ordered_ranges rs \<longleftrightarrow> sorted_wrt (\<lambda>a b. span_end a \<le> unat (sdata b)) rs"

definition entry_covers :: "SevMemoryMapEntry \<Rightarrow> u64 \<Rightarrow> bool" where
  "entry_covers e x \<longleftrightarrow>
    overlaps (mk_range (gpa_page_offset e * HV_PAGE_SIZE)
      (gpa_page_offset e * HV_PAGE_SIZE + page_count e * HV_PAGE_SIZE)) x"

definition heap_limit :: "u64 \<Rightarrow> u64 \<Rightarrow> nat" where
  "heap_limit vtom last_end = (if vtom \<noteq> 0 then min (unat vtom) (unat last_end) else unat last_end)"

definition sev_started :: "env \<Rightarrow> u64 \<Rightarrow> u64 \<Rightarrow> SevMemoryMapEntry set \<Rightarrow> sev_heap \<Rightarrow> bool" where
  "sev_started E hs vtom seen st \<longleftrightarrow>
    heap_inv E (sev_ranges st) \<and> sdata (first_range (sev_ranges st)) = hs \<and>
    scount (first_range (sev_ranges st)) \<noteq> 0 \<and>
    ordered_ranges (heap_spans (sev_ranges st)) \<and>
    (\<forall>r \<in> set (heap_spans (sev_ranges st)).
       span_end r \<le> heap_limit vtom (last_entry_end_address st)) \<and>
    (\<forall>x. is_heap_address (sev_ranges st) x \<longrightarrow> (\<exists>e \<in> seen. entry_covers e x))"

definition sev_vtom_inv :: "u64 \<Rightarrow> SevMemoryMapEntry set \<Rightarrow> sev_heap \<Rightarrow> bool" where
  "sev_vtom_inv vtom seen st \<longleftrightarrow>
    (if first_vtom_entry st then
       above_vtom_memory_range st = mk_span 0 0 \<and> (vtom \<noteq> 0 \<longrightarrow> last_entry_end_address st \<le> vtom)
     else vtom \<noteq> 0 \<and> sdata (above_vtom_memory_range st) = vtom \<and>
       scount (above_vtom_memory_range st) \<noteq> 0 \<and>
       span_end (above_vtom_memory_range st) \<le> unat (last_entry_end_address st) \<and>
       (\<exists>e \<in> seen. \<forall>x. overlaps (byte_range (above_vtom_memory_range st)) x \<longrightarrow> entry_covers e x))"

definition sev_inv :: "env \<Rightarrow> u64 \<Rightarrow> u64 \<Rightarrow> SevMemoryMapEntry set \<Rightarrow> sev_heap \<Rightarrow> bool" where
  "sev_inv E hs vtom seen st \<longleftrightarrow>
    unat (last_entry_end_address st) \<le> 2 ^ 48 \<and> sev_vtom_inv vtom seen st \<and>
    (if first_entry st then sev_ranges st = heap_init \<and> last_entry_end_address st = 0
     else sev_started E hs vtom seen st)"

lemma sev_inv_init: "sev_inv E hs vtom {} sev_heap_init"
  by (simp add: sev_inv_def sev_vtom_inv_def sev_heap_init_def)

lemma ordered_snoc:
  assumes "ordered_ranges rs" and "\<forall>r \<in> set rs. span_end r \<le> unat (sdata s)"
  shows "ordered_ranges (rs @ [s])"
  using assms by (simp add: ordered_ranges_def sorted_wrt_append)

lemma span_overlaps_end: "span_ok s \<Longrightarrow>
  overlaps (byte_range s) x \<longleftrightarrow> unat (sdata s) \<le> unat x \<and> unat x < span_end s"
  by (simp add: overlaps_span span_end_def)

context snmalloc_env
begin

text \<open>Storing the first range: it starts at the heap start and stays in its entry.\<close>

lemma sev_store_first:
  assumes "sev_heap_store E hs a cur sz st = Inr st'" and "first_entry st" and "sz \<noteq> 0"
    and "sev_ranges st = heap_init" and "hs < cur" and "a \<le> hs"
    and "\<And>x. a \<le> x \<Longrightarrow> x < cur \<Longrightarrow> entry_covers e x"
    and "unat cur \<le> heap_limit vtom (last_entry_end_address st)"
  shows "sev_started E hs vtom (insert e seen) st' \<and> first_entry st' = False \<and>
    first_vtom_entry st' = first_vtom_entry st \<and>
    above_vtom_memory_range st' = above_vtom_memory_range st \<and>
    last_entry_end_address st' = last_entry_end_address st"
proof -
  let ?r = "mk_span hs (cur - hs)"
  obtain h where h: "set_first E ?r heap_init = Inr h"
      and st': "st' = st\<lparr>sev_ranges := h, first_entry := False\<rparr>"
    using assms(1-4) by (auto simp: sev_heap_store_def res_bind_Inr_iff)
  have le: "unat (sdata ?r) \<le> unat (sdata ?r + scount ?r)" using assms(5) by (simp add: word_less_nat)
  obtain s where s: "align_end E ?r = Inr s" "first_range h = s" "additional_ranges h = []"
    using h by (auto simp: set_first_def res_bind_Inr_iff heap_init_def)
  note res = align_end_result [OF s(1) le]
  have send: "span_end s \<le> unat cur"
    using res(4) down_to_le [of "unat (PAGE_SIZE E)" "unat cur"] by (simp add: span_end_def)
  have "entry_covers e x" if "is_heap_address h x" for x
  proof -
    from that have "unat hs \<le> unat x" "unat x < unat cur"
      using send res(1,2) by (auto simp: is_heap_address_def s span_overlaps_end)
    then show ?thesis using assms(6) by (intro assms(7)) (simp_all add: word_nat)
  qed
  moreover have "heap_inv E h" by (rule set_first_inv [OF h heap_init_inv le])
  ultimately show ?thesis
    using send assms(8) res(1,3)
    by (auto simp: sev_started_def st' s heap_spans_def ordered_ranges_def)
qed

lemma sev_store_add:
  assumes "sev_heap_store E hs a cur sz st = Inr st'" and "\<not> first_entry st" and "sz \<noteq> 0"
    and "sev_started E hs vtom seen st0" and "sev_ranges st = sev_ranges st0"
    and "unat a + unat (PAGE_SIZE E) \<le> 2 ^ 64" and "a + sz = cur"
    and "heap_limit vtom (last_entry_end_address st0) \<le> unat a"
    and "\<And>x. a \<le> x \<Longrightarrow> x < cur \<Longrightarrow> entry_covers e x"
    and "unat cur \<le> heap_limit vtom (last_entry_end_address st)"
    and "heap_limit vtom (last_entry_end_address st0) \<le> heap_limit vtom (last_entry_end_address st)"
  shows "sev_started E hs vtom (insert e seen) st' \<and> first_entry st' = False \<and>
    first_vtom_entry st' = first_vtom_entry st \<and>
    above_vtom_memory_range st' = above_vtom_memory_range st \<and>
    last_entry_end_address st' = last_entry_end_address st \<and> unat a \<le> unat cur"
proof -
  let ?r = "mk_span a sz"
  obtain h where h: "add_heap E ?r (sev_ranges st0) = Inr h" and st': "st' = st\<lparr>sev_ranges := h\<rparr>"
    using assms(1-3,5) by (auto simp: sev_heap_store_def res_bind_Inr_iff)
  obtain s where s: "align_span E ?r = Inr s" "first_range h = first_range (sev_ranges st0)"
      "additional_ranges h = additional_ranges (sev_ranges st0) @ [s]"
    using h by (auto simp: add_heap_def res_bind_Inr_iff split: if_splits)
  have page: "unat (sdata ?r) + unat (PAGE_SIZE E) \<le> 2 ^ 64" using assms(6) by simp
  note res = align_span_result [OF s(1) page]
  have lo: "unat a \<le> unat (sdata s)" using res(2) up_to_ge [OF page_size_pos, of "unat a"] by simp
  have hi: "span_end s \<le> unat cur"
    using res(3) down_to_le [of "unat (PAGE_SIZE E)" "unat cur"] by (simp add: span_end_def assms(7))
  have ok: "span_ok s" using res(1) by (simp add: page_span_def)
  have "\<exists>e' \<in> insert e seen. entry_covers e' x" if "is_heap_address h x" for x
  proof (cases "is_heap_address (sev_ranges st0) x")
    case False
    then have "unat a \<le> unat x" "unat x < unat cur"
      using that lo hi by (auto simp: is_heap_address_def s span_overlaps_end [OF ok])
    then show ?thesis using assms(9) by (auto simp: word_nat)
  qed (use assms(4) in \<open>auto simp: sev_started_def\<close>)
  moreover have "heap_inv E h"
    using add_heap_inv [OF h] assms(4) page by (simp add: sev_started_def)
  moreover have "ordered_ranges (heap_spans h)"
    using ordered_snoc [of "heap_spans (sev_ranges st0)" s] assms(4,8) lo
    by (fastforce simp: heap_spans_def sev_started_def s)
  moreover have "\<forall>r \<in> set (heap_spans h). span_end r \<le> heap_limit vtom (last_entry_end_address st)"
    using assms(4,10,11) hi by (fastforce simp: heap_spans_def sev_started_def s)
  moreover have "unat a \<le> unat cur" using lo hi by (simp add: span_end_def)
  ultimately show ?thesis
    using assms(2,4) by (auto simp: sev_started_def st' s)
qed

lemma sev_started_mono:
  assumes "sev_started E hs vtom seen st" and "sev_ranges st' = sev_ranges st" and "seen \<subseteq> seen'"
    and "last_entry_end_address st \<le> last_entry_end_address st'"
  shows "sev_started E hs vtom seen' st'"
proof -
  have "heap_limit vtom (last_entry_end_address st) \<le> heap_limit vtom (last_entry_end_address st')"
    using assms(4) by (auto simp: heap_limit_def word_nat)
  then show ?thesis using assms(1-3) by (fastforce simp: sev_started_def)
qed

lemma sev_heap_entry_facts:
  assumes "sev_heap_entry E hs vtom e st = Inr st'"
  defines "a \<equiv> gpa_page_offset e * HV_PAGE_SIZE" and "sz \<equiv> page_count e * HV_PAGE_SIZE"
  shows "sz \<noteq> 0" and "unat (a + sz) = unat a + unat sz" and "unat (a + sz) \<le> 2 ^ 48"
    and "last_entry_end_address st \<le> a"
    and "first_entry st \<Longrightarrow> a \<le> hs \<and> hs < a + sz"
    and "entry_covers e x \<longleftrightarrow> a \<le> x \<and> x < a + sz"
    and "unat a + unat (PAGE_SIZE E) \<le> 2 ^ 64"
proof -
  have ok: "sz \<noteq> 0 \<and> \<not> a + sz < a \<and> \<not> push_bit 48 1 < a + sz \<and> \<not> a < last_entry_end_address st \<and>
      (first_entry st \<longrightarrow> a \<le> hs \<and> hs < a + sz)"
    using assms(1) unfolding a_def sz_def by (auto simp: sev_heap_entry_def Let_def split: if_splits)
  then show "sz \<noteq> 0" "last_entry_end_address st \<le> a" "first_entry st \<Longrightarrow> a \<le> hs \<and> hs < a + sz"
    by auto
  show sum: "unat (a + sz) = unat a + unat sz"
    using ok unat_plus_simple [of a sz] by (simp add: linorder_not_less)
  have "unat (push_bit 48 1 :: u64) = 2 ^ 48" by simp
  then show lim: "unat (a + sz) \<le> 2 ^ 48" using ok by (metis linorder_not_less word_less_nat)
  show "entry_covers e x \<longleftrightarrow> a \<le> x \<and> x < a + sz"
    by (simp add: entry_covers_def overlaps_mk_range a_def sz_def)
  show "unat a + unat (PAGE_SIZE E) \<le> 2 ^ 64" using sum lim page_size_bound by simp
qed

lemma sev_heap_entry_below:
  assumes run: "sev_heap_entry E hs vtom e st = Inr st'" and inv: "sev_inv E hs vtom seen st"
    and low: "vtom = 0 \<or> gpa_page_offset e * HV_PAGE_SIZE + page_count e * HV_PAGE_SIZE \<le> vtom"
  shows "sev_inv E hs vtom (insert e seen) st' \<and> \<not> first_entry st'"
proof -
  define a sz where "a = gpa_page_offset e * HV_PAGE_SIZE" and "sz = page_count e * HV_PAGE_SIZE"
  note facts = sev_heap_entry_facts [OF run, folded a_def sz_def]
  let ?st1 = "st\<lparr>last_entry_end_address := a + sz\<rparr>"
  have store: "sev_heap_store E hs a (a + sz) sz ?st1 = Inr st'"
    using run low facts(1) unfolding a_def sz_def
    by (auto simp: sev_heap_entry_def Let_def split: if_splits)
  have lim: "heap_limit vtom (a + sz) = unat (a + sz)"
    using low unfolding heap_limit_def a_def [symmetric] sz_def [symmetric] by (auto simp: word_nat)
  have lim0: "heap_limit vtom (last_entry_end_address st) \<le> unat a"
    using facts(4) by (auto simp: heap_limit_def word_nat)
  have fvt: "first_vtom_entry st \<or> last_entry_end_address st \<le> a"
    using facts(4) by simp
  have fields: "first_vtom_entry st' = first_vtom_entry st \<and>
      above_vtom_memory_range st' = above_vtom_memory_range st \<and>
      last_entry_end_address st' = a + sz \<and> sev_started E hs vtom (insert e seen) st' \<and> \<not> first_entry st'"
  proof (cases "first_entry st")
    case True
    then show ?thesis
      using sev_store_first [OF store, where e=e and vtom=vtom and seen=seen] facts inv lim
      by (simp add: sev_inv_def)
  next
    case False
    then show ?thesis
      using sev_store_add [OF store, where e=e and vtom=vtom and seen=seen and ?st0.0=st]
        facts inv lim lim0
      by (simp add: sev_inv_def)
  qed
  moreover have "sev_vtom_inv vtom (insert e seen) st'"
    using inv fields low facts(2,4) unfolding a_def [symmetric] sz_def [symmetric]
    by (auto simp: sev_inv_def sev_vtom_inv_def word_nat)
  ultimately show ?thesis using facts(3) by (simp add: sev_inv_def)
qed

lemma sev_heap_entry_above:
  assumes run: "sev_heap_entry E hs vtom e st = Inr st'" and inv: "sev_inv E hs vtom seen st"
    and high: "vtom \<noteq> 0" "vtom < gpa_page_offset e * HV_PAGE_SIZE + page_count e * HV_PAGE_SIZE"
    and "\<not> first_vtom_entry st"
  shows "sev_inv E hs vtom (insert e seen) st' \<and> \<not> first_entry st'"
proof -
  define a sz where "a = gpa_page_offset e * HV_PAGE_SIZE" and "sz = page_count e * HV_PAGE_SIZE"
  note facts = sev_heap_entry_facts [OF run, folded a_def sz_def]
  have st': "st' = st\<lparr>last_entry_end_address := a + sz\<rparr>"
    using run high assms(5) unfolding a_def sz_def
    by (auto simp: sev_heap_entry_def Let_def split: if_splits)
  have le: "last_entry_end_address st \<le> a + sz" using facts(2,4) by (simp add: word_nat)
  have nf: "\<not> first_entry st"
    using inv assms(5) by (auto simp: sev_inv_def sev_vtom_inv_def span_end_def unat_eq_0)
  then have s0: "sev_started E hs vtom seen st" and v: "sev_vtom_inv vtom seen st"
    using inv by (simp_all add: sev_inv_def)
  from s0 have "sev_started E hs vtom (insert e seen) st'"
    by (rule sev_started_mono) (simp_all add: st' le subset_insertI)
  moreover have "sev_vtom_inv vtom (insert e seen) st'"
  proof -
    have "span_end (above_vtom_memory_range st) \<le> unat (a + sz)"
      using v assms(5) le by (simp add: sev_vtom_inv_def word_nat)
    then show ?thesis using v assms(5) by (simp add: sev_vtom_inv_def st')
  qed
  ultimately show ?thesis using nf facts(3) by (simp add: sev_inv_def st')
qed

lemma sev_heap_entry_carve:
  assumes run: "sev_heap_entry E hs vtom e st = Inr st'" and inv: "sev_inv E hs vtom seen st"
    and high: "vtom \<noteq> 0" "vtom < gpa_page_offset e * HV_PAGE_SIZE + page_count e * HV_PAGE_SIZE"
    and first: "first_vtom_entry st" and hs: "hs < vtom"
  shows "sev_inv E hs vtom (insert e seen) st' \<and> \<not> first_entry st'"
proof -
  define a sz where "a = gpa_page_offset e * HV_PAGE_SIZE" and "sz = page_count e * HV_PAGE_SIZE"
  note facts = sev_heap_entry_facts [OF run, folded a_def sz_def]
  note high' = high [folded a_def sz_def]
  let ?above = "mk_span vtom (a + sz - vtom)"
  let ?st1 = "st\<lparr>last_entry_end_address := a + sz, above_vtom_memory_range := ?above,
    first_vtom_entry := False\<rparr>"
  have store: "sev_heap_store E hs a vtom (vtom - a) ?st1 = Inr st'"
    using run high first facts(1) unfolding a_def sz_def
    by (auto simp: sev_heap_entry_def Let_def algebra_simps split: if_splits)
  have lim: "heap_limit vtom (a + sz) = unat vtom"
    using high' by (simp add: heap_limit_def word_less_nat)
  have lim0: "heap_limit vtom (last_entry_end_address st) \<le> unat a"
    using facts(4) by (auto simp: heap_limit_def word_nat)
  have lim1: "heap_limit vtom (last_entry_end_address st) \<le> unat vtom"
    using high' by (simp add: heap_limit_def)
  have main: "sev_started E hs vtom (insert e seen) st' \<and> \<not> first_entry st' \<and>
      \<not> first_vtom_entry st' \<and> above_vtom_memory_range st' = ?above \<and>
      last_entry_end_address st' = a + sz \<and> unat a \<le> unat vtom"
  proof (cases "first_entry st")
    case True
    then have "a \<le> hs" "vtom - a \<noteq> 0" "sev_ranges ?st1 = heap_init"
      using facts(5) hs inv by (auto simp: sev_inv_def)
    then show ?thesis
      using sev_store_first [OF store, where e=e and vtom=vtom and seen=seen] True facts(6) hs lim high'
      by (simp add: word_nat)
  next
    case False
    then have s0: "sev_started E hs vtom seen st" using inv by (simp add: sev_inv_def)
    show ?thesis
    proof (cases "a = vtom")
      case True
      then have st': "st' = ?st1" using store by (simp add: sev_heap_store_def)
      have "sev_started E hs vtom (insert e seen) st'"
        using s0 by (rule sev_started_mono) (use facts(2,4) in \<open>auto simp: st' word_nat\<close>)
      then show ?thesis using False True by (simp add: st')
    next
      case ne: False
      then show ?thesis
        using sev_store_add [OF store, where e=e and vtom=vtom and seen=seen and ?st0.0=st]
          False s0 facts(6,7) lim lim0 lim1 high'
        by (simp add: word_nat)
    qed
  qed
  have cnt: "unat (a + sz - vtom) = unat (a + sz) - unat vtom"
    using high' by (simp add: unat_sub64 word_less_nat)
  have "sev_vtom_inv vtom (insert e seen) st'"
    using main high' cnt facts(6)
    by (auto simp: sev_vtom_inv_def span_end_def word_nat overlaps_def)
  then show ?thesis using main facts(3) by (simp add: sev_inv_def)
qed

lemma sev_heap_entry_inv:
  assumes "sev_heap_entry E hs vtom e st = Inr st'" and "sev_inv E hs vtom seen st"
    and "vtom \<noteq> 0 \<Longrightarrow> hs < vtom"
  shows "sev_inv E hs vtom (insert e seen) st' \<and> \<not> first_entry st'"
  using sev_heap_entry_below [OF assms(1,2)] sev_heap_entry_above [OF assms(1,2)]
    sev_heap_entry_carve [OF assms(1,2)] assms(3) by (meson linorder_not_less)

lemma sev_heap_loop_inv:
  assumes "sev_heap_loop E hs vtom es st = Inr st'" and "sev_inv E hs vtom seen st"
    and "vtom \<noteq> 0 \<Longrightarrow> hs < vtom"
  shows "sev_inv E hs vtom (seen \<union> set es) st' \<and>
    (\<not> first_entry st \<or> es \<noteq> [] \<and> \<not> is_null (hd es) \<longrightarrow> \<not> first_entry st')"
  using assms(1,2)
proof (induction es arbitrary: st seen)
  case (Cons e es)
  show ?case
  proof (cases "is_null e")
    case True
    have "sev_inv E hs vtom (seen \<union> set (e # es)) st"
      using Cons.prems(2) unfolding sev_inv_def sev_vtom_inv_def sev_started_def
      by (smt (verit) UnI1)
    then show ?thesis using True Cons.prems by simp
  next
    case False
    then obtain u where u: "sev_heap_entry E hs vtom e st = Inr u" "sev_heap_loop E hs vtom es u = Inr st'"
      using Cons.prems(1) by (auto simp: res_bind_Inr_iff)
    note step = sev_heap_entry_inv [OF u(1) Cons.prems(2) assms(3)]
    then show ?thesis using Cons.IH [OF u(2), of "insert e seen"] by auto
  qed
qed auto

lemma heap_end:
  assumes "sev_started E hs vtom seen st"
  defines "e \<equiv> largest_valid_address (sev_ranges st) + 1"
  shows "unat e = span_end (last (heap_spans (sev_ranges st)))"
    and "unat (PAGE_SIZE E) dvd unat e" and "hs < e"
    and "unat e \<le> heap_limit vtom (last_entry_end_address st)"
proof -
  let ?h = "sev_ranges st" and ?l = "last (heap_spans (sev_ranges st))"
  have inv: "heap_inv E ?h" and ord: "ordered_ranges (heap_spans ?h)"
    using assms(1) by (simp_all add: sev_started_def)
  have last_in: "?l \<in> set (heap_spans ?h)" by (simp add: heap_spans_def)
  have ok: "span_ok ?l" and dv: "unat (PAGE_SIZE E) dvd span_end ?l"
    using inv last_in by (auto simp: heap_inv_def heap_spans_def list_all_iff page_span_def span_end_def)
  have e: "e = sdata ?l + scount ?l"
    by (simp add: e_def largest_valid_address_def heap_spans_def last_conv_nth)
  then show 1: "unat e = span_end ?l" using ok by (simp add: span_end_def span_ok_end)
  show "unat (PAGE_SIZE E) dvd unat e" using 1 dv by simp
  show "unat e \<le> heap_limit vtom (last_entry_end_address st)"
    using assms(1) last_in 1 by (simp add: sev_started_def)
  have f: "sdata (first_range ?h) = hs" "scount (first_range ?h) \<noteq> 0"
    using assms(1) by (simp_all add: sev_started_def)
  have "span_end (first_range ?h) \<le> span_end ?l"
  proof (cases "additional_ranges ?h = []")
    case False
    then have "?l \<in> set (additional_ranges ?h)" by (simp add: heap_spans_def)
    then have "span_end (first_range ?h) \<le> unat (sdata ?l)"
      using ord by (simp add: ordered_ranges_def heap_spans_def)
    then show ?thesis by (simp add: span_end_def)
  qed (simp add: heap_spans_def)
  moreover have "0 < unat (scount (first_range ?h))" using f(2) by (simp add: unat_gt_0)
  ultimately show "hs < e" using 1 f(1) by (simp add: word_less_nat span_end_def)
qed

lemma accept_heap_range:
  assumes "unat (PAGE_SIZE E) dvd unat e" and "hs < e" and "unat e \<le> 2 ^ 48"
  shows "accept_private_memory (align_up_start E (mk_range hs e) (PAGE_SIZE E)) =
    Some (frames (up_to (unat (PAGE_SIZE E)) (unat hs) div 4096) (unat e div 4096))"
proof -
  let ?P = "unat (PAGE_SIZE E)"
  have hs: "unat hs < unat e" using assms(2) by (simp add: word_less_nat)
  have "unat hs + ?P \<le> 2 ^ 64" using hs assms(3) page_size_bound by simp
  then have u: "unat (align_up E hs (PAGE_SIZE E)) = up_to ?P (unat hs)" by (simp add: align_up)
  have le: "up_to ?P (unat hs) \<le> unat e" using assms(1) hs by (simp add: up_to_least)
  have d: "4096 dvd up_to ?P (unat hs)" "4096 dvd unat e"
    using page_size_4k assms(1) by (meson dvd_trans up_to_dvd)+
  have "rstart (align_up_start E (mk_range hs e) (PAGE_SIZE E)) = align_up E hs (PAGE_SIZE E)"
    "rend (align_up_start E (mk_range hs e) (PAGE_SIZE E)) = e"
    using le assms(2) by (auto simp: align_up_start_def Let_def u word_nat word_eq_nat)
  then show ?thesis unfolding accept_private_memory_def
    using d le by (intro accept_loop_frames) (simp_all add: u div_le_mono)
qed

lemma accept_unloaded_range:
  assumes "us \<le> hs" and "unat hs \<le> 2 ^ 48"
  shows "accept_unloaded E us hs =
    Some (frames (up_to 4096 (unat us) div 4096) (up_to (unat (PAGE_SIZE E)) (unat hs) div 4096))"
proof -
  let ?P = "unat (PAGE_SIZE E)"
  let ?a = "align_up E us HV_PAGE_SIZE" and ?r = "align_up_start E (mk_range us hs) HV_PAGE_SIZE"
  have us: "unat us \<le> unat hs" using assms(1) by (simp add: word_nat)
  have a: "unat ?a = up_to 4096 (unat us)"
    using us assms(2) by (simp add: align_up HV_PAGE_SIZE_def)
  have r: "rstart ?r = ?a" "unat (rend ?r) = max (up_to 4096 (unat us)) (unat hs)"
    using us by (auto simp: align_up_start_def Let_def word_nat a max_def)
  have ulim: "up_to 4096 (unat us) < 2 ^ 48 + 4096" using up_to_less [of 4096 "unat us"] us assms(2) by simp
  have "up_to ?P (max (up_to 4096 (unat us)) (unat hs)) = up_to ?P (unat hs)"
  proof (cases "up_to 4096 (unat us) \<le> unat hs")
    case False
    then have "up_to 4096 (unat us) = up_to 4096 (unat hs)"
      using us by (intro le_antisym) (simp_all add: up_to_least, meson le_trans up_to_dvd up_to_ge up_to_least zero_less_numeral)
    then show ?thesis using False up_to_up_to [of 4096 ?P "unat hs"] page_size_4k by (simp add: max_def)
  qed (simp add: max_def)
  then have e: "unat (align_up E (rend ?r) (PAGE_SIZE E)) = up_to ?P (unat hs)"
    using r(2) ulim assms(2) page_size_bound by (subst align_up) (auto simp: max_def)
  have d: "4096 dvd up_to ?P (unat hs)" using page_size_4k by (meson dvd_trans up_to_dvd)
  have le: "up_to 4096 (unat us) \<le> up_to ?P (unat hs)"
    using d us up_to_ge [of ?P "unat hs"] by (intro up_to_least) auto
  have "rend (align_up_end E ?r (PAGE_SIZE E)) = align_up E (rend ?r) (PAGE_SIZE E)"
    using le by (auto simp: align_up_end_def Let_def r(1) word_nat word_eq_nat a e)
  moreover have "rstart (align_up_end E ?r (PAGE_SIZE E)) = ?a"
    by (simp add: align_up_end_def Let_def r(1))
  ultimately show ?thesis unfolding accept_unloaded_def accept_private_memory_def Let_def
    using d le by (intro accept_loop_frames) (simp_all add: a e div_le_mono)
qed

end

lemma setup_heap_sev_loop:
  assumes "setup_heap_sev E hs vtom mm = Some (Inr (st, pages))"
  shows "sev_heap_loop E hs vtom mm sev_heap_init = Inr st" and "vtom \<noteq> 0 \<Longrightarrow> hs < vtom"
    and "vtom \<noteq> 0 \<Longrightarrow> scount (above_vtom_memory_range st) \<noteq> 0"
  using assms
  by (auto simp: setup_heap_sev_def Let_def linorder_not_le bind_eq_Some_conv
      split: if_splits sum.splits)

lemma setup_heap_sev_inv:
  assumes "snmalloc_env E" and "sev_heap_loop E hs vtom mm sev_heap_init = Inr st"
    and "vtom \<noteq> 0 \<Longrightarrow> hs < vtom" and "mm \<noteq> []" and "\<not> is_null (hd mm)"
  shows "sev_started E hs vtom (set mm) st" and "sev_vtom_inv vtom (set mm) st"
    and "unat (last_entry_end_address st) \<le> 2 ^ 48"
  using snmalloc_env.sev_heap_loop_inv [OF assms(1,2) sev_inv_init assms(3)] assms(4,5)
  by (auto simp: sev_inv_def)

lemma sev_started_limit:
  assumes "sev_started E hs vtom seen st" and "is_heap_address (sev_ranges st) x"
  shows "unat x < heap_limit vtom (last_entry_end_address st)"
proof -
  obtain r where r: "r \<in> set (heap_spans (sev_ranges st))" "overlaps (byte_range r) x"
    using assms(2) by (auto simp: is_heap_address_iff heap_spans_def)
  have "span_ok r"
    using assms(1) r(1) by (auto simp: sev_started_def heap_inv_def heap_spans_def list_all_iff page_span_def)
  then have "unat x < span_end r" using r(2) by (simp add: span_overlaps_end)
  then show ?thesis using assms(1) r(1) by (fastforce simp: sev_started_def)
qed

text \<open>A small two-entry map whose second entry crosses the virtual top of memory.\<close>

definition sample_map :: "SevMemoryMapEntry list" where
  "sample_map =
    [\<lparr>gpa_page_offset = 0x700, page_count = 3, mm_flags = 0\<rparr>,
     \<lparr>gpa_page_offset = 0x705, page_count = 5, mm_flags = 0\<rparr>,
     \<lparr>gpa_page_offset = 0, page_count = 0, mm_flags = 0\<rparr>]"

definition sample_heap :: sev_heap where
  "sample_heap = \<lparr>sev_ranges = \<lparr>first_range = mk_span 0x700800 0x2800,
        additional_ranges = [mk_span 0x705000 0x3000]\<rparr>,
     above_vtom_memory_range = mk_span 0x708000 0x2000, first_entry = False,
     first_vtom_entry = False, last_entry_end_address = 0x70a000\<rparr>"

lemma sample_loop:
  "sev_heap_loop (rounding_env 4096) 0x700800 0x708000 sample_map sev_heap_init = Inr sample_heap"
  by (simp add: sample_map_def sample_heap_def is_null_def sev_heap_entry_def sev_heap_store_def
      sev_heap_init_def heap_init_def set_first_def add_heap_def align_end_def align_span_def
      align_down_end_def align_restrict_def Let_def is_empty_range_def span_first_def subspan_def
      MAX_RANGE_COUNT_def HV_PAGE_SIZE_def)

lemma sample_setup:
  "setup_heap_sev (rounding_env 4096) 0x700800 0x708000 sample_map =
   Some (Inr (sample_heap, [0x701000, 0x702000, 0x703000, 0x704000, 0x705000, 0x706000, 0x707000]))"
  by (simp add: setup_heap_sev_def sample_loop)
    (simp add: sample_heap_def largest_valid_address_def align_up_start_def Let_def
      accept_private_memory_def accept_loop.simps RMP_GRANULARITY_def)

text \<open>C8. Whatever memory map the host supplies, a completed SEV heap set-up gives a heap that
  starts at the heap marker, whose ranges are page-aligned, increasing and disjoint, whose
  every address lies in an entry of the map, below 2^48 and below the virtual top of memory;
  the host-visible pool starts exactly at the virtual top of memory and lies in one entry.\<close>
theorem setup_heap_sev_safe:
  assumes "snmalloc_env E" and "setup_heap_sev E hs vtom mm = Some (Inr (st, pages))"
    and "mm \<noteq> []" and "\<not> is_null (hd mm)"
  shows "heap_inv E (sev_ranges st) \<and> sdata (first_range (sev_ranges st)) = hs \<and>
    ordered_ranges (heap_spans (sev_ranges st)) \<and>
    (\<forall>x. is_heap_address (sev_ranges st) x \<longrightarrow>
      (\<exists>e \<in> set mm. entry_covers e x) \<and> unat x < 2 ^ 48 \<and> (vtom \<noteq> 0 \<longrightarrow> x < vtom)) \<and>
    (vtom \<noteq> 0 \<longrightarrow> sdata (above_vtom_memory_range st) = vtom \<and>
      scount (above_vtom_memory_range st) \<noteq> 0 \<and>
      (\<exists>e \<in> set mm. \<forall>x. overlaps (byte_range (above_vtom_memory_range st)) x \<longrightarrow> entry_covers e x))"
proof -
  note loop = setup_heap_sev_loop [OF assms(2)]
  note inv = setup_heap_sev_inv [OF assms(1) loop(1,2) assms(3,4)]
  have "unat x < 2 ^ 48 \<and> (vtom \<noteq> 0 \<longrightarrow> x < vtom)" if "is_heap_address (sev_ranges st) x" for x
    using sev_started_limit [OF inv(1) that] inv(3)
    by (auto simp: heap_limit_def word_less_nat split: if_splits)
  moreover have "\<not> first_vtom_entry st" if "vtom \<noteq> 0"
    using loop(3) [OF that] inv(2) by (auto simp: sev_vtom_inv_def)
  ultimately show ?thesis using inv(1,2) by (auto simp: sev_started_def sev_vtom_inv_def)
qed

theorem setup_heap_sev_safe_witness:
  "ordered_ranges (heap_spans (sev_ranges sample_heap)) \<and>
   is_heap_address (sev_ranges sample_heap) 0x706000 \<and>
   (\<exists>e \<in> set sample_map. entry_covers e 0x706000)"
proof -
  have h: "is_heap_address (sev_ranges sample_heap) 0x706000"
    by (simp add: sample_heap_def is_heap_address_def overlaps_def)
  have "sample_map \<noteq> []" "\<not> is_null (hd sample_map)" by (simp_all add: sample_map_def is_null_def)
  from setup_heap_sev_safe [OF small_pages.snmalloc_env_axioms sample_setup this] h
  show ?thesis by blast
qed

text \<open>C13. The early boot and the heap set-up terminate and between them hand every 4 KB page from
  the end of the loaded image to the end of the heap to \<open>pvalidate\<close> exactly once: no page
  that was already accepted is ever accepted again.\<close>
theorem sev_pages_accepted_once:
  assumes env: "snmalloc_env E" and us: "us \<le> hs" and vtom: "vtom \<noteq> 0 \<Longrightarrow> hs < vtom \<and> vtom mod PAGE_SIZE E = 0"
    and loop: "sev_heap_loop E hs vtom mm sev_heap_init = Inr st"
    and above: "vtom \<noteq> 0 \<Longrightarrow> scount (above_vtom_memory_range st) \<noteq> 0"
    and mm: "mm \<noteq> []" "\<not> is_null (hd mm)"
  shows "\<exists>early pages. accept_unloaded E us hs = Some early \<and>
    setup_heap_sev E hs vtom mm = Some (Inr (st, pages)) \<and> distinct (early @ pages) \<and>
    (\<forall>p. p \<in> set (early @ pages) \<longleftrightarrow> 4096 dvd unat p \<and> us \<le> p \<and>
      unat p < unat (largest_valid_address (sev_ranges st) + 1))"
proof -
  let ?e = "largest_valid_address (sev_ranges st) + 1" and ?P = "unat (PAGE_SIZE E)"
  have "vtom \<noteq> 0 \<Longrightarrow> hs < vtom" using vtom by simp
  note inv = setup_heap_sev_inv [OF env loop this mm]
  note he = snmalloc_env.heap_end [OF env inv(1)]
  have e48: "unat ?e \<le> 2 ^ 48" using he(4) inv(3) by (simp add: heap_limit_def split: if_splits)
  have hs: "unat hs < unat ?e" using he(3) by (simp add: word_less_nat)
  note pages = snmalloc_env.accept_heap_range [OF env he(2,3) e48]
  note early = snmalloc_env.accept_unloaded_range [OF env us, unfolded atLeastAtMost_iff]
  have hs48: "unat hs \<le> 2 ^ 48" using hs e48 by simp
  let ?m = "up_to 4096 (unat us) div 4096" and ?k = "up_to ?P (unat hs) div 4096" and ?n = "unat ?e div 4096"
  have pos: "0 < ?P" and d4: "4096 dvd ?P"
    using env by (simp_all add: snmalloc_env.page_size_pos snmalloc_env.page_size_4k)
  have "up_to 4096 (unat us) \<le> up_to ?P (unat hs)"
    using us up_to_ge [OF pos, of "unat hs"] dvd_trans [OF d4 up_to_dvd]
    by (intro up_to_least) (auto simp: word_nat)
  moreover have "up_to ?P (unat hs) \<le> unat ?e" using hs he(2) pos by (simp add: up_to_least)
  ultimately have app: "frames ?m ?k @ frames ?k ?n = frames ?m ?n"
    by (intro frames_append) (simp_all add: div_le_mono)
  have n: "4096 * ?n = unat ?e" using dvd_trans [OF d4 he(2)] by simp
  have setf: "p \<in> set (frames ?m ?n) \<longleftrightarrow> 4096 dvd unat p \<and> us \<le> p \<and> unat p < unat ?e" for p
    using up_to_ge [of 4096 "unat us"] up_to_least [of 4096 "unat p" "unat us"]
    by (subst set_frames) (auto simp: n word_nat)
  have "setup_heap_sev E hs vtom mm = Some (Inr (st, frames ?k ?n))"
    using vtom loop above pages by (auto simp: setup_heap_sev_def Let_def)
  moreover have "distinct (frames ?m ?n)" using e48 by (intro distinct_frames) (simp add: n)
  ultimately show ?thesis
    using early [OF hs48] setf by (metis app)
qed

theorem sev_pages_accepted_once_witness:
  "\<exists>early pages. accept_unloaded (rounding_env 4096) 0x6ff800 0x700800 = Some early \<and>
    setup_heap_sev (rounding_env 4096) 0x700800 0x708000 sample_map = Some (Inr (sample_heap, pages)) \<and>
    distinct (early @ pages)"
proof -
  have "(0x6ff800 :: u64) \<le> 0x700800" "sample_map \<noteq> []" "\<not> is_null (hd sample_map)"
    "(0x708000 :: u64) \<noteq> 0 \<Longrightarrow> (0x700800 :: u64) < 0x708000 \<and> 0x708000 mod PAGE_SIZE (rounding_env 4096) = 0"
    "(0x708000 :: u64) \<noteq> 0 \<Longrightarrow> scount (above_vtom_memory_range sample_heap) \<noteq> 0"
    by (simp_all add: sample_map_def sample_heap_def is_null_def)
  from sev_pages_accepted_once [OF small_pages.snmalloc_env_axioms this(1,4) sample_loop this(5,2,3)]
  show ?thesis by blast
qed

end
