(* ===== verification/Sev_Protocol.thy ===== *)
theory Sev_Protocol
  imports Sev_Memory Byte_Memory
begin

unbundle bit_operations_syntax

text \<open>
  The protocols between the SEV-SNP guest and its host (\<open>arch/x86_64/hv_sev.cc\<close>, \<open>inc/sev.h\<close>,
  \<open>inc/sev_msr.h\<close>, \<open>inc/sev_ghcb.h\<close> and the hypercall words of \<open>inc/hv.h\<close>).  The host is a
  parameter: at an exit it sees the register of the communication block and the memory,
  and returns any values for both.  The trace of the register and the memory at the exits
  is part of the state.  A function that can stop the machine returns a result and the state.
\<close>

subsection \<open>The register protocol\<close>

definition SEV_GHCB_INFO_NORMAL :: u64 where "SEV_GHCB_INFO_NORMAL = 0x000"
definition SEV_GHCB_INFO_REGISTER_REQUEST :: u64 where "SEV_GHCB_INFO_REGISTER_REQUEST = 0x012"
definition SEV_GHCB_INFO_REGISTER_RESPONSE :: u64 where "SEV_GHCB_INFO_REGISTER_RESPONSE = 0x013"
definition SEV_GHCB_INFO_PAGE_STATE_REQUEST :: u64 where "SEV_GHCB_INFO_PAGE_STATE_REQUEST = 0x014"
definition SEV_GHCB_INFO_PAGE_STATE_RESPONSE :: u64 where "SEV_GHCB_INFO_PAGE_STATE_RESPONSE = 0x015"
definition SEV_GHCB_INFO_FEATURES_REQUEST :: u64 where "SEV_GHCB_INFO_FEATURES_REQUEST = 0x080"
definition SEV_GHCB_INFO_FEATURES_RESPONSE :: u64 where "SEV_GHCB_INFO_FEATURES_RESPONSE = 0x081"
definition SEV_GHCB_INFO_TERMINATION_REQUEST :: u64 where "SEV_GHCB_INFO_TERMINATION_REQUEST = 0x100"

lemmas ghcb_info_defs = SEV_GHCB_INFO_NORMAL_def SEV_GHCB_INFO_REGISTER_REQUEST_def SEV_GHCB_INFO_REGISTER_RESPONSE_def
  SEV_GHCB_INFO_PAGE_STATE_REQUEST_def SEV_GHCB_INFO_PAGE_STATE_RESPONSE_def SEV_GHCB_INFO_FEATURES_REQUEST_def
  SEV_GHCB_INFO_FEATURES_RESPONSE_def SEV_GHCB_INFO_TERMINATION_REQUEST_def

definition simple_request :: "u64 \<Rightarrow> u64 \<Rightarrow> u64" where
  "simple_request info input = info OR push_bit 12 input"

definition response_success :: "u64 \<Rightarrow> u64 \<Rightarrow> bool" where
  "response_success info content \<longleftrightarrow> content AND 0xFFF = info \<and> drop_bit 48 content = 0"

definition response_value :: "u64 \<Rightarrow> u64" where
  "response_value content = drop_bit 12 content"

definition page_state_request :: "u64 \<Rightarrow> bool \<Rightarrow> u64" where
  "page_state_request guest_physical_page_number is_shared =
    SEV_GHCB_INFO_PAGE_STATE_REQUEST OR push_bit 12 guest_physical_page_number OR push_bit 52 (if is_shared then 0x002 else 0x001)"

definition page_state_success :: "u64 \<Rightarrow> bool" where
  "page_state_success content \<longleftrightarrow> content AND 0xFFF = SEV_GHCB_INFO_PAGE_STATE_RESPONSE \<and> drop_bit 32 content = 0"

definition features_request :: u64 where
  "features_request = simple_request SEV_GHCB_INFO_FEATURES_REQUEST 0"

definition termination_request :: "u8 \<Rightarrow> u64" where
  "termination_request reason = simple_request SEV_GHCB_INFO_TERMINATION_REQUEST (ucast (reason AND 0xF))"

subsection \<open>The machine\<close>

record 'h guest =
  mem :: bytes
  ghcb_msr :: u64
  host :: 'h
  exits :: "(u64 \<times> bytes) list"

type_synonym 'h hypervisor = "u64 \<Rightarrow> bytes \<Rightarrow> 'h \<Rightarrow> u64 \<times> bytes \<times> 'h"

definition vmgexit :: "'h hypervisor \<Rightarrow> 'h guest \<Rightarrow> 'h guest" where
  "vmgexit H g = (case H (ghcb_msr g) (mem g) (host g) of (msr, m, h) \<Rightarrow>
    g\<lparr>mem := m, ghcb_msr := msr, host := h, exits := exits g @ [(ghcb_msr g, mem g)]\<rparr>)"

definition write_msr :: "u64 \<Rightarrow> 'h guest \<Rightarrow> 'h guest" where
  "write_msr value g = g\<lparr>ghcb_msr := value\<rparr>"

text \<open>The permission word of \<open>rmpadjust\<close>, and the result of \<open>pvalidate\<close> from its two outputs.\<close>

definition rmp_permissions :: "u8 \<Rightarrow> u8 \<Rightarrow> bool \<Rightarrow> u64" where
  "rmp_permissions vmpl permission_mask vmsa =
    (let permissions = push_bit 8 (ucast permission_mask) OR ucast vmpl in
     if vmsa then permissions OR push_bit 16 1 else permissions)"

definition pvalidate_result :: "bool \<Rightarrow> u32 \<Rightarrow> bool" where
  "pvalidate_result no_update return_code \<longleftrightarrow> \<not> return_code \<noteq> 0"

subsection \<open>Page states\<close>

text \<open>The loop of \<open>update_state_for_range\<close>: one request for each frame; the flag is False if the host refused one.\<close>

function page_state_loop :: "'h hypervisor \<Rightarrow> bool \<Rightarrow> u64 \<Rightarrow> u64 \<Rightarrow> 'h guest \<Rightarrow> bool \<times> 'h guest" where
  "page_state_loop H is_shared frame_number frame_number_end g =
    (if frame_number < frame_number_end then
       let g1 = vmgexit H (write_msr (page_state_request frame_number is_shared) g) in
       if \<not> page_state_success (ghcb_msr g1) then (False, g1)
       else page_state_loop H is_shared (frame_number + 1) frame_number_end g1
     else (True, g))"
  by auto

lemma next_frame: "f < stop \<Longrightarrow> unat (f + 1 :: u64) = Suc (unat f)"
  using unat_add64 [of f 1] unat_lt64 [of stop] by (simp add: word_less_nat)

termination page_state_loop
  by (relation "measure (\<lambda>(H, b, f, stop, g). unat stop - unat f)") (simp_all add: next_frame word_less_nat diff_less_mono2)

declare page_state_loop.simps [simp del]

text \<open>\<open>update_state_for_range\<close>, with the pages that it hands to \<open>pvalidate\<close>.\<close>

definition update_state_for_range :: "'h hypervisor \<Rightarrow> AddressRange \<Rightarrow> bool \<Rightarrow> 'h guest \<Rightarrow> (u64 list result \<times> 'h guest) option" where
  "update_state_for_range H r is_shared g =
    (let original = ghcb_msr g;
         (ok, g1) = page_state_loop H is_shared (rstart r div HV_PAGE_SIZE) (rend r div HV_PAGE_SIZE) g;
         g2 = write_msr original g1 in
     if \<not> ok then Some (Inl KAbort, g2)
     else if \<not> is_shared then Option.bind (accept_private_memory r) (\<lambda>pages. Some (Inr pages, g2))
     else Some (Inr [], g2))"

subsection \<open>Memory visible to the host\<close>

record visible_pool =
  avail_data :: u64
  avail_size :: u64
  remaining_vtom_offset :: u64

text \<open>The pool is the memory above the virtual top of memory.\<close>

partial_function (option) expand_pool ::
  "env \<Rightarrow> 'h hypervisor \<Rightarrow> byte_span \<Rightarrow> u64 \<Rightarrow> visible_pool \<Rightarrow> 'h guest \<Rightarrow> (visible_pool result \<times> 'h guest) option" where
  "expand_pool E H vtom_range n p g =
    (if avail_size p < n then
       if remaining_vtom_offset p + PAGE_SIZE E > scount vtom_range then Some (Inl KAbort, g)
       else
         let extra_range = subspan vtom_range (remaining_vtom_offset p) (PAGE_SIZE E);
             p1 = p\<lparr>remaining_vtom_offset := remaining_vtom_offset p + scount extra_range\<rparr> in
         Option.bind (update_state_for_range H (byte_range extra_range) True g) (\<lambda>(r, g1).
           case r of Inl f \<Rightarrow> Some (Inl f, g1)
           | Inr _ \<Rightarrow>
             expand_pool E H vtom_range n
               (p1\<lparr>avail_data := (if avail_data p = 0 then sdata extra_range else avail_data p), avail_size := avail_size p + scount extra_range\<rparr>) g1)
     else Some (Inr p, g))"

definition allocate_visible_sev_vtom ::
  "env \<Rightarrow> 'h hypervisor \<Rightarrow> byte_span \<Rightarrow> u64 \<Rightarrow> visible_pool \<Rightarrow> 'h guest \<Rightarrow> ((u64 \<times> visible_pool) result \<times> 'h guest) option" where
  "allocate_visible_sev_vtom E H vtom_range sz p g =
    (let size1 = align_up E sz HV_PAGE_SIZE in
     Option.bind (expand_pool E H vtom_range size1 p g) (\<lambda>(r, g1).
       case r of Inl f \<Rightarrow> Some (Inl f, g1)
       | Inr p1 \<Rightarrow> Some (Inr (avail_data p1, p1\<lparr>avail_data := avail_data p1 + size1, avail_size := avail_size p1 - size1\<rparr>), g1)))"

text \<open>The requests of a run of the loop: one for each frame from the first on.\<close>

definition page_requests :: "bool \<Rightarrow> nat \<Rightarrow> nat \<Rightarrow> u64 list" where
  "page_requests is_shared m n = map (\<lambda>i. page_state_request (word_of_nat i) is_shared) [m..<n]"

definition requests :: "'h guest \<Rightarrow> u64 list" where
  "requests g = map fst (exits g)"

lemma requests_simps [simp]:
  "requests (write_msr v g) = requests g" "requests (vmgexit H g) = requests g @ [ghcb_msr g]" "ghcb_msr (write_msr v g) = v"
  by (simp_all add: requests_def write_msr_def vmgexit_def split: prod.split)

lemma page_state_loop_trace:
  assumes "page_state_loop H b a e g = (ok, g')" and "a \<le> e"
  shows "\<exists>k. unat a \<le> k \<and> k \<le> unat e \<and> requests g' = requests g @ page_requests b (unat a) k \<and>
    (if ok then k = unat e else unat a < k \<and> \<not> page_state_success (ghcb_msr g'))"
  using assms
proof (induction H b a e g rule: page_state_loop.induct)
  case (1 H b a e g)
  define g1 where "g1 = vmgexit H (write_msr (page_state_request a b) g)"
  have r1: "requests g1 = requests g @ [page_state_request a b]" by (simp add: g1_def)
  show ?case
  proof (cases "a < e")
    case False
    then have "page_state_loop H b a e g = (True, g)" "a = e" using "1.prems"(2) by (subst page_state_loop.simps, simp_all)
    then have "a = e" "ok" "g' = g" using "1.prems"(1) by auto
    then show ?thesis by (auto simp: page_requests_def)
  next
    case less: True
    have n: "unat (a + 1) = Suc (unat a)" "a + 1 \<le> e" using next_frame [OF less] less by (simp_all add: word_less_nat word_le_nat)
    show ?thesis
    proof (cases "page_state_success (ghcb_msr g1)")
      case False
      then have "\<not> ok" "g' = g1" using "1.prems"(1) less by (auto simp: page_state_loop.simps [of H b a] Let_def g1_def)
      then show ?thesis using False r1 less by (intro exI [of _ "Suc (unat a)"]) (auto simp: page_requests_def word_less_nat)
    next
      case True
      have "page_state_loop H b (a + 1) e g1 = (ok, g')" using "1.prems"(1) less True
        by (subst (asm) page_state_loop.simps) (simp add: Let_def g1_def)
      from "1.IH" [OF less g1_def _ this n(2)] True obtain k where
        k: "Suc (unat a) \<le> k" "k \<le> unat e" "requests g' = requests g1 @ page_requests b (Suc (unat a)) k"
          "if ok then k = unat e else Suc (unat a) < k \<and> \<not> page_state_success (ghcb_msr g')"
        unfolding n by blast
      have "page_requests b (unat a) k = page_state_request a b # page_requests b (Suc (unat a)) k"
        using k(1) by (simp add: page_requests_def upt_conv_Cons)
      then show ?thesis using k r1 by (intro exI [of _ k]) auto
    qed
  qed
qed

lemma accept_private_range:
  assumes "unat (rstart r) = 4096 * m" "unat (rend r) = 4096 * n" "m \<le> n"
  shows "accept_private_memory r = Some (frames m n)"
  using accept_loop_frames [OF assms(2,1,3)] by (simp add: accept_private_memory_def)

lemma frame_number: "unat a = 4096 * m \<Longrightarrow> unat (a div HV_PAGE_SIZE) = m"
  by (simp add: HV_PAGE_SIZE_def unat_div)

lemma update_state_range:
  assumes "unat (rstart r) = 4096 * m" and "unat (rend r) = 4096 * n" and "m \<le> n"
  shows "\<exists>res g' k. update_state_for_range H r is_shared g = Some (res, g') \<and> ghcb_msr g' = ghcb_msr g \<and>
    requests g' = requests g @ page_requests is_shared m k \<and> m \<le> k \<and> k \<le> n \<and>
    (res = Inr (if is_shared then [] else frames m n) \<and> k = n \<or> res = Inl KAbort \<and> m < k)"
proof -
  obtain ok g1 where loop: "page_state_loop H is_shared (rstart r div HV_PAGE_SIZE) (rend r div HV_PAGE_SIZE) g = (ok, g1)" by fastforce
  have num: "unat (rstart r div HV_PAGE_SIZE) = m" "unat (rend r div HV_PAGE_SIZE) = n" using assms by (simp_all add: frame_number)
  obtain k where k: "m \<le> k" "k \<le> n" "requests g1 = requests g @ page_requests is_shared m k" "if ok then k = n else m < k"
    using page_state_loop_trace [OF loop] assms(3) unfolding word_le_nat num by (metis (full_types))
  show ?thesis using k accept_private_range [OF assms]
    by (intro exI [of _ "if ok then Inr (if is_shared then [] else frames m n) else Inl KAbort"] exI [of _ "write_msr (ghcb_msr g) g1"] exI [of _ k])
      (auto simp: update_state_for_range_def loop Let_def)
qed

text \<open>
  Changing the state of a range of pages always returns.  It asks the host for
  the pages from the first on, each once and in order, and leaves the register of the
  communication block as it was.  If the host accepts, every page of the range has been
  requested, and for a change to private exactly those pages are validated again; if
  the host refuses one, the machine stops.
\<close>

theorem update_state_for_range_exact:
  assumes "unat (rstart r) = 4096 * m" and "unat (rend r) = 4096 * n" and "m \<le> n"
  shows "\<exists>res g' k. update_state_for_range H r is_shared g = Some (res, g') \<and> ghcb_msr g' = ghcb_msr g \<and>
    requests g' = requests g @ page_requests is_shared m k \<and> m \<le> k \<and> k \<le> n \<and>
    (res = Inr (if is_shared then [] else frames m n) \<and> k = n \<or> res = Inl KAbort \<and> m < k)"
  by (rule update_state_range [OF assms])

theorem update_state_for_range_exact_witness:
  "\<exists>res g' k. update_state_for_range (\<lambda>msr m h. (0x15, m, h)) \<lparr>rstart = 0x2000, rend = 0x4000\<rparr> False
      \<lparr>mem = (\<lambda>_. 0), ghcb_msr = 7, host = (), exits = []\<rparr> = Some (res, g') \<and> ghcb_msr g' = 7 \<and>
    requests g' = page_requests False 2 k \<and> 2 \<le> k \<and> k \<le> 4 \<and> (res = Inr (frames 2 4) \<and> k = 4 \<or> res = Inl KAbort \<and> 2 < k)"
  using update_state_for_range_exact [of "\<lparr>rstart = 0x2000, rend = 0x4000\<rparr>" 2 4 "\<lambda>msr m h. (0x15, m, h)" False
      "\<lparr>mem = (\<lambda>_. 0), ghcb_msr = 7, host = (), exits = []\<rparr>"]
  by (simp add: requests_def)

text \<open>A pool is empty and not started, or ends where the shared part of the memory above the virtual top ends.\<close>

definition vtom_ok :: "env \<Rightarrow> byte_span \<Rightarrow> bool" where
  "vtom_ok E v \<longleftrightarrow> unat (PAGE_SIZE E) dvd unat (sdata v) \<and> sdata v \<noteq> 0 \<and> unat (sdata v) + unat (scount v) < 2 ^ 64"

definition pool_ok :: "env \<Rightarrow> byte_span \<Rightarrow> visible_pool \<Rightarrow> bool" where
  "pool_ok E v p \<longleftrightarrow> remaining_vtom_offset p \<le> scount v \<and> unat (PAGE_SIZE E) dvd unat (remaining_vtom_offset p) \<and>
    (if avail_data p = 0 then avail_size p = 0 \<and> remaining_vtom_offset p = 0
     else unat (avail_data p) + unat (avail_size p) = unat (sdata v) + unat (remaining_vtom_offset p) \<and>
       sdata v \<le> avail_data p \<and> 4096 dvd unat (avail_data p))"

definition shared_until :: "byte_span \<Rightarrow> nat \<Rightarrow> 'h guest \<Rightarrow> bool" where
  "shared_until v stop g \<longleftrightarrow>
    (\<forall>i. unat (sdata v) \<le> 4096 * i \<and> 4096 * i < stop \<longrightarrow> page_state_request (word_of_nat i) True \<in> set (requests g))"

lemma shared_until_requests: "shared_until v stop g \<Longrightarrow> requests g' = requests g @ rs \<Longrightarrow> shared_until v stop g'"
  by (auto simp: shared_until_def)

lemma shared_until_extend:
  assumes "shared_until v (4096 * m) g" and "requests g' = requests g @ page_requests True m n"
  shows "shared_until v (4096 * n) g'"
  unfolding shared_until_def
proof (intro allI impI, elim conjE)
  fix i assume i: "unat (sdata v) \<le> 4096 * i" "4096 * i < 4096 * n"
  show "page_state_request (word_of_nat i) True \<in> set (requests g')"
  proof (cases "i < m")
    case True
    then show ?thesis using assms i by (auto simp: shared_until_def)
  next
    case False
    then show ?thesis using assms(2) i by (auto simp: page_requests_def)
  qed
qed

definition pool_end :: "byte_span \<Rightarrow> visible_pool \<Rightarrow> nat" where
  "pool_end v p = unat (sdata v) + unat (remaining_vtom_offset p)"

context snmalloc_env
begin

lemma page_dvd: "4096 dvd unat (PAGE_SIZE E)" "0 < unat (PAGE_SIZE E)"
  using page_size by auto

lemma expand_once:
  assumes v: "vtom_ok E v" and p: "pool_ok E v p" and sh: "shared_until v (pool_end v p) g"
    and room: "remaining_vtom_offset p + PAGE_SIZE E \<le> scount v"
  defines "x \<equiv> subspan v (remaining_vtom_offset p) (PAGE_SIZE E)"
  defines "p1 \<equiv> p\<lparr>remaining_vtom_offset := remaining_vtom_offset p + scount x,
      avail_data := (if avail_data p = 0 then sdata x else avail_data p), avail_size := avail_size p + scount x\<rparr>"
  shows "(\<exists>g'. update_state_for_range H (byte_range x) True g = Some (Inl KAbort, g')) \<or>
    (\<exists>g'. update_state_for_range H (byte_range x) True g = Some (Inr [], g') \<and> ghcb_msr g' = ghcb_msr g \<and> pool_ok E v p1 \<and>
      shared_until v (pool_end v p1) g' \<and> unat (remaining_vtom_offset p1) = unat (remaining_vtom_offset p) + unat (PAGE_SIZE E))"
proof -
  let ?off = "unat (remaining_vtom_offset p)" and ?P = "unat (PAGE_SIZE E)" and ?B = "unat (sdata v)"
  have small: "?off + ?P < 18446744073709551616" "?B + unat (scount v) < 18446744073709551616" "?off \<le> unat (scount v)"
  proof -
    have b: "?P dvd ?B" "0 < ?B" "?B + unat (scount v) < 18446744073709551616" "?off \<le> unat (scount v)"
      using v p by (auto simp: vtom_ok_def pool_ok_def word_le_nat unat_gt_0)
    then show "?B + unat (scount v) < 18446744073709551616" "?off \<le> unat (scount v)" by simp_all
    have "?P \<le> ?B" by (rule dvd_imp_le [OF b(1,2)])
    then show "?off + ?P < 18446744073709551616" using b(3,4) by linarith
  qed
  have off1: "unat (remaining_vtom_offset p + PAGE_SIZE E) = ?off + ?P" using small(1) by (simp add: unat_add64)
  then have le: "?off + ?P \<le> unat (scount v)" using room by (simp add: word_le_nat)
  have d: "unat (sdata x) = ?B + ?off" "unat (sdata x + PAGE_SIZE E) = ?B + ?off + ?P"
    using le small unat_add64 [of "sdata v" "remaining_vtom_offset p"] unat_add64 [of "sdata v + remaining_vtom_offset p" "PAGE_SIZE E"]
    by (simp_all add: x_def subspan_def mk_span_def)
  have dv: "4096 dvd ?B + ?off" "4096 dvd ?B + ?off + ?P"
    using v p page_dvd(1) by (auto simp: vtom_ok_def pool_ok_def intro: dvd_trans)
  then obtain m n where mn: "?B + ?off = 4096 * m" "?B + ?off + ?P = 4096 * n" by (auto elim!: dvdE)
  have r: "unat (rstart (byte_range x)) = 4096 * m" "unat (rend (byte_range x)) = 4096 * n" "m \<le> n"
    using d mn by (simp_all add: byte_range_def span_range_def x_def subspan_def mk_span_def)
  have end1: "pool_end v p = 4096 * m" "pool_end v p1 = 4096 * n"
    using mn off1 by (simp_all add: pool_end_def p1_def x_def subspan_def mk_span_def)
  have ok1: "pool_ok E v p1"
  proof -
    have size1: "avail_data p \<noteq> 0 \<Longrightarrow> unat (avail_size p + PAGE_SIZE E) = unat (avail_size p) + ?P"
      using p small le unat_add64 [of "avail_size p" "PAGE_SIZE E"] by (auto simp: pool_ok_def word_le_nat)
    have nz: "sdata x \<noteq> 0" using d(1) v by (auto simp: vtom_ok_def word_eq_nat [of "sdata x"] unat_gt_0)
    show ?thesis using p le off1 size1 nz d dv(1) room v
      by (auto simp: pool_ok_def p1_def x_def subspan_def mk_span_def word_le_nat vtom_ok_def)
  qed
  obtain res g' k where u: "update_state_for_range H (byte_range x) True g = Some (res, g')" "ghcb_msr g' = ghcb_msr g"
    "requests g' = requests g @ page_requests True m k" "res = Inr [] \<and> k = n \<or> res = Inl KAbort"
    using update_state_range [OF r, of H True g] by auto
  show ?thesis
  proof (cases "res = Inl KAbort")
    case False
    then have "res = Inr []" "k = n" using u(4) by auto
    moreover have "shared_until v (pool_end v p1) g'"
      using shared_until_extend [of v m g g' n] sh u(3) \<open>k = n\<close> end1 by simp
    moreover have "unat (remaining_vtom_offset p1) = ?off + ?P" using off1 by (simp add: p1_def x_def subspan_def mk_span_def)
    ultimately show ?thesis using u ok1 by blast
  qed (use u in blast)
qed

end

context snmalloc_env
begin

text \<open>Growing the pool always returns: each round uses up memory.\<close>

lemma expand_pool_ok:
  assumes v: "vtom_ok E v" and p: "pool_ok E v p" and sh: "shared_until v (pool_end v p) g"
  shows "\<exists>res g'. expand_pool E H v n p g = Some (res, g') \<and> (case res of Inl f \<Rightarrow> f = KAbort
    | Inr p' \<Rightarrow> pool_ok E v p' \<and> shared_until v (pool_end v p') g' \<and> n \<le> avail_size p' \<and> ghcb_msr g' = ghcb_msr g \<and>
        (avail_data p \<noteq> 0 \<longrightarrow> avail_data p' = avail_data p) \<and> (avail_data p = 0 \<longrightarrow> avail_data p' = 0 \<or> avail_data p' = sdata v))"
  using p sh
proof (induction "unat (scount v) - unat (remaining_vtom_offset p)" arbitrary: p g rule: less_induct)
  case less
  show ?case
  proof (cases "avail_size p < n \<and> remaining_vtom_offset p + PAGE_SIZE E \<le> scount v")
    case False
    then show ?thesis using less.prems by (subst expand_pool.simps) (auto simp: not_less not_le)
  next
    case True
    define x where "x = subspan v (remaining_vtom_offset p) (PAGE_SIZE E)"
    define p1 where "p1 = p\<lparr>remaining_vtom_offset := remaining_vtom_offset p + scount x,
      avail_data := (if avail_data p = 0 then sdata x else avail_data p), avail_size := avail_size p + scount x\<rparr>"
    have step: "expand_pool E H v n p g = Option.bind (update_state_for_range H (byte_range x) True g) (\<lambda>(r, g1).
        case r of Inl f \<Rightarrow> Some (Inl f, g1) | Inr _ \<Rightarrow> expand_pool E H v n p1 g1)"
      unfolding x_def p1_def by (subst expand_pool.simps) (use True in \<open>simp add: Let_def leD\<close>)
    from expand_once [OF v less.prems, of H] True
    consider (stop) g' where "update_state_for_range H (byte_range x) True g = Some (Inl KAbort, g')"
      | (more) g' where "update_state_for_range H (byte_range x) True g = Some (Inr [], g')" "ghcb_msr g' = ghcb_msr g" "pool_ok E v p1"
        "shared_until v (pool_end v p1) g'" "unat (remaining_vtom_offset p1) = unat (remaining_vtom_offset p) + unat (PAGE_SIZE E)"
      unfolding x_def p1_def by blast
    then show ?thesis
    proof cases
      case stop
      then show ?thesis by (simp add: step)
    next
      case more
      have "unat (remaining_vtom_offset p1) \<le> unat (scount v)" using more(3) by (simp add: pool_ok_def word_le_nat)
      then have dec: "unat (scount v) - unat (remaining_vtom_offset p1) < unat (scount v) - unat (remaining_vtom_offset p)"
        using more(5) page_dvd(2) by linarith
      have start: "avail_data p \<noteq> 0 \<Longrightarrow> avail_data p1 = avail_data p" "avail_data p = 0 \<Longrightarrow> avail_data p1 = sdata v"
        "avail_data p1 \<noteq> 0" using less.prems(1) v
        by (auto simp: p1_def x_def subspan_def mk_span_def pool_ok_def vtom_ok_def)
      obtain res g2 where e: "expand_pool E H v n p1 g' = Some (res, g2)"
        "case res of Inl f \<Rightarrow> f = KAbort | Inr p' \<Rightarrow> pool_ok E v p' \<and> shared_until v (pool_end v p') g2 \<and> n \<le> avail_size p' \<and>
          ghcb_msr g2 = ghcb_msr g' \<and> (avail_data p1 \<noteq> 0 \<longrightarrow> avail_data p' = avail_data p1) \<and>
          (avail_data p1 = 0 \<longrightarrow> avail_data p' = 0 \<or> avail_data p' = sdata v)"
        using less.hyps [OF dec more(3,4)] by blast
      then show ?thesis using more(1,2) start by (cases res; cases "avail_data p = 0") (simp_all add: step)
    qed
  qed
qed

lemma align_visible: "unat sz + 4096 \<le> 2 ^ 64 \<Longrightarrow> unat (align_up E sz HV_PAGE_SIZE) = up_to 4096 (unat sz)"
  using align_up [of HV_PAGE_SIZE sz] by (simp add: HV_PAGE_SIZE_def)

lemma allocate_visible_ok:
  assumes v: "vtom_ok E v" and p: "pool_ok E v p" and sh: "shared_until v (pool_end v p) g"
    and sz: "0 < unat sz" "unat sz + 4096 \<le> 2 ^ 64"
  shows "\<exists>res g'. allocate_visible_sev_vtom E H v sz p g = Some (res, g') \<and> (case res of Inl f \<Rightarrow> f = KAbort
    | Inr (a, p') \<Rightarrow> pool_ok E v p' \<and> shared_until v (pool_end v p') g' \<and> ghcb_msr g' = ghcb_msr g \<and> 4096 dvd unat a \<and>
        sdata v \<le> a \<and> avail_data p \<le> a \<and> unat a + up_to 4096 (unat sz) = unat (avail_data p') \<and> unat (avail_data p') \<le> pool_end v p')"
proof -
  let ?n = "align_up E sz HV_PAGE_SIZE"
  have n: "unat ?n = up_to 4096 (unat sz)" by (rule align_visible [OF sz(2)])
  have npos: "0 < unat ?n" using n up_to_ge [of 4096 "unat sz"] sz(1) by simp
  obtain res g' where e: "expand_pool E H v ?n p g = Some (res, g')"
    "case res of Inl f \<Rightarrow> f = KAbort | Inr p' \<Rightarrow> pool_ok E v p' \<and> shared_until v (pool_end v p') g' \<and> ?n \<le> avail_size p' \<and>
      ghcb_msr g' = ghcb_msr g \<and> (avail_data p \<noteq> 0 \<longrightarrow> avail_data p' = avail_data p) \<and>
      (avail_data p = 0 \<longrightarrow> avail_data p' = 0 \<or> avail_data p' = sdata v)"
    using expand_pool_ok [OF v p sh, of H ?n] by blast
  show ?thesis
  proof (cases res)
    case (Inl f)
    then show ?thesis using e by (simp add: allocate_visible_sev_vtom_def Let_def)
  next
    case (Inr q)
    have q: "pool_ok E v q" "shared_until v (pool_end v q) g'" "?n \<le> avail_size q" "ghcb_msr g' = ghcb_msr g" "avail_data p \<le> avail_data q"
      using e(2) Inr by (auto simp: word_le_nat)
    have nz: "avail_data q \<noteq> 0" using q(1,3) npos by (auto simp: pool_ok_def word_le_nat)
    then have u: "unat (avail_data q) + unat (avail_size q) = pool_end v q" "sdata v \<le> avail_data q" "4096 dvd unat (avail_data q)"
      "remaining_vtom_offset q \<le> scount v" using q(1) by (auto simp: pool_ok_def pool_end_def)
    have "pool_end v q < 18446744073709551616" using v u(4) by (simp add: vtom_ok_def pool_end_def word_le_nat)
    then have a: "unat (avail_data q + ?n) = unat (avail_data q) + unat ?n" "unat (avail_size q - ?n) = unat (avail_size q) - unat ?n"
      using u(1) q(3) unat_add64 [of "avail_data q" ?n] unat_sub64 [of ?n "avail_size q"] by (simp_all add: word_le_nat)
    define p' where "p' = q\<lparr>avail_data := avail_data q + ?n, avail_size := avail_size q - ?n\<rparr>"
    have pe: "pool_end v p' = pool_end v q" by (simp add: p'_def pool_end_def)
    have "avail_data p' \<noteq> 0" using a(1) npos by (auto simp: p'_def)
    then have ok: "pool_ok E v p'" using q(1,3) nz a u n npos
      by (auto simp: pool_ok_def p'_def word_le_nat pool_end_def)
    have "allocate_visible_sev_vtom E H v sz p g = Some (Inr (avail_data q, p'), g')"
      using e(1) Inr by (simp add: allocate_visible_sev_vtom_def Let_def p'_def)
    then show ?thesis using ok q u n a pe by (auto simp: p'_def word_le_nat)
  qed
qed

end

text \<open>A sequence of allocations, and blocks that follow each other between two addresses.\<close>

fun allocate_all ::
  "env \<Rightarrow> 'h hypervisor \<Rightarrow> byte_span \<Rightarrow> u64 list \<Rightarrow> visible_pool \<Rightarrow> 'h guest \<Rightarrow> ((u64 list \<times> visible_pool) result \<times> 'h guest) option" where
  "allocate_all E H v [] p g = Some (Inr ([], p), g)"
| "allocate_all E H v (sz # szs) p g =
    Option.bind (allocate_visible_sev_vtom E H v sz p g) (\<lambda>(r, g1).
      case r of Inl f \<Rightarrow> Some (Inl f, g1)
      | Inr (a, p1) \<Rightarrow> Option.bind (allocate_all E H v szs p1 g1) (\<lambda>(r2, g2).
          case r2 of Inl f \<Rightarrow> Some (Inl f, g2) | Inr (as, p2) \<Rightarrow> Some (Inr (a # as, p2), g2)))"

fun blocks_ok :: "nat \<Rightarrow> nat \<Rightarrow> u64 list \<Rightarrow> u64 list \<Rightarrow> bool" where
  "blocks_ok lo hi [] [] \<longleftrightarrow> lo \<le> hi"
| "blocks_ok lo hi (a # as) (sz # szs) \<longleftrightarrow> lo \<le> unat a \<and> 4096 dvd unat a \<and> blocks_ok (unat a + up_to 4096 (unat sz)) hi as szs"
| "blocks_ok lo hi _ _ \<longleftrightarrow> False"

definition empty_pool :: visible_pool where
  "empty_pool = \<lparr>avail_data = 0, avail_size = 0, remaining_vtom_offset = 0\<rparr>"

lemma blocks_ok_mono: "blocks_ok lo hi as szs \<Longrightarrow> lo' \<le> lo \<Longrightarrow> blocks_ok lo' hi as szs"
  by (cases "(lo, hi, as, szs)" rule: blocks_ok.cases) auto

context snmalloc_env
begin

lemma allocate_all_ok:
  assumes v: "vtom_ok E v" and p: "pool_ok E v p" and sh: "shared_until v (pool_end v p) g"
    and szs: "\<forall>sz \<in> set szs. 0 < unat sz \<and> unat sz + 4096 \<le> 2 ^ 64"
  shows "\<exists>res g'. allocate_all E H v szs p g = Some (res, g') \<and> (case res of Inl f \<Rightarrow> f = KAbort
    | Inr (as, p') \<Rightarrow> pool_ok E v p' \<and> shared_until v (pool_end v p') g' \<and> ghcb_msr g' = ghcb_msr g \<and>
        blocks_ok (max (unat (sdata v)) (unat (avail_data p))) (pool_end v p') as szs)"
  using p sh szs
proof (induction szs arbitrary: p g)
  case Nil
  then show ?case using v by (auto simp: pool_ok_def pool_end_def split: if_splits)
next
  case (Cons sz szs)
  from allocate_visible_ok [OF v Cons.prems(1,2), of sz H] Cons.prems(3)
  obtain res g1 where al: "allocate_visible_sev_vtom E H v sz p g = Some (res, g1)"
    "case res of Inl f \<Rightarrow> f = KAbort | Inr (a, p') \<Rightarrow> pool_ok E v p' \<and> shared_until v (pool_end v p') g1 \<and> ghcb_msr g1 = ghcb_msr g \<and> 4096 dvd unat a \<and>
        sdata v \<le> a \<and> avail_data p \<le> a \<and> unat a + up_to 4096 (unat sz) = unat (avail_data p') \<and> unat (avail_data p') \<le> pool_end v p'"
    by auto
  show ?case
  proof (cases res)
    case (Inl f)
    then show ?thesis using al by simp
  next
    case (Inr ap)
    obtain a p1 where ap: "ap = (a, p1)" by (cases ap)
    have a: "pool_ok E v p1" "shared_until v (pool_end v p1) g1" "ghcb_msr g1 = ghcb_msr g" "4096 dvd unat a"
      "sdata v \<le> a" "avail_data p \<le> a" "unat a + up_to 4096 (unat sz) = unat (avail_data p1)" using al(2) by (auto simp: Inr ap)
    have "\<forall>sz \<in> set szs. 0 < unat sz \<and> unat sz + 4096 \<le> 2 ^ 64" using Cons.prems(3) by simp
    from Cons.IH [OF a(1,2) this] obtain res2 g2 where rest: "allocate_all E H v szs p1 g1 = Some (res2, g2)"
      "case res2 of Inl f \<Rightarrow> f = KAbort | Inr (as, p') \<Rightarrow> pool_ok E v p' \<and> shared_until v (pool_end v p') g2 \<and> ghcb_msr g2 = ghcb_msr g1 \<and>
        blocks_ok (max (unat (sdata v)) (unat (avail_data p1))) (pool_end v p') as szs" by blast
    have "blocks_ok lo hi as szs \<Longrightarrow> unat (avail_data p1) \<le> lo \<Longrightarrow> blocks_ok (unat (avail_data p1)) hi as szs" for lo hi as
      by (rule blocks_ok_mono)
    then show ?thesis using al(1) rest a by (cases res2) (auto simp: Inr ap word_le_nat)
  qed
qed

end

text \<open>
  C33.  Memory for the host: however many blocks are allocated from the memory above the
  virtual top of memory, and whatever the host does, each allocation returns or stops the
  machine.  The blocks start on page boundaries, follow each other without overlap and lie
  in that memory; the host has been asked to share every page up to the end of the last
  one; and the register of the communication block is as before.
\<close>

theorem allocate_visible_blocks:
  assumes E: "snmalloc_env E" and v: "vtom_ok E v" and szs: "\<forall>sz \<in> set szs. 0 < unat sz \<and> unat sz + 4096 \<le> 2 ^ 64"
  shows "\<exists>res g'. allocate_all E H v szs empty_pool g = Some (res, g') \<and> (case res of Inl f \<Rightarrow> f = KAbort
    | Inr (as, p) \<Rightarrow> blocks_ok (unat (sdata v)) (pool_end v p) as szs \<and> pool_end v p \<le> unat (sdata v) + unat (scount v) \<and>
        shared_until v (pool_end v p) g' \<and> ghcb_msr g' = ghcb_msr g)"
proof -
  have "pool_ok E v empty_pool" "shared_until v (pool_end v empty_pool) g" by (auto simp: pool_ok_def empty_pool_def pool_end_def shared_until_def)
  from snmalloc_env.allocate_all_ok [OF E v this szs, of H] obtain res g' where r: "allocate_all E H v szs empty_pool g = Some (res, g')"
    "case res of Inl f \<Rightarrow> f = KAbort | Inr (as, p') \<Rightarrow> pool_ok E v p' \<and> shared_until v (pool_end v p') g' \<and> ghcb_msr g' = ghcb_msr g \<and>
        blocks_ok (max (unat (sdata v)) (unat (avail_data empty_pool))) (pool_end v p') as szs" by blast
  then show ?thesis by (cases res) (auto simp: empty_pool_def pool_ok_def pool_end_def word_le_nat)
qed

theorem allocate_visible_blocks_witness:
  "\<exists>res g'. allocate_all (rounding_env 4096) (\<lambda>msr m h. (0x15, m, h)) \<lparr>sdata = 0x10000, scount = 0x8000\<rparr> [5, 4096, 9000] empty_pool
      \<lparr>mem = (\<lambda>_. 0), ghcb_msr = 7, host = (), exits = []\<rparr> = Some (res, g') \<and> (case res of Inl f \<Rightarrow> f = KAbort
    | Inr (as, p) \<Rightarrow> blocks_ok (unat (sdata \<lparr>sdata = 0x10000, scount = 0x8000\<rparr>)) (pool_end \<lparr>sdata = 0x10000, scount = 0x8000\<rparr> p) as [5, 4096, 9000] \<and>
        pool_end \<lparr>sdata = 0x10000, scount = 0x8000\<rparr> p \<le> unat (sdata \<lparr>sdata = 0x10000, scount = 0x8000\<rparr>) + unat (scount \<lparr>sdata = 0x10000, scount = 0x8000\<rparr>) \<and>
        shared_until \<lparr>sdata = 0x10000, scount = 0x8000\<rparr> (pool_end \<lparr>sdata = 0x10000, scount = 0x8000\<rparr> p) g' \<and>
        ghcb_msr g' = ghcb_msr \<lparr>mem = (\<lambda>_. 0), ghcb_msr = 7, host = (), exits = []\<rparr>)"
  by (rule allocate_visible_blocks [OF small_pages.snmalloc_env_axioms]) (simp_all add: vtom_ok_def rounding_env_def)

end
