(* ===== verification/Shared_Memory.thy ===== *)
theory Shared_Memory
  imports Heap_Ranges Byte_Memory
begin

text \<open>
  The memory that an application shares with its host.  The host side
  (\<open>src/app-framework/include/host/enclave_platform.h\<close> and \<open>ringbuffer_guest.h\<close>) hands out
  blocks of a 64 MB area and writes their guest addresses to its start; the guest side
  (\<open>src/app-framework/include/guest/ringbuffer_guest.h\<close>) reads the addresses and checks
  them, since the host is not trusted.  The ring buffers themselves are CCF code; the
  size, alignment and constructor of their offsets are parameters.
\<close>

section \<open>Host side\<close>

datatype host_error = NotEnoughForInitializer | NotEnoughForAllocation

definition SHMEM_SIZE :: u64 where "SHMEM_SIZE = 64 * 1024 * 1024"
definition SHMEM_START :: u64 where "SHMEM_START = push_bit 40 1 - SHMEM_SIZE"

text \<open>The platform of QEMU has SHMEM_START as guest base; that of HCS asks the instance.\<close>

record platform =
  shmem_guest_base :: u64
  shmem_base :: u64
  shmem_offset :: u64
  host_mem :: bytes

definition platform_create :: "u64 \<Rightarrow> u64 \<Rightarrow> u64 \<Rightarrow> bytes \<Rightarrow> host_error + platform" where
  "platform_create initializer_size guest_base base m =
    (if SHMEM_SIZE > initializer_size
     then Inr \<lparr>shmem_guest_base = guest_base, shmem_base = base, shmem_offset = initializer_size, host_mem = m\<rparr>
     else Inl NotEnoughForInitializer)"

definition qemu_platform :: "u64 \<Rightarrow> u64 \<Rightarrow> bytes \<Rightarrow> host_error + platform" where
  "qemu_platform initializer_size base m = platform_create initializer_size SHMEM_START base m"

definition allocate_shared_inner :: "u64 \<Rightarrow> u64 \<Rightarrow> platform \<Rightarrow> host_error + (u64 \<times> u64) \<times> platform" where
  "allocate_shared_inner sz alignment p =
    (let aligned_shmem_offset = ((shmem_offset p + alignment - 1) div alignment) * alignment in
     if aligned_shmem_offset \<ge> shmem_offset p \<and> aligned_shmem_offset + sz > aligned_shmem_offset \<and>
        aligned_shmem_offset + sz < SHMEM_SIZE
     then Inr ((shmem_base p + aligned_shmem_offset, shmem_guest_base p + aligned_shmem_offset),
               p\<lparr>host_mem := memset (shmem_base p + aligned_shmem_offset) 0 sz (host_mem p),
                 shmem_offset := aligned_shmem_offset + sz\<rparr>)
     else Inl NotEnoughForAllocation)"

text \<open>\<open>construct\<close> is the constructor of the element type, run at an address.\<close>

definition allocate_shared :: "u64 \<Rightarrow> u64 \<Rightarrow> (u64 \<Rightarrow> bytes \<Rightarrow> bytes) \<Rightarrow> platform \<Rightarrow> host_error + (u64 \<times> u64) \<times> platform" where
  "allocate_shared sizeof_T alignof_T construct p =
    (case allocate_shared_inner sizeof_T alignof_T p of
       Inl e \<Rightarrow> Inl e
     | Inr (a, p1) \<Rightarrow> Inr (a, p1\<lparr>host_mem := construct (fst a) (host_mem p1)\<rparr>))"

definition allocate_shared_array ::
  "u64 \<Rightarrow> u64 \<Rightarrow> (u64 \<Rightarrow> bytes \<Rightarrow> bytes) \<Rightarrow> u64 \<Rightarrow> platform \<Rightarrow> host_error + (u64 \<times> u64) \<times> platform" where
  "allocate_shared_array sizeof_T alignof_T construct count p =
    (case allocate_shared_inner (count * sizeof_T) alignof_T p of
       Inl e \<Rightarrow> Inl e
     | Inr (a, p1) \<Rightarrow>
         Inr (a, p1\<lparr>host_mem := fold (\<lambda>i. construct (fst a + word_of_nat i * sizeof_T)) [0..<unat count] (host_mem p1)\<rparr>))"

record RingbufferInitializer =
  to_guest_buffer_start :: u64
  to_guest_buffer_size :: u64
  to_guest_buffer_offsets :: u64
  from_guest_buffer_start :: u64
  from_guest_buffer_size :: u64
  from_guest_buffer_offsets :: u64

definition initialize :: "RingbufferInitializer \<Rightarrow> platform \<Rightarrow> platform" where
  "initialize r p =
    p\<lparr>host_mem :=
      store64 (shmem_base p + 40) (from_guest_buffer_offsets r)
       (store64 (shmem_base p + 32) (from_guest_buffer_size r)
        (store64 (shmem_base p + 24) (from_guest_buffer_start r)
         (store64 (shmem_base p + 16) (to_guest_buffer_offsets r)
          (store64 (shmem_base p + 8) (to_guest_buffer_size r)
           (store64 (shmem_base p) (to_guest_buffer_start r) (host_mem p))))))\<rparr>"

record offsets_type =
  sizeof_Offsets :: u64
  alignof_Offsets :: u64
  construct_Offsets :: "u64 \<Rightarrow> bytes \<Rightarrow> bytes"

text \<open>The result lists the four blocks, each with its host and its guest address.\<close>

definition RingbufferGuest :: "offsets_type \<Rightarrow> u64 \<Rightarrow> platform \<Rightarrow> host_error + (u64 \<times> u64) list \<times> platform" where
  "RingbufferGuest T buffer_size p =
    (case allocate_shared_array 1 1 (\<lambda>a m. m(a := 0)) buffer_size p of Inl e \<Rightarrow> Inl e | Inr (to_guest_ring, p1) \<Rightarrow>
     case allocate_shared (sizeof_Offsets T) (alignof_Offsets T) (construct_Offsets T) p1 of Inl e \<Rightarrow> Inl e | Inr (to_guest_ring_offsets, p2) \<Rightarrow>
     case allocate_shared_array 1 1 (\<lambda>a m. m(a := 0)) buffer_size p2 of Inl e \<Rightarrow> Inl e | Inr (from_guest_ring, p3) \<Rightarrow>
     case allocate_shared (sizeof_Offsets T) (alignof_Offsets T) (construct_Offsets T) p3 of Inl e \<Rightarrow> Inl e | Inr (from_guest_ring_offsets, p4) \<Rightarrow>
     Inr ([to_guest_ring, to_guest_ring_offsets, from_guest_ring, from_guest_ring_offsets],
       initialize \<lparr>to_guest_buffer_start = snd to_guest_ring, to_guest_buffer_size = buffer_size,
         to_guest_buffer_offsets = snd to_guest_ring_offsets, from_guest_buffer_start = snd from_guest_ring,
         from_guest_buffer_size = buffer_size, from_guest_buffer_offsets = snd from_guest_ring_offsets\<rparr> p4))"

section \<open>Guest side\<close>

definition TOP_OF_MEMORY :: u64 where "TOP_OF_MEMORY = push_bit 40 1"
definition IO_SHARED_MEMORY_SIZE :: u64 where "IO_SHARED_MEMORY_SIZE = 64 * 1024 * 1024"

definition setup_hypervisor_stage2_generic :: byte_span where
  "setup_hypervisor_stage2_generic = mk_span (TOP_OF_MEMORY - IO_SHARED_MEMORY_SIZE) IO_SHARED_MEMORY_SIZE"

text \<open>The span of a validated array: its address and its number of elements.\<close>

definition validate_array :: "u64 \<Rightarrow> byte_span \<Rightarrow> u64 \<Rightarrow> u64 \<Rightarrow> (u64 \<times> u64) result" where
  "validate_array sizeof_T shared base_address array_count =
    (let valid_address_range = span_range (sdata shared) (scount shared) 1 in
     if \<not> check_valid_subrange valid_address_range (mk_range base_address (base_address + sizeof_T * array_count))
     then Inl (Exit (-1))
     else Inr (sdata shared + (base_address - rstart valid_address_range), array_count))"

definition validate_object :: "u64 \<Rightarrow> byte_span \<Rightarrow> u64 \<Rightarrow> u64 result" where
  "validate_object sizeof_T shared base_address =
    (let valid_address_range = span_range (sdata shared) (scount shared) 1 in
     if \<not> check_valid_subrange valid_address_range (mk_range base_address (base_address + sizeof_T))
     then Inl (Exit (-1))
     else Inr (sdata shared + (base_address - rstart valid_address_range)))"

text \<open>One copy of the initializer is read; the blocks that \<open>main\<close> gives to the ring buffers.\<close>

definition read_initializer :: "byte_span \<Rightarrow> bytes \<Rightarrow> RingbufferInitializer" where
  "read_initializer shared m =
    \<lparr>to_guest_buffer_start = load64 (sdata shared) m, to_guest_buffer_size = load64 (sdata shared + 8) m,
     to_guest_buffer_offsets = load64 (sdata shared + 16) m, from_guest_buffer_start = load64 (sdata shared + 24) m,
     from_guest_buffer_size = load64 (sdata shared + 32) m, from_guest_buffer_offsets = load64 (sdata shared + 40) m\<rparr>"

definition guest_main :: "u64 \<Rightarrow> byte_span \<Rightarrow> bytes \<Rightarrow> ((u64 \<times> u64) \<times> u64 \<times> (u64 \<times> u64) \<times> u64) result" where
  "guest_main sizeof_T shared m =
    (let i = read_initializer shared m in
     res_bind (validate_array 1 shared (to_guest_buffer_start i) (to_guest_buffer_size i)) (\<lambda>to_guest_buffer.
     res_bind (validate_object sizeof_T shared (to_guest_buffer_offsets i)) (\<lambda>to_guest_offsets.
     res_bind (validate_array 1 shared (from_guest_buffer_start i) (from_guest_buffer_size i)) (\<lambda>from_guest_buffer.
     res_bind (validate_object sizeof_T shared (from_guest_buffer_offsets i)) (\<lambda>from_guest_offsets.
     Inr (to_guest_buffer, to_guest_offsets, from_guest_buffer, from_guest_offsets))))))"

section \<open>What the guest accepts\<close>

text \<open>A block of n bytes at an address is strictly inside the shared span.\<close>

definition inside :: "byte_span \<Rightarrow> u64 \<Rightarrow> nat \<Rightarrow> bool" where
  "inside shared a n \<longleftrightarrow> unat (sdata shared) \<le> unat a \<and> 0 < n \<and> unat a + n < unat (sdata shared) + unat (scount shared)"

definition span_ok :: "byte_span \<Rightarrow> bool" where
  "span_ok shared \<longleftrightarrow> unat (sdata shared) + unat (scount shared) < 2 ^ 64"

lemma word_add_less: "a < a + n \<longleftrightarrow> 0 < unat n \<and> unat a + unat n < 2 ^ 64" for a n :: u64
proof (cases "unat a + unat n < 2 ^ 64")
  case True
  then show ?thesis by (simp add: word_less_nat unat_add64)
next
  case False
  have "unat a + unat n - 18446744073709551616 < 18446744073709551616"
    using unat_lt64 [of a] unat_lt64 [of n] by linarith
  then have less: "unat a + unat n - 2 ^ 64 < 2 ^ 64" by simp
  have "unat (a + n) = (unat a + unat n) mod 2 ^ 64" by (simp add: unat_word_ariths)
  also have "\<dots> = (unat a + unat n - 2 ^ 64) mod 2 ^ 64" using False by (intro le_mod_geq) simp
  also have "\<dots> = unat a + unat n - 2 ^ 64" using less by (rule mod_less)
  finally have "unat (a + n) = unat a + unat n - 18446744073709551616" by simp
  then have "unat (a + n) \<le> unat a" using unat_lt64 [of n] by linarith
  then show ?thesis using False by (simp only: word_less_nat) simp
qed

lemma valid_subrange_iff:
  assumes "span_ok shared"
  shows "check_valid_subrange (span_range (sdata shared) (scount shared) 1) (mk_range a (a + n)) \<longleftrightarrow> inside shared a (unat n)"
proof -
  have e: "unat (sdata shared + scount shared) = unat (sdata shared) + unat (scount shared)"
    using assms by (intro unat_add64) (simp add: span_ok_def)
  show ?thesis
  proof (cases "a < a + n")
    case True
    then have "unat (a + n) = unat a + unat n" "0 < unat n" by (simp_all add: word_add_less unat_add64)
    then show ?thesis using True e
      by (auto simp: check_valid_subrange_def span_range_def mk_range_def inside_def word_nat)
  next
    case False
    then have "\<not> (0 < unat n \<and> unat a + unat n < 2 ^ 64)" by (simp add: word_add_less)
    then have "\<not> inside shared a (unat n)" using assms by (auto simp: inside_def span_ok_def)
    then show ?thesis using False by (simp add: check_valid_subrange_def mk_range_def)
  qed
qed

lemma validate_iff:
  assumes "span_ok shared"
  shows "validate_array 1 shared a n = (if inside shared a (unat n) then Inr (a, n) else Inl (Exit (-1)))"
    and "validate_object sz shared a = (if inside shared a (unat sz) then Inr a else Inl (Exit (-1)))"
  by (simp_all add: validate_array_def validate_object_def Let_def valid_subrange_iff [OF assms], simp_all add: span_range_def)

text \<open>
  C34.  Whatever the host writes, \<open>main\<close> exits or gives the ring buffers four blocks that
  lie inside the shared span, byte for byte as the host named them; it exits exactly if one
  of them does not.
\<close>

theorem guest_main_exact:
  assumes "span_ok shared"
  shows "guest_main sizeof_T shared m =
    (let i = read_initializer shared m in
     if inside shared (to_guest_buffer_start i) (unat (to_guest_buffer_size i)) \<and>
        inside shared (to_guest_buffer_offsets i) (unat sizeof_T) \<and>
        inside shared (from_guest_buffer_start i) (unat (from_guest_buffer_size i)) \<and>
        inside shared (from_guest_buffer_offsets i) (unat sizeof_T)
     then Inr ((to_guest_buffer_start i, to_guest_buffer_size i), to_guest_buffer_offsets i,
       (from_guest_buffer_start i, from_guest_buffer_size i), from_guest_buffer_offsets i)
     else Inl (Exit (-1)))"
  by (simp add: guest_main_def Let_def validate_iff [OF assms])

theorem guest_main_exact_witness:
  "guest_main 64 \<lparr>sdata = 0x1000, scount = 0x1000\<rparr> (\<lambda>_. 0) = Inl (Exit (-1))"
proof -
  have "span_ok \<lparr>sdata = 0x1000, scount = 0x1000\<rparr>" by (simp add: span_ok_def)
  from guest_main_exact [OF this, of 64 "\<lambda>_. 0"] show ?thesis
    by (simp add: Let_def inside_def read_initializer_def load64_def load_le_def)
qed

text \<open>
  The check of an array of larger elements does not bound the product: with elements of
  8 bytes a count beyond 2^61 passes, and the span reaches far past the shared memory.
\<close>

lemma validate_array_product_wraps:
  "validate_array 8 \<lparr>sdata = 0x1000, scount = 0x1000\<rparr> 0x1000 0x2000000000000001 = Inr (0x1000, 0x2000000000000001)"
  by (simp add: validate_array_def check_valid_subrange_def span_range_def mk_range_def)

section \<open>What the host hands out\<close>

text \<open>A block as the allocator places it: at an offset from both bases, from lo on, with a size; it ends before hi.\<close>

definition placed :: "platform \<Rightarrow> nat \<Rightarrow> nat \<Rightarrow> nat \<Rightarrow> u64 \<times> u64 \<Rightarrow> bool" where
  "placed p lo n hi a \<longleftrightarrow> (\<exists>off. a = (shmem_base p + off, shmem_guest_base p + off) \<and> lo \<le> unat off \<and> 0 < n \<and> unat off + n = hi)"

definition same_area :: "platform \<Rightarrow> platform \<Rightarrow> bool" where
  "same_area p q \<longleftrightarrow> shmem_base p = shmem_base q \<and> shmem_guest_base p = shmem_guest_base q"

lemma allocate_shared_inner_placed:
  assumes "allocate_shared_inner sz alignment p = Inr (a, q)"
  shows "same_area q p \<and> placed p (unat (shmem_offset p)) (unat sz) (unat (shmem_offset q)) a \<and> unat (shmem_offset q) < unat SHMEM_SIZE"
proof -
  define off where "off = ((shmem_offset p + alignment - 1) div alignment) * alignment"
  have c: "shmem_offset p \<le> off" "off < off + sz" "off + sz < SHMEM_SIZE"
    and a: "a = (shmem_base p + off, shmem_guest_base p + off)" and q: "shmem_offset q = off + sz" "same_area q p"
    using assms by (auto simp: allocate_shared_inner_def Let_def off_def [symmetric] same_area_def split: if_splits)
  have "0 < unat sz" "unat (off + sz) = unat off + unat sz" using c(2) by (simp_all add: word_add_less unat_add64)
  then show ?thesis using c(1,3) a q by (auto simp: placed_def word_nat)
qed

lemma allocate_shared_placed:
  "allocate_shared sz al C p = Inr (a, q) \<Longrightarrow>
    same_area q p \<and> placed p (unat (shmem_offset p)) (unat sz) (unat (shmem_offset q)) a \<and> unat (shmem_offset q) < unat SHMEM_SIZE"
  "allocate_shared_array sz al C n p = Inr (a, q) \<Longrightarrow>
    same_area q p \<and> placed p (unat (shmem_offset p)) (unat (n * sz)) (unat (shmem_offset q)) a \<and> unat (shmem_offset q) < unat SHMEM_SIZE"
  by (auto simp: allocate_shared_def allocate_shared_array_def same_area_def split: sum.splits dest!: allocate_shared_inner_placed)

lemma placed_same_area: "same_area p q \<Longrightarrow> placed p lo n hi a = placed q lo n hi a"
  by (simp add: placed_def same_area_def)

text \<open>The four blocks of a guest, in the order of their addresses.\<close>

definition rings_ok :: "platform \<Rightarrow> nat \<Rightarrow> nat \<Rightarrow> (u64 \<times> u64) list \<Rightarrow> bool" where
  "rings_ok p n k rings \<longleftrightarrow> (\<exists>b c d e f g. rings = [b, c, d, e] \<and>
    placed p (unat (shmem_offset p)) n f b \<and> (\<exists>h i. placed p f k h c \<and> placed p h n i d \<and> placed p i k g e) \<and> g < unat SHMEM_SIZE)"

lemma RingbufferGuest_rings:
  assumes "RingbufferGuest T n p = Inr (rings, q)"
  shows "same_area q p \<and> rings_ok p (unat n) (unat (sizeof_Offsets T)) rings \<and>
    (\<exists>m. host_mem q = host_mem (initialize \<lparr>to_guest_buffer_start = snd (rings ! 0), to_guest_buffer_size = n,
         to_guest_buffer_offsets = snd (rings ! 1), from_guest_buffer_start = snd (rings ! 2),
         from_guest_buffer_size = n, from_guest_buffer_offsets = snd (rings ! 3)\<rparr> (p\<lparr>host_mem := m\<rparr>)))"
proof -
  obtain b c d e p1 p2 p3 p4 where
    r: "allocate_shared_array 1 1 (\<lambda>a m. m(a := 0)) n p = Inr (b, p1)"
      "allocate_shared (sizeof_Offsets T) (alignof_Offsets T) (construct_Offsets T) p1 = Inr (c, p2)"
      "allocate_shared_array 1 1 (\<lambda>a m. m(a := 0)) n p2 = Inr (d, p3)"
      "allocate_shared (sizeof_Offsets T) (alignof_Offsets T) (construct_Offsets T) p3 = Inr (e, p4)"
    and rings: "rings = [b, c, d, e]" and q: "q = initialize \<lparr>to_guest_buffer_start = snd b, to_guest_buffer_size = n,
         to_guest_buffer_offsets = snd c, from_guest_buffer_start = snd d,
         from_guest_buffer_size = n, from_guest_buffer_offsets = snd e\<rparr> p4"
    using assms by (auto simp: RingbufferGuest_def split: sum.splits)
  note a = allocate_shared_placed(2) [OF r(1)] allocate_shared_placed(1) [OF r(2)]
    allocate_shared_placed(2) [OF r(3)] allocate_shared_placed(1) [OF r(4)]
  have same: "same_area p1 p" "same_area p2 p" "same_area p3 p" "same_area p4 p" using a by (simp_all add: same_area_def)
  have "rings_ok p (unat n) (unat (sizeof_Offsets T)) rings"
    using a unfolding rings_ok_def rings by (auto simp: placed_same_area [OF same(1)] placed_same_area [OF same(2)] placed_same_area [OF same(3)])
  moreover have "same_area q p" using same(4) by (simp add: q initialize_def same_area_def)
  moreover have "host_mem q = host_mem (initialize \<lparr>to_guest_buffer_start = snd (rings ! 0), to_guest_buffer_size = n,
         to_guest_buffer_offsets = snd (rings ! 1), from_guest_buffer_start = snd (rings ! 2),
         from_guest_buffer_size = n, from_guest_buffer_offsets = snd (rings ! 3)\<rparr> (p\<lparr>host_mem := host_mem p4\<rparr>))"
    using same(4) by (simp add: q rings initialize_def same_area_def)
  ultimately show ?thesis by blast
qed

text \<open>The words of the initializer read back through the mapping of the shared memory.\<close>

definition mapped_area :: "platform \<Rightarrow> bytes \<Rightarrow> bool" where
  "mapped_area p guest_mem \<longleftrightarrow> (\<forall>i < unat SHMEM_SIZE. guest_mem (shmem_guest_base p + word_of_nat i) = host_mem p (shmem_base p + word_of_nat i))"

lemma load64_mapped:
  assumes "mapped_area p m" "k + 8 \<le> unat SHMEM_SIZE"
  shows "load64 (shmem_guest_base p + word_of_nat k) m = load64 (shmem_base p + word_of_nat k) (host_mem p)"
proof -
  have "m (shmem_guest_base p + word_of_nat k + word_of_nat i) = host_mem p (shmem_base p + word_of_nat k + word_of_nat i)" if "i < 8" for i
    using assms that unfolding mapped_area_def by (simp add: add.assoc flip: of_nat_add)
  then have "load_le 8 (shmem_guest_base p + word_of_nat k) m = load_le 8 (shmem_base p + word_of_nat k) (host_mem p)"
    unfolding load_le_def by (intro sum.cong) auto
  then show ?thesis by (simp add: load64_def)
qed

lemma read_initializer_initialize:
  assumes "mapped_area q m" "host_mem q = host_mem (initialize r (p\<lparr>host_mem := h\<rparr>))" "shmem_base q = shmem_base p" "shmem_guest_base q = sdata shared"
  shows "read_initializer shared m = r"
proof -
  note l = load64_mapped [OF assms(1)]
  have "load64 (sdata shared + word_of_nat k) m = load64 (shmem_base p + word_of_nat k) (host_mem (initialize r (p\<lparr>host_mem := h\<rparr>)))"
    if "k + 8 \<le> unat SHMEM_SIZE" for k using l [OF that] assms(2-4) by simp
  from this [of 0] this [of 8] this [of 16] this [of 24] this [of 32] this [of 40] show ?thesis
    by (cases r) (simp add: read_initializer_def SHMEM_SIZE_def initialize_def load64_store64_other)
qed

lemma placed_inside:
  assumes "placed p lo n hi a" "hi < unat SHMEM_SIZE" "unat (shmem_guest_base p) + unat SHMEM_SIZE < 2 ^ 64"
    "sdata shared = shmem_guest_base p" "scount shared = SHMEM_SIZE"
  shows "inside shared (snd a) n"
proof -
  obtain off where a: "a = (shmem_base p + off, shmem_guest_base p + off)" "0 < n" "unat off + n = hi"
    using assms(1) by (auto simp: placed_def)
  have "unat (shmem_guest_base p + off) = unat (shmem_guest_base p) + unat off"
    using a(3) assms(2,3) by (intro unat_add64) simp
  then show ?thesis using a assms by (simp add: inside_def)
qed

lemma placed_order: "placed p lo n hi a \<Longrightarrow> lo < hi"
  by (auto simp: placed_def)

text \<open>
  C35.  The two sides fit together: if the host has built the ring buffers and the guest
  sees the shared area at its guest base, \<open>main\<close> accepts and uses the blocks that the
  host allocated, at the same offsets from the two bases, one after the other and behind
  the initializer.
\<close>

theorem ringbuffers_connect:
  assumes "platform_create 48 guest_base base m0 = Inr p" "RingbufferGuest T n p = Inr (rings, q)"
    and "unat guest_base + unat SHMEM_SIZE < 2 ^ 64" "mapped_area q m"
  shows "guest_main (sizeof_Offsets T) (mk_span guest_base SHMEM_SIZE) m =
      Inr ((snd (rings ! 0), n), snd (rings ! 1), (snd (rings ! 2), n), snd (rings ! 3)) \<and>
    (\<exists>offs. map fst rings = map (\<lambda>x. base + x) offs \<and> map snd rings = map (\<lambda>x. guest_base + x) offs \<and> length offs = 4 \<and>
      48 \<le> unat (offs ! 0) \<and> unat (offs ! 0) + unat n \<le> unat (offs ! 1) \<and>
      unat (offs ! 1) + unat (sizeof_Offsets T) \<le> unat (offs ! 2) \<and> unat (offs ! 2) + unat n \<le> unat (offs ! 3) \<and>
      unat (offs ! 3) + unat (sizeof_Offsets T) < unat SHMEM_SIZE)"
proof -
  let ?s = "mk_span guest_base SHMEM_SIZE"
  have p: "shmem_guest_base p = guest_base" "shmem_base p = base" "shmem_offset p = 48"
    using assms(1) by (auto simp: platform_create_def split: if_splits)
  note r = RingbufferGuest_rings [OF assms(2)]
  have q: "shmem_base q = shmem_base p" "shmem_guest_base q = sdata ?s" using r p by (simp_all add: same_area_def mk_span_def)
  have i: "read_initializer ?s m = \<lparr>to_guest_buffer_start = snd (rings ! 0), to_guest_buffer_size = n,
         to_guest_buffer_offsets = snd (rings ! 1), from_guest_buffer_start = snd (rings ! 2),
         from_guest_buffer_size = n, from_guest_buffer_offsets = snd (rings ! 3)\<rparr>"
    using r read_initializer_initialize [OF assms(4) _ q] by blast
  obtain b c d e f g h k where rings: "rings = [b, c, d, e]" and
    pl: "placed p 48 (unat n) f b" "placed p f (unat (sizeof_Offsets T)) h c" "placed p h (unat n) k d"
      "placed p k (unat (sizeof_Offsets T)) g e" and g: "g < unat SHMEM_SIZE"
    using r p(3) by (auto simp: rings_ok_def)
  have lim: "f < unat SHMEM_SIZE" "h < unat SHMEM_SIZE" "k < unat SHMEM_SIZE"
    using g placed_order [OF pl(2)] placed_order [OF pl(3)] placed_order [OF pl(4)] by simp_all
  have base: "unat (shmem_guest_base p) + unat SHMEM_SIZE < 2 ^ 64" "sdata ?s = shmem_guest_base p" "scount ?s = SHMEM_SIZE"
    using assms(3) p by (simp_all add: mk_span_def)
  note ins = placed_inside [OF pl(1) lim(1) base] placed_inside [OF pl(2) lim(2) base]
    placed_inside [OF pl(3) lim(3) base] placed_inside [OF pl(4) g base]
  have "span_ok ?s" using assms(3) by (simp add: span_ok_def mk_span_def)
  then have accept: "guest_main (sizeof_Offsets T) ?s m =
      Inr ((snd (rings ! 0), n), snd (rings ! 1), (snd (rings ! 2), n), snd (rings ! 3))"
    using ins by (simp add: guest_main_def Let_def validate_iff i rings)
  obtain o1 o2 o3 o4 where off: "b = (base + o1, guest_base + o1)" "c = (base + o2, guest_base + o2)"
    "d = (base + o3, guest_base + o3)" "e = (base + o4, guest_base + o4)"
    "48 \<le> unat o1" "unat o1 + unat n = f" "f \<le> unat o2" "unat o2 + unat (sizeof_Offsets T) = h" "h \<le> unat o3"
    "unat o3 + unat n = k" "k \<le> unat o4" "unat o4 + unat (sizeof_Offsets T) = g"
    using pl p by (auto simp: placed_def)
  have "\<exists>offs. map fst rings = map (\<lambda>x. base + x) offs \<and> map snd rings = map (\<lambda>x. guest_base + x) offs \<and> length offs = 4 \<and>
      48 \<le> unat (offs ! 0) \<and> unat (offs ! 0) + unat n \<le> unat (offs ! 1) \<and>
      unat (offs ! 1) + unat (sizeof_Offsets T) \<le> unat (offs ! 2) \<and> unat (offs ! 2) + unat n \<le> unat (offs ! 3) \<and>
      unat (offs ! 3) + unat (sizeof_Offsets T) < unat SHMEM_SIZE"
    by (rule exI [of _ "[o1, o2, o3, o4]"]) (use off g rings in \<open>simp add: numeral_2_eq_2 numeral_3_eq_3\<close>)
  with accept show ?thesis by blast
qed

definition plain_offsets :: offsets_type where
  "plain_offsets = \<lparr>sizeof_Offsets = 128, alignof_Offsets = 64, construct_Offsets = (\<lambda>a m. m)\<rparr>"

lemma qemu_ringbuffers:
  "\<exists>p q. qemu_platform 48 0x7f0000000000 (\<lambda>_. 0) = Inr p \<and>
    RingbufferGuest plain_offsets 0x200000 p = Inr (map (\<lambda>x. (0x7f0000000000 + x, SHMEM_START + x)) [48, 0x200040, 0x2000c0, 0x4000c0], q)"
  by (simp add: qemu_platform_def platform_create_def RingbufferGuest_def allocate_shared_array_def allocate_shared_def allocate_shared_inner_def
      plain_offsets_def SHMEM_SIZE_def SHMEM_START_def del: upt_rec_numeral)

theorem ringbuffers_connect_witness:
  "\<exists>m. guest_main 128 setup_hypervisor_stage2_generic m =
    Inr ((0xfffc000030, 0x200000), 0xfffc200040, (0xfffc2000c0, 0x200000), 0xfffc4000c0)"
proof -
  obtain p q where p: "qemu_platform 48 0x7f0000000000 (\<lambda>_. 0) = Inr p"
    and q: "RingbufferGuest plain_offsets 0x200000 p = Inr (map (\<lambda>x. (0x7f0000000000 + x, SHMEM_START + x)) [48, 0x200040, 0x2000c0, 0x4000c0], q)"
    using qemu_ringbuffers by blast
  have m: "mapped_area q (\<lambda>x. host_mem q (shmem_base q + (x - shmem_guest_base q)))" by (simp add: mapped_area_def)
  have s: "unat SHMEM_START + unat SHMEM_SIZE < 2 ^ 64" by (simp add: SHMEM_START_def SHMEM_SIZE_def)
  have io: "setup_hypervisor_stage2_generic = mk_span SHMEM_START SHMEM_SIZE"
    by (simp add: setup_hypervisor_stage2_generic_def SHMEM_START_def SHMEM_SIZE_def TOP_OF_MEMORY_def IO_SHARED_MEMORY_SIZE_def)
  from ringbuffers_connect [OF p [unfolded qemu_platform_def] q s m, THEN conjunct1] show ?thesis
    unfolding io by (intro exI) (simp add: plain_offsets_def SHMEM_START_def SHMEM_SIZE_def numeral_2_eq_2 numeral_3_eq_3)
qed

end
