(* ===== verification/Sev_Calls.thy ===== *)
theory Sev_Calls
  imports Sev_Protocol Page_Table Shared_Memory
begin

unbundle bit_operations_syntax

text \<open>
  The communication block of the SEV-SNP guest (\<open>inc/sev_ghcb.h\<close>) as a page of memory, the
  requests that are made through it, and the start of the guest (\<open>arch/x86_64/hv_sev.cc\<close>).
  The block has two layouts, so that fields are offsets into the page.
\<close>

subsection \<open>The block\<close>

definition ghcb_rax :: u64 where "ghcb_rax = 0x1F8"
definition ghcb_rcx :: u64 where "ghcb_rcx = 0x308"
definition ghcb_rdx :: u64 where "ghcb_rdx = 0x310"
definition ghcb_exit_code :: u64 where "ghcb_exit_code = 0x390"
definition ghcb_exit_info1 :: u64 where "ghcb_exit_info1 = 0x398"
definition ghcb_exit_info2 :: u64 where "ghcb_exit_info2 = 0x3A0"
definition ghcb_valid_bitmap :: u64 where "ghcb_valid_bitmap = 0x3F0"
definition ghcb_output_params_gpa :: u64 where "ghcb_output_params_gpa = 0xFE8"
definition ghcb_hypercall :: u64 where "ghcb_hypercall = 0xFF0"
definition ghcb_version :: u64 where "ghcb_version = 0xFFA"
definition ghcb_format :: u64 where "ghcb_format = 0xFFC"

lemmas ghcb_offsets = ghcb_rax_def ghcb_rcx_def ghcb_rdx_def ghcb_exit_code_def ghcb_exit_info1_def ghcb_exit_info2_def
  ghcb_valid_bitmap_def ghcb_output_params_gpa_def ghcb_hypercall_def ghcb_version_def ghcb_format_def

definition SevVersion_CURRENT :: nat where "SevVersion_CURRENT = 2"
definition SevFormat_BASE :: nat where "SevFormat_BASE = 0"
definition SevFormat_HYPERCALL :: nat where "SevFormat_HYPERCALL = 1"
definition SevExitCode_IOIO :: u64 where "SevExitCode_IOIO = 0x7b"
definition SevExitCode_MSR :: u64 where "SevExitCode_MSR = 0x7c"
definition SevExitCode_GUEST_REQUEST :: u64 where "SevExitCode_GUEST_REQUEST = 0x80000011"

text \<open>Setting the bit of the 8-byte field at an offset in a bitmap of 16 bytes.\<close>

definition set_valid :: "u64 \<Rightarrow> u8 list \<Rightarrow> u8 list" where
  "set_valid field bitmap =
    (let i = unat field div 8 in bitmap[i div 8 := bitmap ! (i div 8) OR push_bit (i mod 8) 1])"

text \<open>\<open>initial_guest\<close> sets bits in a local bitmap that it does not initialise: its first content is a parameter.\<close>

definition initial_guest :: "u8 list \<Rightarrow> u8 list" where
  "initial_guest uninitialised = set_valid ghcb_exit_info2 (set_valid ghcb_exit_info1 (set_valid ghcb_exit_code uninitialised))"

definition store_bitmap :: "u64 \<Rightarrow> u8 list \<Rightarrow> bytes \<Rightarrow> bytes" where
  "store_bitmap ghcb bitmap m = (\<lambda>x. let i = unat (x - (ghcb + ghcb_valid_bitmap)) in if i < 16 then bitmap ! i else m x)"

definition load_bitmap :: "u64 \<Rightarrow> bytes \<Rightarrow> u8 list" where
  "load_bitmap ghcb m = map (\<lambda>i. m (ghcb + ghcb_valid_bitmap + word_of_nat i)) [0..<16]"

definition is_valid :: "u64 \<Rightarrow> u8 list \<Rightarrow> bool" where
  "is_valid field bitmap \<longleftrightarrow> bit (bitmap ! (unat field div 8 div 8)) (unat field div 8 mod 8)"

subsection \<open>Requests\<close>

text \<open>The base layout: the fields written by a request, the exit, and the check of the status.\<close>

definition base_request :: "u8 list \<Rightarrow> u64 \<Rightarrow> u64 \<Rightarrow> u64 \<Rightarrow> u64 \<Rightarrow> (u64 \<times> u64) list \<Rightarrow> bytes \<Rightarrow> bytes" where
  "base_request uninitialised ghcb code info1 info2 fs m =
    (let m1 = store_le 4 (ghcb + ghcb_format) SevFormat_BASE m;
         m2 = foldl (\<lambda>m (field, v). store64 (ghcb + field) v m) m1 fs;
         m3 = store64 (ghcb + ghcb_exit_info2) info2 (store64 (ghcb + ghcb_exit_info1) info1 (store64 (ghcb + ghcb_exit_code) code m2)) in
     store_bitmap ghcb (foldl (\<lambda>b (field, v). set_valid field b) (initial_guest uninitialised) fs) m3)"

definition write_msr_virt_sev :: "'h hypervisor \<Rightarrow> u8 list \<Rightarrow> u64 \<Rightarrow> u32 \<Rightarrow> u64 \<Rightarrow> 'h guest \<Rightarrow> unit result \<times> 'h guest" where
  "write_msr_virt_sev H uninitialised ghcb msr value g =
    (let g1 = vmgexit H (g\<lparr>mem := base_request uninitialised ghcb SevExitCode_MSR 1 0
           [(ghcb_rcx, ucast msr), (ghcb_rax, value AND 0xFFFFFFFF), (ghcb_rdx, drop_bit 32 value AND 0xFFFFFFFF)] (mem g)\<rparr>) in
     if load64 (ghcb + ghcb_exit_info1) (mem g1) \<noteq> 0 then (Inl KAbort, g1) else (Inr (), g1))"

definition COM1 :: u64 where
  "COM1 = 0x3F8"

definition uartputc_sev :: "'h hypervisor \<Rightarrow> u8 list \<Rightarrow> u64 \<Rightarrow> u8 \<Rightarrow> 'h guest \<Rightarrow> unit result \<times> 'h guest" where
  "uartputc_sev H uninitialised ghcb c g =
    (let g1 = vmgexit H (g\<lparr>mem := base_request uninitialised ghcb SevExitCode_IOIO (push_bit 4 1 OR push_bit 16 COM1) 0
           [(ghcb_rax, ucast c)] (mem g)\<rparr>) in
     if load64 (ghcb + ghcb_exit_info1) (mem g1) \<noteq> 0 then (Inl KAbort, g1) else (Inr (), g1))"

text \<open>The words of a hypercall (\<open>HyperCallInput\<close> and \<open>HyperCallOutput\<close>).\<close>

definition HV_STATUS_SUCCESS :: u16 where "HV_STATUS_SUCCESS = 0"
definition HV_STATUS_TIMEOUT :: u16 where "HV_STATUS_TIMEOUT = 0x78"
definition HvCallEnableVpVtl :: u16 where "HvCallEnableVpVtl = 0x0f"
definition HvCallStartVirtualProcessor :: u16 where "HvCallStartVirtualProcessor = 0x99"
definition HvCallGetVpRegisters :: u16 where "HvCallGetVpRegisters = 0x50"

definition hypercall_input :: "u16 \<Rightarrow> bool \<Rightarrow> nat \<Rightarrow> nat \<Rightarrow> u64" where
  "hypercall_input call_code is_fast rep_count rep_start_index =
    ucast call_code OR (if is_fast then push_bit 16 1 else 0) OR push_bit 32 (word_of_nat (rep_count mod 4096)) OR
    push_bit 48 (word_of_nat (rep_start_index mod 4096))"

definition hypercall_status :: "u64 \<Rightarrow> u16" where
  "hypercall_status output = ucast output"

definition elements_processed :: "u64 \<Rightarrow> nat" where
  "elements_processed output = unat (drop_bit 32 output AND 0xFFF)"

partial_function (option) hypercall_loop :: "'h hypervisor \<Rightarrow> u64 \<Rightarrow> u16 \<Rightarrow> nat \<Rightarrow> 'h guest \<Rightarrow> (u16 \<times> 'h guest) option" where
  "hypercall_loop H ghcb code rep_start g =
    (let g1 = vmgexit H (g\<lparr>mem := store64 (ghcb + ghcb_hypercall) (hypercall_input code False 0 rep_start) (mem g)\<rparr>);
         hypercall_output = load64 (ghcb + ghcb_hypercall) (mem g1) in
     if hypercall_status hypercall_output \<noteq> HV_STATUS_TIMEOUT then Some (hypercall_status hypercall_output, g1)
     else hypercall_loop H ghcb code (elements_processed hypercall_output) g1)"

definition call_hyperv_sev :: "'h hypervisor \<Rightarrow> u64 \<Rightarrow> u16 \<Rightarrow> u64 \<Rightarrow> u64 \<Rightarrow> 'h guest \<Rightarrow> (u16 result \<times> 'h guest) option" where
  "call_hyperv_sev H ghcb code input_params output_params g =
    (if input_params \<noteq> 0 \<and> input_params \<noteq> ghcb then Some (Inl KAbort, g)
     else
       let m1 = store64 (ghcb + ghcb_output_params_gpa) output_params (store_le 4 (ghcb + ghcb_format) SevFormat_HYPERCALL (mem g)) in
       Option.bind (hypercall_loop H ghcb code 0 (g\<lparr>mem := m1\<rparr>)) (\<lambda>(status, g1). Some (Inr status, g1)))"

definition call_hyperv_sev_fast :: "'h hypervisor \<Rightarrow> u64 \<Rightarrow> u16 \<Rightarrow> u64 \<Rightarrow> u64 \<Rightarrow> 'h guest \<Rightarrow> (u16 result \<times> 'h guest) option" where
  "call_hyperv_sev_fast H ghcb code input_params output_params g =
    call_hyperv_sev H ghcb code 0 output_params (g\<lparr>mem := store64 ghcb input_params (mem g)\<rparr>)"

subsection \<open>Start-up\<close>

definition setup_ghcb :: "env \<Rightarrow> 'h hypervisor \<Rightarrow> byte_span \<Rightarrow> visible_pool \<Rightarrow> 'h guest \<Rightarrow> ((u64 \<times> visible_pool) result \<times> 'h guest) option" where
  "setup_ghcb E H v p g =
    Option.bind (allocate_visible_sev_vtom E H v HV_PAGE_SIZE p g) (\<lambda>(r, g1).
      case r of Inl f \<Rightarrow> Some (Inl f, g1)
      | Inr (ghcb, p1) \<Rightarrow>
        let g2 = g1\<lparr>mem := memset ghcb 0 HV_PAGE_SIZE (mem g1)\<rparr>;
            ghcb_page_number = ghcb div HV_PAGE_SIZE;
            g3 = vmgexit H (write_msr (simple_request SEV_GHCB_INFO_REGISTER_REQUEST ghcb_page_number) g2) in
        if \<not> response_success SEV_GHCB_INFO_REGISTER_RESPONSE (ghcb_msr g3) then Some (Inl KAbort, g3)
        else
          let g4 = write_msr (simple_request SEV_GHCB_INFO_NORMAL ghcb_page_number) g3 in
          Some (Inr (ghcb, p1), g4\<lparr>mem := store_le 2 (ghcb + ghcb_version) SevVersion_CURRENT (mem g4)\<rparr>))"

definition SEV_HYPERVISOR_FEATURES_REQUIREMENT :: u64 where
  "SEV_HYPERVISOR_FEATURES_REQUIREMENT = 0x5"

definition sev_set_tsc_freq :: "u64 \<Rightarrow> u64" where
  "sev_set_tsc_freq msr_tsc_freq = msr_tsc_freq * 1000000"

text \<open>\<open>init_hyperv_sev\<close>: the pages that it accepts and the frequency that it sets.\<close>

definition init_hyperv_sev :: "env \<Rightarrow> 'h hypervisor \<Rightarrow> u64 \<Rightarrow> u64 \<Rightarrow> u64 \<Rightarrow> 'h guest \<Rightarrow> ((u64 list \<times> u64) result \<times> 'h guest) option" where
  "init_hyperv_sev E H unloaded_start heap_start msr_tsc_freq g =
    (let g1 = vmgexit H (write_msr features_request g) in
     if \<not> response_success SEV_GHCB_INFO_FEATURES_RESPONSE (ghcb_msr g1) \<or>
        response_value (ghcb_msr g1) AND SEV_HYPERVISOR_FEATURES_REQUIREMENT \<noteq> SEV_HYPERVISOR_FEATURES_REQUIREMENT
     then Some (Inl KAbort, g1)
     else Option.bind (accept_unloaded E unloaded_start heap_start) (\<lambda>pages.
       Some (Inr (pages, sev_set_tsc_freq msr_tsc_freq), g1)))"

definition shutdown_sev :: "'h hypervisor \<Rightarrow> 'h guest \<Rightarrow> 'h guest" where
  "shutdown_sev H g = vmgexit H (write_msr (termination_request 0) g)"

definition SEV_SECRET_PAGE_ADDRESS :: u64 where "SEV_SECRET_PAGE_ADDRESS = 0x301000"
definition UNMEASURED_LOADER_DATA_ADDRESS :: u64 where "UNMEASURED_LOADER_DATA_ADDRESS = 0x302000"
definition SEV_VMSA_SETTINGS_ADDRESS :: u64 where "SEV_VMSA_SETTINGS_ADDRESS = 0x303000"

definition EXTRA_DATA_RANGE :: "env \<Rightarrow> AddressRange" where
  "EXTRA_DATA_RANGE E = align_broaden E (mk_range SEV_SECRET_PAGE_ADDRESS SEV_VMSA_SETTINGS_ADDRESS) (PAGE_SIZE E)"

definition setup_pagetable_sev ::
  "env \<Rightarrow> (u64 list \<Rightarrow> u64) \<Rightarrow> kernel_layout \<Rightarrow> HeapRanges \<Rightarrow> byte_span \<Rightarrow> pt_mem \<Rightarrow> pt_mem result option" where
  "setup_pagetable_sev E alloc L h v m =
    run_bind (create_kernel_page_table E alloc L h m) (\<lambda>m1.
    run_bind (if scount v \<noteq> 0 then add_to_kernel_pagetable E alloc (sdata v) (scount v) PT_KERNEL_WRITE m1 else Some (Inr m1)) (\<lambda>m2.
    add_to_kernel_pagetable E alloc (rstart (EXTRA_DATA_RANGE E)) (range_size (EXTRA_DATA_RANGE E)) PT_KERNEL_READ m2))"

definition MONZA_ID :: u64 where "MONZA_ID = 0x8000"
definition KERNEL_VERSION :: u64 where "KERNEL_VERSION = 0"
definition BUILD_ID :: u64 where "BUILD_ID = 0"
definition HV_X64_MSR_GUEST_OS_ID :: u32 where "HV_X64_MSR_GUEST_OS_ID = 0x40000000"

definition guest_os_id :: u64 where
  "guest_os_id = push_bit 48 MONZA_ID OR push_bit 16 KERNEL_VERSION OR BUILD_ID"

definition setup_hypervisor_stage2_sev :: "'h hypervisor \<Rightarrow> u8 list \<Rightarrow> u64 \<Rightarrow> HeapRanges \<Rightarrow> 'h guest \<Rightarrow> byte_span result \<times> 'h guest" where
  "setup_hypervisor_stage2_sev H uninitialised ghcb h g =
    (let (r, g1) = write_msr_virt_sev H uninitialised ghcb HV_X64_MSR_GUEST_OS_ID guest_os_id g in
     case r of Inl f \<Rightarrow> (Inl f, g1)
     | Inr _ \<Rightarrow> (Inr (mk_span (largest_valid_address h + 1) IO_SHARED_MEMORY_SIZE), g1))"

section \<open>Properties\<close>

lemma push_page: "unat a = 4096 * m \<Longrightarrow> push_bit 12 (a div HV_PAGE_SIZE) = (a :: u64)"
proof -
  assume a: "unat a = 4096 * m"
  have "unat (a div HV_PAGE_SIZE) = m" by (rule frame_number [OF a])
  moreover have "4096 * m < 18446744073709551616" using unat_lt64 [of a] a by simp
  ultimately have "unat (push_bit 12 (a div HV_PAGE_SIZE)) = 4096 * m"
    by (simp add: push_bit_eq_mult unat_word_ariths)
  then show ?thesis using a by (simp add: word_eq_nat)
qed

text \<open>After the set-up the register holds the address of the block.\<close>

lemma setup_ghcb_register:
  assumes E: "snmalloc_env E" and v: "vtom_ok E v" and p: "pool_ok E v p" and sh: "shared_until v (pool_end v p) g"
  shows "\<exists>r g'. setup_ghcb E H v p g = Some (r, g') \<and>
    (case r of Inl f \<Rightarrow> f = KAbort | Inr (ghcb, p') \<Rightarrow> ghcb_msr g' = ghcb \<and> 4096 dvd unat ghcb \<and> load_le 2 (ghcb + ghcb_version) (mem g') = 2)"
proof -
  have "0 < unat HV_PAGE_SIZE" "unat HV_PAGE_SIZE + 4096 \<le> 2 ^ 64" by (simp_all add: HV_PAGE_SIZE_def)
  from snmalloc_env.allocate_visible_ok [OF E v p sh this, of H]
  obtain r g1 where al: "allocate_visible_sev_vtom E H v HV_PAGE_SIZE p g = Some (r, g1)"
    "case r of Inl f \<Rightarrow> f = KAbort | Inr (a, p') \<Rightarrow> pool_ok E v p' \<and> shared_until v (pool_end v p') g1 \<and> ghcb_msr g1 = ghcb_msr g \<and>
      4096 dvd unat a \<and> sdata v \<le> a \<and> avail_data p \<le> a \<and> unat a + up_to 4096 (unat HV_PAGE_SIZE) = unat (avail_data p') \<and>
      unat (avail_data p') \<le> pool_end v p'" by blast
  show ?thesis
  proof (cases r)
    case (Inl f)
    then show ?thesis using al by (simp add: setup_ghcb_def)
  next
    case (Inr x)
    obtain a p' where x: "x = (a, p')" by (cases x)
    then obtain m where "unat a = 4096 * m" using al(2) by (auto simp: Inr elim!: dvdE)
    then have "simple_request SEV_GHCB_INFO_NORMAL (a div HV_PAGE_SIZE) = a" by (simp add: simple_request_def ghcb_info_defs push_page)
    then show ?thesis using al by (auto simp: setup_ghcb_def Inr x Let_def load_store_le SevVersion_CURRENT_def write_msr_def)
  qed
qed

lemma extra_data_small_pages: "EXTRA_DATA_RANGE (rounding_env 4096) = \<lparr>rstart = 0x301000, rend = 0x303000\<rparr>"
  by code_simp

text \<open>With 4 KB pages the range of the loader data does not reach the page of the VMSA settings.\<close>

lemma vmsa_settings_not_mapped: "\<not> overlaps (EXTRA_DATA_RANGE (rounding_env 4096)) SEV_VMSA_SETTINGS_ADDRESS"
  by (simp add: extra_data_small_pages overlaps_def SEV_VMSA_SETTINGS_ADDRESS_def)

lemma vmsa_settings_mapped_large: "overlaps (EXTRA_DATA_RANGE (rounding_env 2097152)) SEV_VMSA_SETTINGS_ADDRESS"
  by code_simp

lemma hypercall_never_timeout:
  assumes run: "hypercall_loop H ghcb code k g = Some y"
  shows "fst y \<noteq> HV_STATUS_TIMEOUT"
proof (rule hypercall_loop.raw_induct [OF _ run, where P = "\<lambda>H ghcb code k g y. fst y \<noteq> HV_STATUS_TIMEOUT"])
  fix rec :: "'a hypervisor \<Rightarrow> u64 \<Rightarrow> u16 \<Rightarrow> nat \<Rightarrow> 'a guest \<Rightarrow> (u16 \<times> 'a guest) option" and H ghcb code k g y
  assume 1: "\<And>H ghcb code k g y. rec H ghcb code k g = Some y \<Longrightarrow> fst y \<noteq> HV_STATUS_TIMEOUT"
    and 2: "(let g1 = vmgexit H (g\<lparr>mem := store64 (ghcb + ghcb_hypercall) (hypercall_input code False 0 k) (mem g)\<rparr>);
         hypercall_output = load64 (ghcb + ghcb_hypercall) (mem g1) in
     if hypercall_status hypercall_output \<noteq> HV_STATUS_TIMEOUT then Some (hypercall_status hypercall_output, g1)
     else rec H ghcb code (elements_processed hypercall_output) g1) = Some y"
  from 2 show "fst y \<noteq> HV_STATUS_TIMEOUT" by (auto simp: Let_def split: if_splits dest: 1)
qed

text \<open>Fields of the block that do not overlap keep their values.\<close>

lemma load64_offsets:
  assumes "8 \<le> unat (e - f)" "unat (e - f) \<le> 2 ^ 64 - 8"
  shows "load64 (b + e) (store64 (b + f) v m) = load64 (b + e) m"
  using load64_store64_other [of "b + e" "b + f"] assms by simp

lemma load64_outside:
  assumes m: "\<And>x. n \<le> unat (x - c) \<Longrightarrow> m' x = m x" and "n \<le> unat (a - c)" and "unat (a - c) \<le> 2 ^ 64 - 8"
  shows "load64 a m' = load64 a m"
proof (rule load64_cong)
  fix x assume x: "unat (x - a) < 8"
  have "x - c = (x - a) + (a - c)" by simp
  then have "unat (x - c) = unat (x - a) + unat (a - c)" using x assms(3) unat_add64 [of "x - a" "a - c"] by simp
  then show "m' x = m x" using m [of x] assms(2) by simp
qed

lemma high_half: "drop_bit 32 value AND 0xFFFFFFFF = drop_bit 32 (value :: u64)"
proof -
  have "(0xFFFFFFFF :: u64) = mask 32" by (simp add: mask_eq_exp_minus_1)
  moreover have "take_bit 32 (drop_bit 32 value) = drop_bit 32 value"
    by (rule bit_eqI) (auto simp: bit_take_bit_iff bit_drop_bit_eq dest: bit_imp_le_length)
  ultimately show ?thesis by (simp only: take_bit_eq_mask [symmetric])
qed

lemma load64_bitmap:
  assumes "16 \<le> unat (e - ghcb_valid_bitmap)" "unat (e - ghcb_valid_bitmap) \<le> 2 ^ 64 - 8"
  shows "load64 (ghcb + e) (store_bitmap ghcb b m) = load64 (ghcb + e) m"
  by (rule load64_outside [of 16 "ghcb + ghcb_valid_bitmap"]) (use assms in \<open>auto simp: store_bitmap_def Let_def\<close>)

lemma load_store_bitmap: "length b = 16 \<Longrightarrow> load_bitmap ghcb (store_bitmap ghcb b m) = b"
  by (auto simp: load_bitmap_def store_bitmap_def Let_def list_eq_iff_nth_eq unat_of_nat64)

lemma length_set_valid [simp]: "length (set_valid f b) = length b"
  by (simp add: set_valid_def Let_def)

lemma is_valid_set: "unat f div 64 < length b \<Longrightarrow> is_valid f (set_valid f b)"
  by (simp add: is_valid_def set_valid_def Let_def bit_or_iff bit_exp_iff div_mult2_eq [symmetric])

lemma is_valid_mono: "is_valid e b \<Longrightarrow> is_valid e (set_valid f b)"
  by (cases "unat f div 8 div 8 < length b"; cases "unat f div 8 div 8 = unat e div 8 div 8")
    (simp_all add: is_valid_def set_valid_def Let_def bit_or_iff list_update_beyond not_less)

text \<open>
  What the host sees of a virtual register write: at the exit the block holds the
  number of the register and the two halves of the value, the exit code and its
  arguments, and the bitmap marks all of them as valid, whatever the bitmap held before;
  the call stops the machine exactly if the host reports an error.
\<close>

theorem write_msr_virt_request:
  assumes "length uninitialised = 16"
  shows "\<exists>r g' m. write_msr_virt_sev H uninitialised ghcb msr value g = (r, g') \<and> exits g' = exits g @ [(ghcb_msr g, m)] \<and>
    load64 (ghcb + ghcb_rcx) m = ucast msr \<and> load64 (ghcb + ghcb_rax) m = value AND 0xFFFFFFFF \<and>
    load64 (ghcb + ghcb_rdx) m = drop_bit 32 value \<and> load64 (ghcb + ghcb_exit_code) m = SevExitCode_MSR \<and>
    load64 (ghcb + ghcb_exit_info1) m = 1 \<and> load64 (ghcb + ghcb_exit_info2) m = 0 \<and>
    (\<forall>f \<in> {ghcb_rcx, ghcb_rax, ghcb_rdx, ghcb_exit_code, ghcb_exit_info1, ghcb_exit_info2}. is_valid f (load_bitmap ghcb m)) \<and>
    (r = Inl KAbort \<longleftrightarrow> load64 (ghcb + ghcb_exit_info1) (mem g') \<noteq> 0)"
proof -
  define m where "m = base_request uninitialised ghcb SevExitCode_MSR 1 0
    [(ghcb_rcx, ucast msr), (ghcb_rax, value AND 0xFFFFFFFF), (ghcb_rdx, drop_bit 32 value AND 0xFFFFFFFF)] (mem g)"
  define b where "b = set_valid ghcb_rdx (set_valid ghcb_rax (set_valid ghcb_rcx (initial_guest uninitialised)))"
  have lb: "length b = 16" using assms by (simp add: b_def initial_guest_def)
  have "load_bitmap ghcb m = b" using load_store_bitmap [OF lb] by (simp add: m_def base_request_def Let_def b_def)
  moreover have "\<forall>f \<in> {ghcb_rcx, ghcb_rax, ghcb_rdx, ghcb_exit_code, ghcb_exit_info1, ghcb_exit_info2}. is_valid f b"
    using assms by (simp add: b_def initial_guest_def ghcb_offsets is_valid_set is_valid_mono)
  moreover have f: "load64 (ghcb + ghcb_rcx) m = ucast msr" "load64 (ghcb + ghcb_rax) m = value AND 0xFFFFFFFF"
    "load64 (ghcb + ghcb_rdx) m = drop_bit 32 value AND 0xFFFFFFFF" "load64 (ghcb + ghcb_exit_code) m = SevExitCode_MSR"
    "load64 (ghcb + ghcb_exit_info1) m = 1" "load64 (ghcb + ghcb_exit_info2) m = 0"
    unfolding m_def base_request_def Let_def by (simp_all add: load64_bitmap load64_offsets ghcb_offsets)
  moreover have "drop_bit 32 value AND 0xFFFFFFFF = drop_bit 32 value" by (rule high_half)
  ultimately show ?thesis
    by (auto simp: write_msr_virt_sev_def vmgexit_def Let_def m_def split: prod.splits)
qed

theorem write_msr_virt_request_witness:
  "\<exists>r g' m. write_msr_virt_sev (\<lambda>msr m h. (msr, (\<lambda>_. 0), h)) (replicate 16 0xAB) 0x5000 0x40000000 guest_os_id
      \<lparr>mem = (\<lambda>_. 1), ghcb_msr = 0x5000, host = (), exits = []\<rparr> = (r, g') \<and>
    exits g' = exits \<lparr>mem = (\<lambda>_. 1), ghcb_msr = 0x5000, host = (), exits = []\<rparr> @ [(ghcb_msr \<lparr>mem = (\<lambda>_. 1), ghcb_msr = 0x5000, host = (), exits = []\<rparr>, m)] \<and>
    load64 (0x5000 + ghcb_rcx) m = ucast (0x40000000 :: u32) \<and> load64 (0x5000 + ghcb_rax) m = guest_os_id AND 0xFFFFFFFF \<and>
    load64 (0x5000 + ghcb_rdx) m = drop_bit 32 guest_os_id \<and> load64 (0x5000 + ghcb_exit_code) m = SevExitCode_MSR \<and>
    load64 (0x5000 + ghcb_exit_info1) m = 1 \<and> load64 (0x5000 + ghcb_exit_info2) m = 0 \<and>
    (\<forall>f \<in> {ghcb_rcx, ghcb_rax, ghcb_rdx, ghcb_exit_code, ghcb_exit_info1, ghcb_exit_info2}. is_valid f (load_bitmap 0x5000 m)) \<and>
    (r = Inl KAbort \<longleftrightarrow> load64 (0x5000 + ghcb_exit_info1) (mem g') \<noteq> 0)"
  by (rule write_msr_virt_request) simp

end
