(* ===== verification/Guest_Request.thy ===== *)
theory Guest_Request
  imports Sev_Calls
begin

unbundle bit_operations_syntax

text \<open>
  The encrypted requests of the SEV-SNP guest to the security processor
  (\<open>arch/x86_64/hv_sev_guest_request.cc\<close>): the layout of the messages, the sequence numbers
  that are the initialisation vectors, and the two requests, for an attestation report and
  for the state of the time-stamp counter.  The cipher of OpenSSL is a parameter with the
  laws of authenticated encryption.
\<close>

record aead =
  iv_length :: nat
  seal :: "u8 list \<Rightarrow> u8 list \<Rightarrow> u8 list \<Rightarrow> u8 list \<Rightarrow> (u8 list \<times> u8 list) option"
  unseal :: "u8 list \<Rightarrow> u8 list \<Rightarrow> u8 list \<Rightarrow> u8 list \<Rightarrow> u8 list \<Rightarrow> u8 list option"

text \<open>
  The arguments are the key, the initialisation vector, the additional data and the text;
  decryption has the tag as well.  Decryption succeeds exactly on what encryption gives.
\<close>

locale authenticated_cipher =
  fixes A :: aead
  assumes seal_length: "seal A k iv aad p = Some (c, t) \<Longrightarrow> length c = length p \<and> length t = 16"
    and unseal_iff: "unseal A k iv aad c t = Some p \<longleftrightarrow> seal A k iv aad p = Some (c, t)"

subsection \<open>Messages\<close>

record payload_type =
  pt_type :: nat
  pt_version :: nat
  pt_size :: nat

definition ReportRequest :: payload_type where "ReportRequest = \<lparr>pt_type = 5, pt_version = 1, pt_size = 0x60\<rparr>"
definition ReportResponse :: payload_type where "ReportResponse = \<lparr>pt_type = 6, pt_version = 1, pt_size = 0x20 + 0x4a0\<rparr>"
definition TscRequest :: payload_type where "TscRequest = \<lparr>pt_type = 17, pt_version = 1, pt_size = 0x80\<rparr>"
definition TscResponse :: payload_type where "TscResponse = \<lparr>pt_type = 18, pt_version = 1, pt_size = 0x80\<rparr>"

definition report_request_payload :: "u8 list \<Rightarrow> u8 list result" where
  "report_request_payload user_data =
    (if length user_data > 0x40 then Inl KAbort
     else Inr (user_data @ replicate (0x40 - length user_data) 0 @ le_bytes 4 0 @ replicate (0x60 - 0x44) 0))"

definition tsc_request_payload :: "u8 list" where
  "tsc_request_payload = replicate 0x80 0"

text \<open>The report is a view of as many bytes as the response says; beyond the array it is undefined.\<close>

definition report_data :: "u8 list \<Rightarrow> u8 list result" where
  "report_data payload =
    (let report_size = le_value (take 4 (drop 4 payload)) in
     if report_size > 0x4a0 then Inl Undefined else Inr (take report_size (drop 0x20 payload)))"

record TscState =
  tsc_scale :: nat
  tsc_offset :: nat
  tsc_factor :: nat

definition tsc_state :: "u8 list \<Rightarrow> TscState" where
  "tsc_state payload =
    \<lparr>tsc_scale = le_value (take 8 (drop 8 payload)), tsc_offset = le_value (take 8 (drop 16 payload)),
      tsc_factor = le_value (take 4 (drop 24 payload))\<rparr>"

definition GUEST_REQUEST_VMPCK :: nat where "GUEST_REQUEST_VMPCK = 0"

text \<open>The header of a request; the payload follows at 0x60, which is the header size.\<close>

definition authentication_header :: "payload_type \<Rightarrow> u8 list" where
  "authentication_header T =
    le_bytes 1 1 @ le_bytes 1 1 @ le_bytes 2 0x60 @ le_bytes 1 (pt_type T) @ le_bytes 1 (pt_version T) @ le_bytes 2 (pt_size T) @
    le_bytes 4 0 @ le_bytes 1 GUEST_REQUEST_VMPCK @ le_bytes 1 0 @ le_bytes 2 0 @ replicate 0x20 0"

definition request_message :: "payload_type \<Rightarrow> u64 \<Rightarrow> u8 list \<Rightarrow> u8 list \<Rightarrow> u8 list" where
  "request_message T msg_seq_num auth_tag payload =
    auth_tag @ le_bytes 8 (unat msg_seq_num) @ le_bytes 8 0 @ authentication_header T @ payload"

definition authentication_tag :: "u8 list \<Rightarrow> u8 list" where "authentication_tag message = take 0x20 message"
definition sequence_number :: "u8 list \<Rightarrow> u64" where "sequence_number message = word_of_nat (le_value (take 8 (drop 0x20 message)))"
definition authentication_data :: "u8 list \<Rightarrow> u8 list" where "authentication_data message = take 0x30 (drop 0x30 message)"
definition message_payload :: "u8 list \<Rightarrow> u8 list" where "message_payload message = drop 0x60 message"

subsection \<open>Encryption\<close>

definition tag_length :: nat where "tag_length = 16"

definition crypto_init :: "aead \<Rightarrow> nat result" where
  "crypto_init A = (if iv_length A < 8 then Inl KAbort else Inr (iv_length A))"

definition request_iv :: "aead \<Rightarrow> u64 \<Rightarrow> u8 list" where
  "request_iv A seq = le_bytes 8 (unat seq) @ replicate (iv_length A - 8) 0"

definition encrypt :: "aead \<Rightarrow> u8 list \<Rightarrow> u64 \<Rightarrow> u8 list \<Rightarrow> nat \<Rightarrow> u8 list \<Rightarrow> nat \<Rightarrow> (u8 list \<times> u8 list) result" where
  "encrypt A key seq source destination_size aad tag_size =
    (if length source \<noteq> destination_size \<or> tag_size < tag_length then Inl KAbort
     else case seal A key (request_iv A seq) aad source of None \<Rightarrow> Inl KAbort | Some ct \<Rightarrow> Inr ct)"

definition decrypt :: "aead \<Rightarrow> u8 list \<Rightarrow> u64 \<Rightarrow> u8 list \<Rightarrow> nat \<Rightarrow> u8 list \<Rightarrow> u8 list \<Rightarrow> u8 list result" where
  "decrypt A key seq source destination_size aad tag =
    (if length source \<noteq> destination_size \<or> length tag < tag_length then Inl KAbort
     else case unseal A key (request_iv A seq) aad source (take tag_length tag) of None \<Rightarrow> Inl KAbort | Some p \<Rightarrow> Inr p)"

subsection \<open>Requests\<close>

record request_env =
  re_ghcb :: u64
  re_key :: "u8 list"
  re_request_page :: u64
  re_response_page :: u64
  re_uninitialised :: "u8 list"

record 'h requester =
  rguest :: "'h guest"
  msg_seq_num :: u64

definition setup_sev_guest_request ::
  "env \<Rightarrow> 'h hypervisor \<Rightarrow> byte_span \<Rightarrow> visible_pool \<Rightarrow> 'h guest \<Rightarrow> ((u64 list \<times> visible_pool) result \<times> 'h guest) option" where
  "setup_sev_guest_request E H v p g = allocate_all E H v [HV_PAGE_SIZE, HV_PAGE_SIZE] p g"

text \<open>The status is a 32-bit code: the upper half of the register is not looked at.\<close>

definition sev_guest_request :: "'h hypervisor \<Rightarrow> request_env \<Rightarrow> 'h guest \<Rightarrow> unit result \<times> 'h guest" where
  "sev_guest_request H R g =
    (let g1 = vmgexit H (g\<lparr>mem := base_request (re_uninitialised R) (re_ghcb R) SevExitCode_GUEST_REQUEST
           (re_request_page R) (re_response_page R) [] (mem g)\<rparr>);
         status = ucast (load64 (re_ghcb R + ghcb_exit_info2) (mem g1)) :: u32 in
     if status \<noteq> 0 then (Inl KAbort, g1) else (Inr (), g1))"

definition sev_typed_guest_request ::
  "aead \<Rightarrow> 'h hypervisor \<Rightarrow> request_env \<Rightarrow> payload_type \<Rightarrow> payload_type \<Rightarrow> u8 list \<Rightarrow> 'h requester \<Rightarrow> u8 list result \<times> 'h requester" where
  "sev_typed_guest_request A H R Req Rsp request_payload s =
    (let seq = msg_seq_num s in
     case encrypt A (re_key R) seq request_payload (pt_size Req) (authentication_header Req) 0x20 of
       Inl f \<Rightarrow> (Inl f, s)
     | Inr (ct, tag) \<Rightarrow>
         let request = request_message Req seq (tag @ replicate (0x20 - length tag) 0) ct;
             g = rguest s;
             (r, g1) = sev_guest_request H R (g\<lparr>mem := store_bytes (re_request_page R) request (mem g)\<rparr>);
             s1 = s\<lparr>rguest := g1\<rparr> in
         case r of Inl f \<Rightarrow> (Inl f, s1)
         | Inr _ \<Rightarrow>
             let response = load_bytes (re_response_page R) (0x60 + pt_size Rsp) (mem g1);
                 response_seq_num = sequence_number response in
             if response_seq_num \<noteq> seq + 1 then (Inl KAbort, s1)
             else
               (decrypt A (re_key R) response_seq_num (message_payload response) (pt_size Rsp)
                  (authentication_data response) (authentication_tag response),
                s1\<lparr>msg_seq_num := seq + 2\<rparr>))"

definition generate_attestation_report_sev ::
  "aead \<Rightarrow> 'h hypervisor \<Rightarrow> request_env \<Rightarrow> u8 list \<Rightarrow> 'h requester \<Rightarrow> u8 list result \<times> 'h requester" where
  "generate_attestation_report_sev A H R user_data s =
    (case report_request_payload user_data of
       Inl f \<Rightarrow> (Inl f, s)
     | Inr p \<Rightarrow>
         let (r, s1) = sev_typed_guest_request A H R ReportRequest ReportResponse p s in (res_bind r report_data, s1))"

definition get_current_tsc_state_sev :: "aead \<Rightarrow> 'h hypervisor \<Rightarrow> request_env \<Rightarrow> 'h requester \<Rightarrow> TscState result \<times> 'h requester" where
  "get_current_tsc_state_sev A H R s =
    (let (r, s1) = sev_typed_guest_request A H R TscRequest TscResponse tsc_request_payload s in (res_bind r (\<lambda>p. Inr (tsc_state p)), s1))"

section \<open>Sequence numbers\<close>

text \<open>A sequence of requests: it ends at the first that stops the machine.  The vectors that it uses, in order.\<close>

fun request_ivs :: "aead \<Rightarrow> 'h hypervisor \<Rightarrow> request_env \<Rightarrow> (payload_type \<times> payload_type \<times> u8 list) list \<Rightarrow> 'h requester \<Rightarrow> u8 list list" where
  "request_ivs A H R [] s = []"
| "request_ivs A H R ((Req, Rsp, p) # xs) s =
    (case sev_typed_guest_request A H R Req Rsp p s of
       (Inl f, s1) \<Rightarrow> [request_iv A (msg_seq_num s)]
     | (Inr q, s1) \<Rightarrow> request_iv A (msg_seq_num s) # request_iv A (msg_seq_num s + 1) # request_ivs A H R xs s1)"

lemma typed_request_seq:
  "sev_typed_guest_request A H R Req Rsp p s = (Inr q, s1) \<Longrightarrow> msg_seq_num s1 = msg_seq_num s + 2"
  by (auto simp: sev_typed_guest_request_def Let_def split: sum.splits prod.splits if_splits)

lemma request_iv_inject: "request_iv A a = request_iv A b \<longleftrightarrow> a = b"
proof
  assume "request_iv A a = request_iv A b"
  then have "le_bytes 8 (unat a) = le_bytes 8 (unat b)" by (simp add: request_iv_def)
  then have "unat a = unat b" by (rule le_bytes_inject [rotated 2]) (use unat_lt64 [of a] unat_lt64 [of b] in simp_all)
  then show "a = b" by (simp add: word_eq_nat)
qed simp

lemma request_ivs_prefix:
  "\<exists>k \<le> 2 * length xs. request_ivs A H R xs s = map (\<lambda>i. request_iv A (msg_seq_num s + word_of_nat i)) [0..<k]"
proof (induction xs arbitrary: s)
  case (Cons x xs)
  obtain Req Rsp p where x: "x = (Req, Rsp, p)" by (cases x)
  obtain r s1 where run: "sev_typed_guest_request A H R Req Rsp p s = (r, s1)" by fastforce
  show ?case
  proof (cases r)
    case (Inl f)
    then show ?thesis using run by (intro exI [of _ 1]) (simp add: x)
  next
    case (Inr q)
    obtain k where k: "k \<le> 2 * length xs" "request_ivs A H R xs s1 = map (\<lambda>i. request_iv A (msg_seq_num s1 + word_of_nat i)) [0..<k]"
      using Cons.IH by blast
    have "request_ivs A H R (x # xs) s = map (\<lambda>i. request_iv A (msg_seq_num s + word_of_nat i)) (0 # 1 # map (\<lambda>i. i + 2) [0..<k])"
      using run Inr k typed_request_seq [of A H R Req Rsp p s q s1] by (simp add: x comp_def add.assoc add.commute [of 2])
    also have "0 # 1 # map (\<lambda>i. i + 2) [0..<k] = [0..<k + 2]"
      unfolding map_add_upt by (simp add: upt_conv_Cons numeral_2_eq_2 del: upt_Suc)
    finally show ?thesis using k(1) by (intro exI [of _ "k + 2"]) simp
  qed
qed (rule exI [of _ 0], simp)



section \<open>Messages and responses\<close>

lemma length_authentication_header [simp]: "length (authentication_header T) = 0x30"
  by (simp add: authentication_header_def)

lemma request_message_parts:
  assumes "length tag = 0x20"
  shows "authentication_tag (request_message T n tag p) = tag" "sequence_number (request_message T n tag p) = n"
    "authentication_data (request_message T n tag p) = authentication_header T" "message_payload (request_message T n tag p) = p"
proof -
  have "take 8 (drop 32 (request_message T n tag p)) = le_bytes 8 (unat n)" using assms by (simp add: request_message_def)
  then show "sequence_number (request_message T n tag p) = n"
    using unat_lt64 [of n] by (simp add: sequence_number_def le_value_le_bytes)
qed (use assms in \<open>simp_all add: request_message_def authentication_tag_def authentication_data_def message_payload_def\<close>)

text \<open>
  C31.  What a request sends and what it accepts: if it returns a payload, the host was
  given, at the exit, a page that holds the request encrypted under the current number
  with its header authenticated; and the page that the host left holds a message with the
  next number that is the authenticated encryption of exactly the returned payload under
  that number.  The number advances by two.  So the guest accepts no response to an
  earlier request and no payload that the security processor did not encrypt.
\<close>

theorem guest_request_authentic:
  assumes A: "authenticated_cipher A" and run: "sev_typed_guest_request A H R Req Rsp p s = (Inr q, s')"
    and size: "pt_size Req \<le> 0xFA0" "pt_size Rsp \<le> 0xFA0"
  shows "\<exists>ct tag msr m response.
    seal A (re_key R) (request_iv A (msg_seq_num s)) (authentication_header Req) p = Some (ct, tag) \<and>
    exits (rguest s') = exits (rguest s) @ [(msr, base_request (re_uninitialised R) (re_ghcb R) SevExitCode_GUEST_REQUEST
      (re_request_page R) (re_response_page R) [] m)] \<and>
    load_bytes (re_request_page R) (0x60 + pt_size Req) m = request_message Req (msg_seq_num s) (tag @ replicate 16 0) ct \<and>
    response = load_bytes (re_response_page R) (0x60 + pt_size Rsp) (mem (rguest s')) \<and>
    sequence_number response = msg_seq_num s + 1 \<and>
    seal A (re_key R) (request_iv A (msg_seq_num s + 1)) (authentication_data response) q = Some (message_payload response, take 16 (authentication_tag response)) \<and>
    length q = pt_size Rsp \<and> msg_seq_num s' = msg_seq_num s + 2"
proof -
  obtain ct tag where ct: "seal A (re_key R) (request_iv A (msg_seq_num s)) (authentication_header Req) p = Some (ct, tag)"
    and len: "length p = pt_size Req"
    using run by (auto simp: sev_typed_guest_request_def encrypt_def Let_def split: if_splits option.splits sum.splits prod.splits)
  have l: "length ct = pt_size Req" "length tag = 16" using authenticated_cipher.seal_length [OF A ct] len by auto
  define request where "request = request_message Req (msg_seq_num s) (tag @ replicate 16 0) ct"
  define m where "m = store_bytes (re_request_page R) request (mem (rguest s))"
  define g1 where "g1 = vmgexit H ((rguest s)\<lparr>mem := base_request (re_uninitialised R) (re_ghcb R) SevExitCode_GUEST_REQUEST
    (re_request_page R) (re_response_page R) [] m\<rparr>)"
  define response where "response = load_bytes (re_response_page R) (0x60 + pt_size Rsp) (mem g1)"
  have enc: "encrypt A (re_key R) (msg_seq_num s) p (pt_size Req) (authentication_header Req) 0x20 = Inr (ct, tag)"
    using ct len by (simp add: encrypt_def tag_length_def)
  have call: "sev_guest_request H R ((rguest s)\<lparr>mem := m\<rparr>) = (if ucast (load64 (re_ghcb R + ghcb_exit_info2) (mem g1)) \<noteq> (0 :: u32) then (Inl KAbort, g1) else (Inr (), g1))"
    by (simp add: sev_guest_request_def Let_def g1_def)
  have rest: "sequence_number response = msg_seq_num s + 1" "s' = s\<lparr>rguest := g1, msg_seq_num := msg_seq_num s + 2\<rparr>"
    "decrypt A (re_key R) (msg_seq_num s + 1) (message_payload response) (pt_size Rsp) (authentication_data response) (authentication_tag response) = Inr q"
    using run enc call l(2)
    by (auto simp: sev_typed_guest_request_def Let_def response_def request_def [symmetric] m_def [symmetric] split: if_splits)
  have "unseal A (re_key R) (request_iv A (msg_seq_num s + 1)) (authentication_data response) (message_payload response) (take 16 (authentication_tag response)) = Some q"
    "length (message_payload response) = pt_size Rsp"
    using rest(3) by (auto simp: decrypt_def tag_length_def split: if_splits option.splits)
  then have un: "seal A (re_key R) (request_iv A (msg_seq_num s + 1)) (authentication_data response) q =
      Some (message_payload response, take 16 (authentication_tag response))" "length q = pt_size Rsp"
    using authenticated_cipher.unseal_iff [OF A] authenticated_cipher.seal_length [OF A] by metis+
  have lr: "length request = 0x60 + pt_size Req" using l by (simp add: request_def request_message_def)
  have "load_bytes (re_request_page R) (0x60 + pt_size Req) m = request"
    using load_store_bytes [of request "re_request_page R" "mem (rguest s)"] lr size(1) by (simp add: m_def)
  moreover have "exits g1 = exits (rguest s) @ [(ghcb_msr (rguest s), base_request (re_uninitialised R) (re_ghcb R) SevExitCode_GUEST_REQUEST
    (re_request_page R) (re_response_page R) [] m)]" by (simp add: g1_def vmgexit_def split: prod.split)
  ultimately have all: "load_bytes (re_request_page R) (0x60 + pt_size Req) m = request" "exits (rguest s') = exits (rguest s) @
      [(ghcb_msr (rguest s), base_request (re_uninitialised R) (re_ghcb R) SevExitCode_GUEST_REQUEST (re_request_page R) (re_response_page R) [] m)]"
    "response = load_bytes (re_response_page R) (0x60 + pt_size Rsp) (mem (rguest s'))" "msg_seq_num s' = msg_seq_num s + 2"
    using rest(2) by (simp_all add: response_def)
  show ?thesis using ct all rest(1) un unfolding request_def by blast
qed

text \<open>An instance of the interface, and a security processor that answers the first request for the counter.\<close>

definition plain_tag :: "u8 list \<Rightarrow> u8 list \<Rightarrow> u8 list" where
  "plain_tag k iv = take 16 (iv @ k @ replicate 16 0)"

definition tag_cipher :: aead where
  "tag_cipher = \<lparr>iv_length = 12, seal = (\<lambda>k iv aad p. Some (p, plain_tag k iv)),
    unseal = (\<lambda>k iv aad c t. if t = plain_tag k iv then Some c else None)\<rparr>"

lemma plain_tag_length [simp]: "length (plain_tag k iv) = 16"
  by (simp add: plain_tag_def)

lemma tag_cipher_simps [simp]:
  "seal tag_cipher k iv aad p = Some (p, plain_tag k iv)"
  "unseal tag_cipher k iv aad c t = (if t = plain_tag k iv then Some c else None)"
  by (simp_all add: tag_cipher_def)

interpretation tc: authenticated_cipher tag_cipher
  by unfold_locales (auto simp: tag_cipher_def)

definition tsc_response :: "u8 list" where
  "tsc_response = request_message TscResponse 2 (plain_tag [7] (request_iv tag_cipher 2) @ replicate 16 0) (replicate 0x80 9)"

definition answering_host :: "unit hypervisor" where
  "answering_host msr m h = (msr, store_bytes 0x7000 tsc_response (\<lambda>_. 0), h)"

definition tsc_env :: request_env where
  "tsc_env = \<lparr>re_ghcb = 0x5000, re_key = [7], re_request_page = 0x6000, re_response_page = 0x7000, re_uninitialised = replicate 16 0\<rparr>"

definition first_requester :: "unit requester" where
  "first_requester = \<lparr>rguest = \<lparr>mem = (\<lambda>_. 0), ghcb_msr = 0x5000, host = (), exits = []\<rparr>, msg_seq_num = 1\<rparr>"

lemma tsc_response_parts:
  "length tsc_response = 0xE0" "sequence_number tsc_response = 2" "message_payload tsc_response = replicate 0x80 9"
  "authentication_tag tsc_response = plain_tag [7] (request_iv tag_cipher 2) @ replicate 16 0"
  by (simp_all add: tsc_response_def request_message_parts, simp add: request_message_def)

lemma answering_host_status: "load64 (0x5000 + ghcb_exit_info2) (store_bytes 0x7000 tsc_response (\<lambda>_. 0)) = 0"
proof -
  have "load64 (0x5000 + ghcb_exit_info2) (store_bytes 0x7000 tsc_response (\<lambda>_. 0)) = load64 (0x5000 + ghcb_exit_info2) (\<lambda>_. 0)"
    by (rule load64_outside [of "0xE0" "0x7000"]) (simp_all add: store_bytes_def Let_def tsc_response_parts ghcb_offsets)
  then show ?thesis by (simp add: load64_def load_le_def)
qed

lemma tsc_run:
  "\<exists>s'. sev_typed_guest_request tag_cipher answering_host tsc_env TscRequest TscResponse tsc_request_payload first_requester = (Inr (replicate 0x80 9), s')"
proof -
  have "load_bytes 0x7000 0xE0 (store_bytes 0x7000 tsc_response (\<lambda>_. 0)) = tsc_response"
    using load_store_bytes [of tsc_response "0x7000" "\<lambda>_. 0"] by (simp add: tsc_response_parts)
  then show ?thesis
    by (simp add: sev_typed_guest_request_def encrypt_def decrypt_def Let_def sev_guest_request_def vmgexit_def answering_host_def tsc_env_def
        first_requester_def answering_host_status tsc_response_parts TscRequest_def TscResponse_def tsc_request_payload_def tag_length_def)
qed

theorem guest_request_authentic_witness:
  "\<exists>s' response. sev_typed_guest_request tag_cipher answering_host tsc_env TscRequest TscResponse tsc_request_payload first_requester = (Inr (replicate 0x80 9), s') \<and>
    sequence_number response = 2 \<and> msg_seq_num s' = 3 \<and>
    seal tag_cipher [7] (request_iv tag_cipher 2) (authentication_data response) (replicate 0x80 9) = Some (message_payload response, take 16 (authentication_tag response))"
proof -
  obtain s' where run: "sev_typed_guest_request tag_cipher answering_host tsc_env TscRequest TscResponse tsc_request_payload first_requester = (Inr (replicate 0x80 9), s')"
    using tsc_run by blast
  from guest_request_authentic [OF tc.authenticated_cipher_axioms run]
  have "\<exists>response. sequence_number response = 2 \<and> msg_seq_num s' = 3 \<and>
    seal tag_cipher [7] (request_iv tag_cipher 2) (authentication_data response) (replicate 0x80 9) = Some (message_payload response, take 16 (authentication_tag response))"
    by (auto simp: TscRequest_def TscResponse_def tsc_env_def first_requester_def simp del: tag_cipher_simps)
  with run show ?thesis by blast
qed

text \<open>
  The critical section ends before the response is decrypted, and encryption and decryption
  share one vector.  The first number is that of the message, the second that of the vector.
\<close>

record shared_crypto =
  iv_number :: u64
  inits :: "(u64 \<times> u64) list"

definition fill_iv :: "u64 \<Rightarrow> shared_crypto \<Rightarrow> shared_crypto" where
  "fill_iv seq c = c\<lparr>iv_number := seq\<rparr>"

definition start_cipher :: "u64 \<Rightarrow> shared_crypto \<Rightarrow> shared_crypto" where
  "start_cipher seq c = c\<lparr>inits := inits c @ [(seq, iv_number c)]\<rparr>"

text \<open>One thread decrypts response 2 while another encrypts request 3: the request gets the vector of the response.\<close>

lemma decrypt_outside_lock_race:
  "inits (start_cipher 2 (start_cipher 3 (fill_iv 2 (fill_iv 3 \<lparr>iv_number = 1, inits = []\<rparr>)))) = [(3, 2), (2, 2)]"
  by (simp add: fill_iv_def start_cipher_def)

end
