(* ===== verification/Time_Random.thy ===== *)
theory Time_Random
  imports Byte_Memory
begin

text \<open>
  The clock and the random source.  \<open>crt/time.cc\<close> derives time from the tick counter of the
  processor, with the C functions of \<open>monza-libc\<close> on top; \<open>kvm.cc\<close> finds the frequency of the
  counter; \<open>arch/x86_64/random.cc\<close> fills a buffer from the random instruction of the
  processor and \<open>crt/random.cc\<close> is the C function for it.  The counter and the instruction
  are parameters.
\<close>

section \<open>Clock\<close>

definition NS_IN_S :: u64 where "NS_IN_S = 1000000000"

record timespec =
  tv_sec :: u64
  tv_nsec :: u64

record clock =
  boot_sec :: u64
  boot_tick :: u64
  ticks_at_boot :: u64

definition tick_to_ns :: "u64 \<Rightarrow> u64 \<Rightarrow> u64" where
  "tick_to_ns tsc_freq tick = (tick * NS_IN_S) div tsc_freq"

definition ns_to_tick :: "u64 \<Rightarrow> u64 \<Rightarrow> u64" where
  "ns_to_tick tsc_freq ns = (ns * tsc_freq) div NS_IN_S"

definition get_elapsed_ticks :: "clock \<Rightarrow> u64 \<Rightarrow> u64" where
  "get_elapsed_ticks c current_ticks = current_ticks - ticks_at_boot c"

definition init_timing :: "u64 \<Rightarrow> timespec \<Rightarrow> u64 \<Rightarrow> clock" where
  "init_timing tsc_freq measured_time tick =
    \<lparr>boot_sec = tv_sec measured_time, boot_tick = ns_to_tick tsc_freq (tv_nsec measured_time), ticks_at_boot = tick\<rparr>"

text \<open>Division by a frequency of 0 is undefined.\<close>

definition get_timespec :: "u64 \<Rightarrow> clock \<Rightarrow> u64 \<Rightarrow> bool \<Rightarrow> timespec result" where
  "get_timespec tsc_freq c current_ticks sinceBoot =
    (if tsc_freq = 0 then Inl Undefined
     else
       let elapsed_ticks = get_elapsed_ticks c current_ticks;
           sec = elapsed_ticks div tsc_freq;
           tick = elapsed_ticks mod tsc_freq;
           (sec', tick') =
             (if sinceBoot then (sec, tick)
              else
                let s1 = sec + boot_sec c; t1 = tick + boot_tick c in
                (s1 + t1 div tsc_freq, t1 mod tsc_freq)) in
       Inr \<lparr>tv_sec = sec', tv_nsec = tick_to_ns tsc_freq tick'\<rparr>)"

datatype clock_id = CLOCK_MONOTONIC | CLOCK_PROCESS_CPUTIME_ID | CLOCK_REALTIME | OtherClock

text \<open>None is a failure, -1; a missing result pointer is one.\<close>

definition clock_gettime :: "u64 \<Rightarrow> clock \<Rightarrow> u64 \<Rightarrow> clock_id \<Rightarrow> bool \<Rightarrow> timespec result option" where
  "clock_gettime tsc_freq c current_ticks type ts_null =
    (if ts_null then None
     else case type of
       CLOCK_MONOTONIC \<Rightarrow> Some (get_timespec tsc_freq c current_ticks True)
     | CLOCK_PROCESS_CPUTIME_ID \<Rightarrow> Some (get_timespec tsc_freq c current_ticks True)
     | CLOCK_REALTIME \<Rightarrow> Some (get_timespec tsc_freq c current_ticks False)
     | OtherClock \<Rightarrow> None)"

text \<open>The product is one of 32-bit words.\<close>

definition KVM_X64_CPUID_TIMING :: u32 where "KVM_X64_CPUID_TIMING = 0x40000010"

definition init_kvm :: "u32 \<Rightarrow> (u32 \<Rightarrow> u32) \<Rightarrow> u64 \<Rightarrow> u64" where
  "init_kvm cpuid_hypervisor_maxleaf cpuid tsc_freq =
    (if cpuid_hypervisor_maxleaf \<ge> KVM_X64_CPUID_TIMING then ucast (cpuid KVM_X64_CPUID_TIMING * 1000) else tsc_freq)"

lemma init_kvm_wraps: "init_kvm KVM_X64_CPUID_TIMING (\<lambda>_. 4500000) 2000000000 = 205032704"
  by (simp add: init_kvm_def)

section \<open>The clock is exact\<close>

definition freq_ok :: "u64 \<Rightarrow> bool" where
  "freq_ok f \<longleftrightarrow> 1 < unat f \<and> unat f * 1000000000 < 2 ^ 64"

lemma unat_mult64: "unat (x :: u64) * unat y < 2 ^ 64 \<Longrightarrow> unat (x * y) = unat x * unat y"
  using unat_mult_lem [of x y] by simp

lemma tick_to_ns_unat:
  assumes "freq_ok f" "unat t < unat f"
  shows "unat (tick_to_ns f t) = unat t * 1000000000 div unat f"
proof -
  have "unat t * 1000000000 < unat f * 1000000000" using assms(2) by simp
  then have "unat t * 1000000000 < 2 ^ 64" using assms(1) by (simp add: freq_ok_def)
  then show ?thesis by (simp add: tick_to_ns_def unat_div NS_IN_S_def unat_mult64)
qed

lemma ns_to_tick_unat:
  assumes "freq_ok f" "unat n < 1000000000"
  shows "unat (ns_to_tick f n) = unat n * unat f div 1000000000" "unat (ns_to_tick f n) < unat f"
proof -
  have f: "0 < unat f" "unat f * 1000000000 < 2 ^ 64" using assms(1) by (simp_all add: freq_ok_def)
  have l: "unat n * unat f < 1000000000 * unat f" using assms(2) f(1) by (intro mult_strict_right_mono)
  then have "unat n * unat f < 2 ^ 64" using f(2) unfolding mult.commute [of "1000000000"] by (rule less_trans)
  then show e: "unat (ns_to_tick f n) = unat n * unat f div 1000000000"
    by (simp add: ns_to_tick_def unat_div NS_IN_S_def unat_mult64)
  show "unat (ns_to_tick f n) < unat f" using l unfolding e by (simp add: less_mult_imp_div_less mult.commute)
qed

lemma div_split: "(q * f + r) * n div f = q * n + r * n div f" if "0 < f" for f :: nat
proof -
  have "(q * f + r) * n div f = (r * n + (q * n) * f) div f" by (simp add: algebra_simps)
  also have "\<dots> = q * n + r * n div f" using that by simp
  finally show ?thesis .
qed

lemma timespec_value:
  assumes "freq_ok f" "unat t < unat f"
  shows "unat (tick_to_ns f t) < 1000000000 \<and> q * 1000000000 + unat (tick_to_ns f t) = (q * unat f + unat t) * 1000000000 div unat f"
proof -
  have "unat t * 1000000000 < 1000000000 * unat f" using assms(2) by simp
  then have "unat t * 1000000000 div unat f < 1000000000" by (rule less_mult_imp_div_less)
  moreover have "0 < unat f" using assms(2) by simp
  ultimately show ?thesis by (simp only: tick_to_ns_unat [OF assms] div_split)
qed



section \<open>Random source\<close>

text \<open>
  \<open>rdseed k\<close> is what the k-th execution of the instruction gives, None if it has no value.
  The result is the number of bytes filled, with the memory; the loop may not end.
\<close>

partial_function (option) random_loop :: "(nat \<Rightarrow> u64 option) \<Rightarrow> u64 \<Rightarrow> u64 \<Rightarrow> u64 \<Rightarrow> nat \<Rightarrow> bytes \<Rightarrow> (u64 \<times> bytes) option" where
  "random_loop rdseed data sz buffer_index k m =
    (if buffer_index < sz - 8 then
       (case rdseed k of
          None \<Rightarrow> Some (buffer_index, m)
        | Some v \<Rightarrow> random_loop rdseed data sz (buffer_index + 8) (Suc k) (store_le 8 (data + buffer_index) (unat v) m))
     else
       (case rdseed k of
          None \<Rightarrow> Some (buffer_index, m)
        | Some v \<Rightarrow> Some (sz, store_le (unat (sz - buffer_index)) (data + buffer_index) (unat v) m)))"

definition get_hardware_random_bytes :: "(nat \<Rightarrow> u64 option) \<Rightarrow> u64 \<Rightarrow> u64 \<Rightarrow> bytes \<Rightarrow> (u64 \<times> bytes) option" where
  "get_hardware_random_bytes rdseed data sz m = random_loop rdseed data sz 0 0 m"

definition getentropy :: "(nat \<Rightarrow> u64 option) \<Rightarrow> u64 \<Rightarrow> u64 \<Rightarrow> bytes \<Rightarrow> (int \<times> bytes) option" where
  "getentropy rdseed buffer len m =
    (case get_hardware_random_bytes rdseed buffer len m of
       None \<Rightarrow> None
     | Some (n, m') \<Rightarrow> Some (if n = len then 0 else -1, m'))"

text \<open>Memory with the first n bytes of the buffer filled from the values of the instruction, and the number of bytes it can fill.\<close>

definition filled :: "(nat \<Rightarrow> u64 option) \<Rightarrow> u64 \<Rightarrow> nat \<Rightarrow> bytes \<Rightarrow> bytes" where
  "filled rdseed data n m = (\<lambda>x. let d = unat (x - data) in if d < n then word_of_nat (unat (the (rdseed (d div 8))) div 256 ^ (d mod 8)) else m x)"

lemma filled_step:
  assumes "rdseed j = Some v" "n \<le> 8" "8 * j + n \<le> 2 ^ 64"
  shows "store_le n (data + word_of_nat (8 * j)) (unat v) (filled rdseed data (8 * j) m) = filled rdseed data (8 * j + n) m"
proof
  fix x
  let ?d = "unat (x - data)"
  show "store_le n (data + word_of_nat (8 * j)) (unat v) (filled rdseed data (8 * j) m) x = filled rdseed data (8 * j + n) m x"
  proof (cases "n = 0")
    case False
    then have j: "unat (word_of_nat (8 * j) :: u64) = 8 * j" using assms(3) by (intro unat_of_nat64) simp
    have shift: "x - (data + word_of_nat (8 * j)) = (x - data) - word_of_nat (8 * j)" by simp
    have blk: "unat (x - (data + word_of_nat (8 * j))) < n \<longleftrightarrow> 8 * j \<le> ?d \<and> ?d < 8 * j + n"
      unfolding shift using block_iff [of "word_of_nat (8 * j)" n "x - data"] assms(3) j by simp
    show ?thesis
    proof (cases "8 * j \<le> ?d \<and> ?d < 8 * j + n")
      case True
      then have d: "unat (x - (data + word_of_nat (8 * j))) = ?d - 8 * j"
        unfolding shift using unat_sub64 [of "word_of_nat (8 * j)" "x - data"] unfolding j by blast
      have dd: "?d div 8 = j" using True assms(2) by auto
      then have "?d mod 8 = ?d - 8 * j" using minus_mult_div_eq_mod [of ?d 8] by simp
      note dd = this dd
      show ?thesis unfolding store_le_def filled_def Let_def d using True by (auto simp: dd assms(1))
    next
      case False
      then show ?thesis unfolding store_le_def filled_def Let_def blk using assms(2) by auto
    qed
  qed (simp add: store_le_def)
qed

text \<open>The executions that a buffer needs, and the first of them that has no value.\<close>

definition random_rounds :: "nat \<Rightarrow> nat" where
  "random_rounds n = (n + 7) div 8"

lemma random_loop_ends:
  assumes "8 \<le> unat sz" "8 * j < unat sz" "\<forall>i < j. rdseed i \<noteq> None"
  shows "\<exists>n. random_loop rdseed data sz (word_of_nat (8 * j)) j (filled rdseed data (8 * j) m) = Some (word_of_nat n, filled rdseed data n m) \<and>
    n \<le> unat sz \<and> ((n = unat sz \<and> (\<forall>i < random_rounds n. rdseed i \<noteq> None)) \<or> (\<exists>k. n = 8 * k \<and> n < unat sz \<and> rdseed k = None \<and> (\<forall>i < k. rdseed i \<noteq> None)))"
  using assms(2,3)
proof (induction "unat sz - 8 * j" arbitrary: j rule: less_induct)
  case less
  have lt: "8 * j < 18446744073709551616" using less.prems(1) unat_lt64 [of sz] by linarith
  have j: "unat (word_of_nat (8 * j) :: u64) = 8 * j" using lt by (intro unat_of_nat64) simp
  have s8: "unat (sz - 8) = unat sz - 8" using assms(1) by (subst unat_sub64) simp_all
  have cond: "(word_of_nat (8 * j) :: u64) < sz - 8 \<longleftrightarrow> 8 * j + 8 < unat sz" using assms(1) by (auto simp only: word_less_nat j s8)
  show ?case
  proof (cases "rdseed j")
    case None
    then show ?thesis using less.prems
      by (intro exI [of _ "8 * j"] conjI) (auto simp: random_loop.simps)
  next
    case (Some v)
    show ?thesis
    proof (cases "8 * j + 8 < unat sz")
      case True
      have sum: "(word_of_nat (8 * j) :: u64) + 8 = word_of_nat (8 * Suc j)" by simp
      have all: "\<forall>i < Suc j. rdseed i \<noteq> None" using less.prems(2) Some by (auto simp: less_Suc_eq)
      have "store_le 8 (data + word_of_nat (8 * j)) (unat v) (filled rdseed data (8 * j) m) = filled rdseed data (8 * Suc j) m"
        using filled_step [of rdseed j v 8 data m, OF Some] lt True unat_lt64 [of sz] by (simp add: add.commute)
      then have "random_loop rdseed data sz (word_of_nat (8 * j)) j (filled rdseed data (8 * j) m) =
        random_loop rdseed data sz (word_of_nat (8 * Suc j)) (Suc j) (filled rdseed data (8 * Suc j) m)"
        using cond True Some by (subst random_loop.simps) (simp only: if_True option.case sum)
      moreover have "unat sz - 8 * Suc j < unat sz - 8 * j" "8 * Suc j < unat sz" using True by simp_all
      ultimately show ?thesis using less.hyps [of "Suc j"] all by metis
    next
      case False
      have n: "unat (sz - word_of_nat (8 * j)) = unat sz - 8 * j" using less.prems(1) j by (subst unat_sub64) simp_all
      have "store_le (unat sz - 8 * j) (data + word_of_nat (8 * j)) (unat v) (filled rdseed data (8 * j) m) = filled rdseed data (unat sz) m"
        using filled_step [of rdseed j v "unat sz - 8 * j" data m, OF Some] less.prems(1) False unat_lt64 [of sz] by simp
      then have "random_loop rdseed data sz (word_of_nat (8 * j)) j (filled rdseed data (8 * j) m) = Some (sz, filled rdseed data (unat sz) m)"
        using cond False Some n by (subst random_loop.simps) (simp only: if_False option.case)
      moreover have "random_rounds (unat sz) \<le> Suc j" using False by (simp add: random_rounds_def)
      then have "\<forall>i < random_rounds (unat sz). rdseed i \<noteq> None" using less.prems(2) Some by (metis less_antisym less_le_trans option.distinct(1))
      ultimately show ?thesis by (intro exI [of _ "unat sz"] conjI disjI1) simp_all
    qed
  qed
qed

text \<open>
  C40.  For a buffer of at least 8 bytes the function returns and reports the number of
  bytes it has filled: exactly these bytes hold the values of the instruction, one value
  for 8 bytes, and no other memory changes.  It reports the whole buffer exactly if every
  execution that the buffer needs had a value.
\<close>

theorem random_bytes_exact:
  assumes "8 \<le> unat sz"
  shows "\<exists>n. get_hardware_random_bytes rdseed data sz m = Some (word_of_nat n, filled rdseed data n m) \<and> n \<le> unat sz \<and>
    (n = unat sz \<longleftrightarrow> (\<forall>i < random_rounds (unat sz). rdseed i \<noteq> None))"
proof -
  have m: "filled rdseed data 0 m = m" by (simp add: filled_def fun_eq_iff)
  have "k < random_rounds (unat sz)" if "8 * k < unat sz" for k using that by (simp add: random_rounds_def)
  moreover obtain n where n: "random_loop rdseed data sz 0 0 m = Some (word_of_nat n, filled rdseed data n m)" "n \<le> unat sz"
    and cases: "(n = unat sz \<and> (\<forall>i < random_rounds n. rdseed i \<noteq> None)) \<or> (\<exists>k. n = 8 * k \<and> n < unat sz \<and> rdseed k = None)"
    using random_loop_ends [OF assms, of 0 rdseed data m] assms by (auto simp: m)
  ultimately have "n = unat sz \<longleftrightarrow> (\<forall>i < random_rounds (unat sz). rdseed i \<noteq> None)" by (metis less_irrefl)
  with n show ?thesis unfolding get_hardware_random_bytes_def by blast
qed

theorem random_bytes_exact_witness:
  "\<exists>n. get_hardware_random_bytes (\<lambda>k. if k < 2 then Some 0xABCD else None) 0x1000 24 (\<lambda>_. 0) = Some (word_of_nat n, filled (\<lambda>k. if k < 2 then Some 0xABCD else None) 0x1000 n (\<lambda>_. 0)) \<and> n < 24"
proof -
  have "\<not> (\<forall>i < random_rounds 24. (if i < 2 then Some (0xABCD :: u64) else None) \<noteq> None)"
    by (auto simp: random_rounds_def intro!: exI [of _ 2])
  with random_bytes_exact [of 24 "\<lambda>k. if k < 2 then Some 0xABCD else None" "0x1000" "\<lambda>_. 0"] show ?thesis by fastforce
qed

text \<open>
  A shorter buffer makes the bound of the loop wrap: 8 bytes are written to a buffer of 4,
  the number that the C++ random device asks for, and the call fails; with a value at
  every execution the loop goes on through the address space.
\<close>

lemma short_buffer_overrun:
  "getentropy (\<lambda>k. if k = 0 then Some 0x1122334455667788 else None) 0x1000 4 (\<lambda>_. 0) = Some (-1, store_le 8 0x1000 0x1122334455667788 (\<lambda>_. 0))"
  by (simp add: getentropy_def get_hardware_random_bytes_def random_loop.simps word_gt_0)

end
