(* ===== verification/Core_Start.thy ===== *)
theory Core_Start
  imports Segments Guest_Request Time_Random
begin

unbundle bit_operations_syntax

text \<open>
  The choice of the platform (\<open>hypervisor.cc\<close>), the start-up on Hyper-V and the start of a
  further core, on Hyper-V (\<open>hv.cc\<close>) from the registers of the current core and on
  SEV-SNP (\<open>cores_sev.cc\<close>) from a save area that the host cannot read.  The processor and
  the hypervisor are parameters: identification leaves, model registers and what a
  hypercall answers.
\<close>

section \<open>Choice of the platform\<close>

definition HV_SIGNATURE :: string where "HV_SIGNATURE = ''Microsoft Hv''"
definition KVM_SIGNATURE :: string where "KVM_SIGNATURE = ''KVMKVMKVM'' @ replicate 3 (CHR 0x00)"
definition CPUID_HYPERVISOR_ENABLED_FLAG :: u32 where "CPUID_HYPERVISOR_ENABLED_FLAG = push_bit 31 1"
definition HV_CPUID_MIN_MAXLEAF :: u32 where "HV_CPUID_MIN_MAXLEAF = 0x40000005"

datatype platform_kind = SevSnp | HyperV | Kvm | NoHypervisor | UnknownHypervisor

definition signature_word :: "string \<Rightarrow> nat \<Rightarrow> u32" where
  "signature_word sig i = word_of_nat (le_value (map (\<lambda>c. word_of_nat (of_char c)) (take 4 (drop (4 * i) sig))))"

definition verify_cpuid_signature :: "u32 list \<Rightarrow> string \<Rightarrow> bool" where
  "verify_cpuid_signature cpuid_signature sig \<longleftrightarrow>
    cpuid_signature ! 0 = signature_word sig 0 \<and> cpuid_signature ! 1 = signature_word sig 1 \<and> cpuid_signature ! 2 = signature_word sig 2"

record cpu_identification =
  sev_features_msr :: u64
  leaf1_ecx :: u32
  hypervisor_maxleaf :: u32
  hypervisor_signature :: "u32 list"

definition setup_hypervisor :: "cpu_identification \<Rightarrow> platform_kind" where
  "setup_hypervisor c =
    (if sev_features_msr c \<noteq> 0 then SevSnp
     else if leaf1_ecx c AND CPUID_HYPERVISOR_ENABLED_FLAG = 0 then NoHypervisor
     else if verify_cpuid_signature (hypervisor_signature c) HV_SIGNATURE \<and> hypervisor_maxleaf c \<ge> HV_CPUID_MIN_MAXLEAF then HyperV
     else if verify_cpuid_signature (hypervisor_signature c) KVM_SIGNATURE then Kvm
     else UnknownHypervisor)"

section \<open>Hyper-V\<close>

definition HV_X64_MSR_HYPERCALL_ENABLED_FLAG :: u64 where "HV_X64_MSR_HYPERCALL_ENABLED_FLAG = 1"

text \<open>The value of the hypercall register before; its value after, and the address of the hypercall page.\<close>

definition init_hyperv_target :: "u64 \<Rightarrow> u64 \<Rightarrow> u64 \<times> u64" where
  "init_hyperv_target codepage hypercall_config =
    (if hypercall_config AND HV_X64_MSR_HYPERCALL_ENABLED_FLAG = 0 then
       ((hypercall_config OR push_bit 12 (codepage div HV_PAGE_SIZE)) OR HV_X64_MSR_HYPERCALL_ENABLED_FLAG, codepage)
     else (hypercall_config, drop_bit 12 hypercall_config * HV_PAGE_SIZE))"

definition setup_hypervisor_stage2_hyperv :: "HeapRanges \<Rightarrow> byte_span" where
  "setup_hypervisor_stage2_hyperv h = mk_span (largest_valid_address h + 1) IO_SHARED_MEMORY_SIZE"

text \<open>The privileges that the start-up asks for; a missing one is only logged.\<close>

definition check_features :: "u32 \<Rightarrow> u32 \<Rightarrow> bool \<times> bool" where
  "check_features eax ebx =
    (let merged_result = (ucast eax OR push_bit 32 (ucast ebx) :: u64) in (bit merged_result 49, bit merged_result 53))"

definition ap_init_hyperv :: "u32 \<Rightarrow> u32" where
  "ap_init_hyperv spurious_intr_vector = spurious_intr_vector OR 0x100"

datatype RegisterName =
  HvX64RegisterRsp | HvX64RegisterRip | HvX64RegisterRflags | HvX64RegisterCr0 | HvX64RegisterCr2 | HvX64RegisterCr3 |
  HvX64RegisterCr4 | HvX64RegisterCr5 | HvX64RegisterEs | HvX64RegisterCs | HvX64RegisterSs | HvX64RegisterDs |
  HvX64RegisterFs | HvX64RegisterGs | HvX64RegisterLdtr | HvX64RegisterTr | HvX64RegisterIdtr | HvX64RegisterGdtr |
  HvX64RegisterEfer | HvX64RegisterPat

fun register_code :: "RegisterName \<Rightarrow> u32" where
  "register_code HvX64RegisterRsp = 0x00020004"
| "register_code HvX64RegisterRip = 0x00020010"
| "register_code HvX64RegisterRflags = 0x00020011"
| "register_code HvX64RegisterCr0 = 0x00040000"
| "register_code HvX64RegisterCr2 = 0x00040001"
| "register_code HvX64RegisterCr3 = 0x00040002"
| "register_code HvX64RegisterCr4 = 0x00040003"
| "register_code HvX64RegisterCr5 = 0x00040004"
| "register_code HvX64RegisterEs = 0x00060000"
| "register_code HvX64RegisterCs = 0x00060001"
| "register_code HvX64RegisterSs = 0x00060002"
| "register_code HvX64RegisterDs = 0x00060003"
| "register_code HvX64RegisterFs = 0x00060004"
| "register_code HvX64RegisterGs = 0x00060005"
| "register_code HvX64RegisterLdtr = 0x00060006"
| "register_code HvX64RegisterTr = 0x00060007"
| "register_code HvX64RegisterIdtr = 0x00070000"
| "register_code HvX64RegisterGdtr = 0x00070001"
| "register_code HvX64RegisterEfer = 0x00080001"
| "register_code HvX64RegisterPat = 0x00080004"

text \<open>A register value is 128 bits, low half first, and is read as its kind.\<close>

type_synonym RegisterValue = "u64 \<times> u64"

definition attributes_of_bits :: "u16 \<Rightarrow> SegmentAttributes" where
  "attributes_of_bits w = \<lparr>segment_type = ucast w, user_segment = bit w 4, descriptor_privilege_level = ucast (drop_bit 5 w),
     present = bit w 7, limit_high = ucast (drop_bit 8 w), available = bit w 12, long_mode = bit w 13, protected_mode = bit w 14,
     granularity = bit w 15\<rparr>"

definition value_reg64 :: "RegisterValue \<Rightarrow> u64" where "value_reg64 v = fst v"

definition value_segment :: "RegisterValue \<Rightarrow> SegmentRegister" where
  "value_segment v = \<lparr>sr_base = fst v, sr_limit = ucast (snd v), sr_selector = ucast (drop_bit 32 (snd v)),
     sr_attributes = attributes_of_bits (ucast (drop_bit 48 (snd v)))\<rparr>"

record TableRegister =
  table_limit :: u16
  table_base :: u64

definition value_table :: "RegisterValue \<Rightarrow> TableRegister" where
  "value_table v = \<lparr>table_limit = ucast (drop_bit 48 (fst v)), table_base = snd v\<rparr>"

record InitialVPContext =
  rip :: u64
  rsp :: u64
  rflags :: u64
  cs :: SegmentRegister
  ds :: SegmentRegister
  es :: SegmentRegister
  fs :: SegmentRegister
  gs :: SegmentRegister
  ss :: SegmentRegister
  tr :: SegmentRegister
  ldtr :: SegmentRegister
  idtr :: TableRegister
  gdtr :: TableRegister
  efer :: u64
  cr0 :: u64
  cr3 :: u64
  cr4 :: u64
  msr_cr_pat :: u64

text \<open>The hypercall for registers: a status, and the elements that it has written; the others stay 0.\<close>

type_synonym register_hypercall = "u32 list \<Rightarrow> u16 \<times> RegisterValue list"

definition get_local_registers :: "register_hypercall \<Rightarrow> RegisterName list \<Rightarrow> RegisterValue list" where
  "get_local_registers call names =
    (let (status, written) = call (map register_code names) in
     take (length names) (written @ replicate (length names) (0, 0)))"

definition registers_cloned :: "RegisterName list" where
  "registers_cloned =
    [HvX64RegisterRip, HvX64RegisterRsp, HvX64RegisterRflags, HvX64RegisterCs, HvX64RegisterDs, HvX64RegisterEs,
     HvX64RegisterFs, HvX64RegisterGs, HvX64RegisterSs, HvX64RegisterTr, HvX64RegisterLdtr, HvX64RegisterIdtr,
     HvX64RegisterGdtr, HvX64RegisterEfer, HvX64RegisterCr0, HvX64RegisterCr3, HvX64RegisterCr4, HvX64RegisterPat]"

definition clone_initial_context :: "register_hypercall \<Rightarrow> InitialVPContext" where
  "clone_initial_context call =
    (let v = get_local_registers call registers_cloned in
     \<lparr>rip = value_reg64 (v ! 0), rsp = value_reg64 (v ! 1), rflags = value_reg64 (v ! 2), cs = value_segment (v ! 3),
      ds = value_segment (v ! 4), es = value_segment (v ! 5), fs = value_segment (v ! 6), gs = value_segment (v ! 7),
      ss = value_segment (v ! 8), tr = value_segment (v ! 9), ldtr = value_segment (v ! 10), idtr = value_table (v ! 11),
      gdtr = value_table (v ! 12), efer = value_reg64 (v ! 13), cr0 = value_reg64 (v ! 14), cr3 = value_reg64 (v ! 15),
      cr4 = value_reg64 (v ! 16), msr_cr_pat = value_reg64 (v ! 17)\<rparr>)"

record StartVPInputParams =
  partition_id :: u64
  vp_index :: u32
  target_vtl :: u8
  vp_context :: InitialVPContext

definition HV_PARTITION_ID_SELF :: u64 where "HV_PARTITION_ID_SELF = -1"

text \<open>The addresses that a new core gets.\<close>

record new_core =
  nc_entry :: u64
  nc_stack :: u64
  nc_tls :: u64
  nc_data :: u64

definition mark_busy :: "SegmentRegister \<Rightarrow> SegmentRegister" where
  "mark_busy r = r\<lparr>sr_attributes := (sr_attributes r)\<lparr>segment_type := segment_type (sr_attributes r) OR push_bit 1 1\<rparr>\<rparr>"

text \<open>The input of the start call; its status is only logged.\<close>

definition init_cpu_hyperv :: "register_hypercall \<Rightarrow> GDT \<Rightarrow> u32 \<Rightarrow> new_core \<Rightarrow> StartVPInputParams" where
  "init_cpu_hyperv call g core c =
    (let ctx = clone_initial_context call in
     \<lparr>partition_id = HV_PARTITION_ID_SELF, vp_index = core, target_vtl = 0,
      vp_context = ctx\<lparr>rip := nc_entry c, rsp := nc_stack c, fs := (fs ctx)\<lparr>sr_base := nc_tls c\<rparr>, gs := (gs ctx)\<lparr>sr_base := nc_data c\<rparr>,
        tr := mark_busy (segment_register (48 + 16 * ucast core) (tss g ! unat core))\<rparr>\<rparr>)"

lemma setup_hypervisor_exact:
  "setup_hypervisor c = HyperV \<longleftrightarrow> sev_features_msr c = 0 \<and> bit (leaf1_ecx c) 31 \<and> 0x40000005 \<le> hypervisor_maxleaf c \<and>
    verify_cpuid_signature (hypervisor_signature c) HV_SIGNATURE"
proof -
  have "leaf1_ecx c AND CPUID_HYPERVISOR_ENABLED_FLAG = 0 \<longleftrightarrow> \<not> bit (leaf1_ecx c) 31"
    unfolding CPUID_HYPERVISOR_ENABLED_FLAG_def using and_exp_eq_0_iff_not_bit [of "leaf1_ecx c" 31] by (simp add: push_bit_eq_mult)
  then show ?thesis by (auto simp: setup_hypervisor_def HV_CPUID_MIN_MAXLEAF_def)
qed

text \<open>
  The hypercall page that the register names is the one that is called, if the code page
  is aligned and a disabled register names no page; the page number of a disabled register
  that does is merged with the new one.
\<close>

lemma init_hyperv_target_registered:
  assumes "init_hyperv_target codepage config = (config', target)" "4096 dvd unat codepage" "bit config 0 \<or> drop_bit 12 config = 0"
  shows "bit config' 0 \<and> target = push_bit 12 (drop_bit 12 config')"
proof (cases "bit config 0")
  case True
  then have "config AND 1 \<noteq> 0" using and_exp_eq_0_iff_not_bit [of config 0] by simp
  then show ?thesis using assms(1) True
    by (auto simp: init_hyperv_target_def HV_X64_MSR_HYPERCALL_ENABLED_FLAG_def HV_PAGE_SIZE_def push_bit_eq_mult mult.commute split: if_splits)
next
  case False
  then have z: "config AND 1 = 0" using and_exp_eq_0_iff_not_bit [of config 0] by simp
  have page: "push_bit 12 (codepage div HV_PAGE_SIZE) = codepage"
  proof -
    have "unat (codepage div HV_PAGE_SIZE) * 4096 = unat codepage" using assms(2) by (simp add: HV_PAGE_SIZE_def unat_div)
    moreover have "unat (codepage div HV_PAGE_SIZE * 4096) = unat (codepage div HV_PAGE_SIZE) * 4096"
      using unat_mult64 [of "codepage div HV_PAGE_SIZE" 4096] calculation unat_lt64 [of codepage] by simp
    ultimately show ?thesis by (simp add: push_bit_eq_mult word_eq_nat)
  qed
  have "drop_bit 12 (config OR codepage OR 1) = drop_bit 12 codepage"
  proof (rule bit_word_eqI)
    fix n
    have "drop_bit 12 config = 0" using assms(3) False by simp
    then have "\<not> bit config (12 + n)" by (metis bit_0_eq bit_drop_bit_eq bot_apply bot_bool_def comp_apply)
    then show "bit (drop_bit 12 (config OR codepage OR 1)) n = bit (drop_bit 12 codepage) n" by (simp add: bit_drop_bit_eq bit_or_iff bit_1_iff)
  qed
  moreover have "push_bit 12 (drop_bit 12 codepage) = codepage"
    using page by (simp add: drop_bit_eq_div HV_PAGE_SIZE_def)
  ultimately show ?thesis using assms(1) z page
    by (auto simp: init_hyperv_target_def HV_X64_MSR_HYPERCALL_ENABLED_FLAG_def bit_simps)
qed

text \<open>
  How a core starts on Hyper-V: the start call names the core, and its context has the
  value of the right register of the current core in every field but five.  Those are the
  entry point, the stack, the thread-local storage, the data of the core and a task
  register that is busy and has the address of the core's own task state segment.
\<close>

theorem init_cpu_hyperv_context:
  assumes honest: "\<And>names. call names = (HV_STATUS_SUCCESS, map regs names)"
    and core: "unat core < 256" and low: "unat per_core_tss + 25600 \<le> 2 ^ 31"
    and r: "r = init_cpu_hyperv call (fill_tss per_core_tss initial_gdt) core c"
  shows "vp_index r = core \<and> rip (vp_context r) = nc_entry c \<and> rsp (vp_context r) = nc_stack c \<and>
    sr_base (fs (vp_context r)) = nc_tls c \<and> sr_base (gs (vp_context r)) = nc_data c \<and>
    unat (sr_base (tr (vp_context r))) = unat per_core_tss + 100 * unat core \<and> segment_type (sr_attributes (tr (vp_context r))) = 0b1011 \<and>
    ucast (sr_selector (tr (vp_context r))) = TSS_SEG (ucast core) \<and>
    vp_context r = \<lparr>rip = nc_entry c, rsp = nc_stack c, rflags = fst (regs (register_code HvX64RegisterRflags)),
      cs = value_segment (regs (register_code HvX64RegisterCs)), ds = value_segment (regs (register_code HvX64RegisterDs)),
      es = value_segment (regs (register_code HvX64RegisterEs)), fs = (value_segment (regs (register_code HvX64RegisterFs)))\<lparr>sr_base := nc_tls c\<rparr>,
      gs = (value_segment (regs (register_code HvX64RegisterGs)))\<lparr>sr_base := nc_data c\<rparr>, ss = value_segment (regs (register_code HvX64RegisterSs)),
      tr = tr (vp_context r), ldtr = value_segment (regs (register_code HvX64RegisterLdtr)), idtr = value_table (regs (register_code HvX64RegisterIdtr)),
      gdtr = value_table (regs (register_code HvX64RegisterGdtr)), efer = fst (regs (register_code HvX64RegisterEfer)),
      cr0 = fst (regs (register_code HvX64RegisterCr0)), cr3 = fst (regs (register_code HvX64RegisterCr3)),
      cr4 = fst (regs (register_code HvX64RegisterCr4)), msr_cr_pat = fst (regs (register_code HvX64RegisterPat))\<rparr>"
proof -
  define e where "e = tss (fill_tss per_core_tss initial_gdt) ! unat core"
  define p where "p = per_core_tss + word_of_nat (unat core) * sizeof_TaskStateSegment"
  have w: "(word_of_nat (unat core) :: u64) = ucast core" by (simp add: word_eq_nat unat_up unat_of_nat64 less_trans [OF core])
  have e: "e = fill_tss_entry p TssSegment64Initial" using tss_entry [OF core] by (simp add: e_def p_def)
  have base: "unat (sr_base (segment_register (48 + 16 * ucast core) e)) = unat per_core_tss + 100 * unat core"
    using tss_pointer [OF low core] by (simp add: e tss_register_base p_def)
  have sel: "ucast (sr_selector (segment_register (48 + 16 * ucast core) e)) = TSS_SEG (ucast core)"
    using tss_selector [OF core] by (simp add: e segment_register_def fill_tss_entry_def TssSegment64Initial_def w)
  have ty: "segment_type (sr_attributes (mark_busy (segment_register (48 + 16 * ucast core) e))) = 0b1011"
    by (simp add: e mark_busy_def segment_register_def fill_tss_entry_def TssSegment64Initial_def SegmentType_Tss_def)
  have v: "get_local_registers call registers_cloned = map (\<lambda>n. regs (register_code n)) registers_cloned"
    by (simp add: get_local_registers_def honest comp_def)
  show ?thesis using base sel ty
    unfolding r init_cpu_hyperv_def Let_def clone_initial_context_def v e_def [symmetric]
    by (simp add: registers_cloned_def value_reg64_def) (simp add: mark_busy_def)
qed

theorem init_cpu_hyperv_context_witness:
  "let r = init_cpu_hyperv (\<lambda>names. (HV_STATUS_SUCCESS, map (\<lambda>n. (ucast n, 0)) names)) (fill_tss 0x300000 initial_gdt) 2
      \<lparr>nc_entry = 0x200000, nc_stack = 0x800000, nc_tls = 0x900000, nc_data = 0xA00000\<rparr> in
   vp_index r = 2 \<and> unat (sr_base (tr (vp_context r))) = 0x300000 + 200 \<and> cr3 (vp_context r) = 0x40002"
proof -
  define r where "r = init_cpu_hyperv (\<lambda>names. (HV_STATUS_SUCCESS, map (\<lambda>n. (ucast n, 0)) names)) (fill_tss 0x300000 initial_gdt) 2
      \<lparr>nc_entry = 0x200000, nc_stack = 0x800000, nc_tls = 0x900000, nc_data = 0xA00000\<rparr>"
  have h: "unat (2 :: u32) < 256" "unat (0x300000 :: u64) + 25600 \<le> 2 ^ 31" by simp_all
  note c = init_cpu_hyperv_context [OF refl h r_def]
  have "cr3 (vp_context r) = ucast (register_code HvX64RegisterCr3)" by (subst c [THEN conjunct2, THEN conjunct2, THEN conjunct2, THEN conjunct2, THEN conjunct2, THEN conjunct2, THEN conjunct2, THEN conjunct2]) simp
  then show ?thesis using c unfolding r_def [symmetric] Let_def by simp
qed

section \<open>SEV-SNP\<close>

definition mxcsr :: u32 where "mxcsr = 0x1F80"
definition fp_control :: u16 where "fp_control = 0x037F"

record SevVmsaSettings =
  set_sev_features :: u64
  set_virtual_top_of_memory :: u64
  set_gpat :: u64
  set_es :: SegmentRegister
  set_cs :: SegmentRegister
  set_ss :: SegmentRegister
  set_ds :: SegmentRegister
  set_fs :: SegmentRegister
  set_gs :: SegmentRegister

text \<open>The registers that are read from the current core; descriptor tables as limit and base.\<close>

record cpu_registers =
  reg_xcr0 :: u64
  reg_gdtr :: "u16 \<times> u64"
  reg_idtr :: "u16 \<times> u64"
  reg_efer :: u64
  reg_cr4 :: u64
  reg_cr3 :: u64
  reg_cr0 :: u64
  reg_rflags :: u64

record SevVmsa =
  vmsa_es :: SegmentRegister
  vmsa_cs :: SegmentRegister
  vmsa_ss :: SegmentRegister
  vmsa_ds :: SegmentRegister
  vmsa_fs :: SegmentRegister
  vmsa_gs :: SegmentRegister
  vmsa_gdtr :: SegmentRegister
  vmsa_idtr :: SegmentRegister
  vmsa_tr :: SegmentRegister
  vmsa_efer :: u64
  vmsa_cr4 :: u64
  vmsa_cr3 :: u64
  vmsa_cr0 :: u64
  vmsa_rflags :: u64
  vmsa_rip :: u64
  vmsa_rsp :: u64
  vmsa_gpat :: u64
  vmsa_tsc_scale :: nat
  vmsa_tsc_offset :: nat
  vmsa_sev_features :: u64
  vmsa_virtual_top_of_memory :: u64
  vmsa_xcr0 :: u64
  vmsa_mxcsr :: u32
  vmsa_fp_control :: u16

definition table_selector :: "u16 \<times> u64 \<Rightarrow> SegmentRegister" where
  "table_selector t = \<lparr>sr_base = snd t, sr_limit = ucast (fst t), sr_selector = 0, sr_attributes = attributes_of_bits 0\<rparr>"

text \<open>The save area of a new core; the fields that are not listed are 0.\<close>

definition new_vmsa :: "SevVmsaSettings \<Rightarrow> cpu_registers \<Rightarrow> TscState \<Rightarrow> GDT \<Rightarrow> u32 \<Rightarrow> new_core \<Rightarrow> SevVmsa" where
  "new_vmsa st r ts g core c =
    \<lparr>vmsa_es = set_es st, vmsa_cs = set_cs st, vmsa_ss = set_ss st, vmsa_ds = set_ds st,
     vmsa_fs = (set_fs st)\<lparr>sr_base := nc_tls c\<rparr>, vmsa_gs = (set_gs st)\<lparr>sr_base := nc_data c\<rparr>,
     vmsa_gdtr = table_selector (reg_gdtr r), vmsa_idtr = table_selector (reg_idtr r),
     vmsa_tr = segment_register (48 + 16 * ucast core) (tss g ! unat core),
     vmsa_efer = reg_efer r, vmsa_cr4 = reg_cr4 r, vmsa_cr3 = reg_cr3 r, vmsa_cr0 = reg_cr0 r, vmsa_rflags = reg_rflags r,
     vmsa_rip = nc_entry c, vmsa_rsp = nc_stack c, vmsa_gpat = set_gpat st,
     vmsa_tsc_scale = tsc_scale ts, vmsa_tsc_offset = tsc_offset ts,
     vmsa_sev_features = set_sev_features st, vmsa_virtual_top_of_memory = set_virtual_top_of_memory st,
     vmsa_xcr0 = reg_xcr0 r, vmsa_mxcsr = mxcsr, vmsa_fp_control = fp_control\<rparr>"

text \<open>The bytes of the start call: partition, core, trust level, and a context that only has the marked address of the save area.\<close>

definition start_vp_input :: "u32 \<Rightarrow> u8 \<Rightarrow> u64 \<Rightarrow> u8 list" where
  "start_vp_input core vtl vmsa =
    le_bytes 8 (unat HV_PARTITION_ID_SELF) @ le_bytes 4 (unat core) @ [vtl] @ replicate 3 0 @ le_bytes 8 (unat (vmsa OR 1)) @ replicate 216 0"

definition fill_start_vp_input :: "u64 \<Rightarrow> u32 \<Rightarrow> u8 \<Rightarrow> u64 \<Rightarrow> 'h guest \<Rightarrow> 'h guest" where
  "fill_start_vp_input ghcb core vtl vmsa g = g\<lparr>mem := store_bytes ghcb (start_vp_input core vtl vmsa) (mem g)\<rparr>"

text \<open>One call about a core; any status but success stops the machine.\<close>

definition call_hv_vp :: "'h hypervisor \<Rightarrow> u64 \<Rightarrow> u16 \<Rightarrow> u32 \<Rightarrow> u8 \<Rightarrow> u64 \<Rightarrow> 'h guest \<Rightarrow> (unit result \<times> 'h guest) option" where
  "call_hv_vp H ghcb code core vtl vmsa g =
    Option.bind (call_hyperv_sev H ghcb code ghcb 0 (fill_start_vp_input ghcb core vtl vmsa g)) (\<lambda>(r, g1).
      case r of Inl f \<Rightarrow> Some (Inl f, g1)
      | Inr status \<Rightarrow> Some (if status \<noteq> HV_STATUS_SUCCESS then Inl KAbort else Inr (), g1))"

definition init_cpu_sev ::
  "aead \<Rightarrow> 'h hypervisor \<Rightarrow> request_env \<Rightarrow> (u64 \<Rightarrow> u64 \<Rightarrow> bool) \<Rightarrow> SevVmsaSettings \<Rightarrow> cpu_registers \<Rightarrow> GDT \<Rightarrow> u8 \<Rightarrow> u64 \<Rightarrow> u32 \<Rightarrow> new_core \<Rightarrow>
    'h requester \<Rightarrow> (SevVmsa result \<times> 'h requester) option" where
  "init_cpu_sev A H R rmpadjust st regs g vtl vmsa_address core c s =
    (let (r, s1) = get_current_tsc_state_sev A H R s in
     case r of Inl f \<Rightarrow> Some (Inl f, s1)
     | Inr ts \<Rightarrow>
       let v = new_vmsa st regs ts g core c in
       if \<not> rmpadjust vmsa_address (rmp_permissions 1 0 True) then Some (Inl KAbort, s1)
       else
         Option.bind (if vtl \<noteq> 0 then call_hv_vp H (re_ghcb R) HvCallEnableVpVtl core vtl vmsa_address (rguest s1) else Some (Inr (), rguest s1)) (\<lambda>(r1, g1).
           case r1 of Inl f \<Rightarrow> Some (Inl f, s1\<lparr>rguest := g1\<rparr>)
           | Inr _ \<Rightarrow>
             Option.bind (call_hv_vp H (re_ghcb R) HvCallStartVirtualProcessor core vtl vmsa_address g1) (\<lambda>(r2, g2).
               Some (case r2 of Inl f \<Rightarrow> Inl f | Inr _ \<Rightarrow> Inr v, s1\<lparr>rguest := g2\<rparr>))))"

lemma hypercall_first_exit:
  assumes run: "hypercall_loop H ghcb code k g = Some y"
  shows "\<exists>rest. exits (snd y) = exits g @ (ghcb_msr g, store64 (ghcb + ghcb_hypercall) (hypercall_input code False 0 k) (mem g)) # rest"
proof (rule hypercall_loop.raw_induct [OF _ run, where P = "\<lambda>H ghcb code k g y. \<exists>rest. exits (snd y) =
    exits g @ (ghcb_msr g, store64 (ghcb + ghcb_hypercall) (hypercall_input code False 0 k) (mem g)) # rest"])
  fix rec :: "'a hypervisor \<Rightarrow> u64 \<Rightarrow> u16 \<Rightarrow> nat \<Rightarrow> 'a guest \<Rightarrow> (u16 \<times> 'a guest) option" and H ghcb code k g y
  assume 1: "\<And>H ghcb code k g y. rec H ghcb code k g = Some y \<Longrightarrow>
      \<exists>rest. exits (snd y) = exits g @ (ghcb_msr g, store64 (ghcb + ghcb_hypercall) (hypercall_input code False 0 k) (mem g)) # rest"
    and 2: "(let g1 = vmgexit H (g\<lparr>mem := store64 (ghcb + ghcb_hypercall) (hypercall_input code False 0 k) (mem g)\<rparr>);
         hypercall_output = load64 (ghcb + ghcb_hypercall) (mem g1) in
     if hypercall_status hypercall_output \<noteq> HV_STATUS_TIMEOUT then Some (hypercall_status hypercall_output, g1)
     else rec H ghcb code (elements_processed hypercall_output) g1) = Some y"
  define g1 where "g1 = vmgexit H (g\<lparr>mem := store64 (ghcb + ghcb_hypercall) (hypercall_input code False 0 k) (mem g)\<rparr>)"
  have e: "exits g1 = exits g @ [(ghcb_msr g, store64 (ghcb + ghcb_hypercall) (hypercall_input code False 0 k) (mem g))]"
    by (simp add: g1_def vmgexit_def split: prod.split)
  from 2 consider "snd y = g1" | k' where "rec H ghcb code k' g1 = Some y" by (auto simp: Let_def g1_def [symmetric] split: if_splits)
  then show "\<exists>rest. exits (snd y) = exits g @ (ghcb_msr g, store64 (ghcb + ghcb_hypercall) (hypercall_input code False 0 k) (mem g)) # rest"
    by cases (use e 1 in \<open>fastforce\<close>)+
qed

lemma length_start_vp_input [simp]: "length (start_vp_input core vtl vmsa) = 240"
  by (simp add: start_vp_input_def)

text \<open>The block of the call lies before the fields that the call itself writes.\<close>

lemma start_input_kept:
  assumes "\<And>x. unat (x - ghcb) < 240 \<Longrightarrow> m' x = store_bytes ghcb (start_vp_input core vtl vmsa) m x"
  shows "load_bytes ghcb 240 m' = start_vp_input core vtl vmsa"
proof -
  have "load_bytes ghcb 240 m' = load_bytes ghcb 240 (store_bytes ghcb (start_vp_input core vtl vmsa) m)"
    unfolding load_bytes_def by (rule map_cong) (simp_all add: assms unat_of_nat64)
  then show ?thesis using load_store_bytes [of "start_vp_input core vtl vmsa" ghcb m] by simp
qed

lemma offset_far: "unat (x - ghcb) < 240 \<Longrightarrow> 240 \<le> k \<Longrightarrow> k \<le> 4096 \<Longrightarrow> 8 \<le> unat (x - (ghcb + word_of_nat k :: u64))"
proof -
  assume h: "unat (x - ghcb) < 240" "240 \<le> k" "k \<le> 4096"
  have e: "x - (ghcb + word_of_nat k) = (x - ghcb) - word_of_nat k" by simp
  have "unat ((x - ghcb) - word_of_nat k) = unat (x - ghcb) + 18446744073709551616 - k"
    using unat_diff_below [of "x - ghcb" "word_of_nat k"] h by (simp add: unat_of_nat64)
  then show ?thesis unfolding e using h by linarith
qed

lemma call_hv_vp_exit:
  assumes "call_hv_vp H ghcb code core vtl vmsa g = Some (Inr u, g')"
  shows "\<exists>m rest. exits g' = exits g @ (ghcb_msr g, m) # rest \<and> load_bytes ghcb 240 m = start_vp_input core vtl vmsa \<and>
    load64 (ghcb + ghcb_hypercall) m = hypercall_input code False 0 0"
proof -
  define m1 where "m1 = store64 (ghcb + ghcb_output_params_gpa) 0 (store_le 4 (ghcb + ghcb_format) SevFormat_HYPERCALL
      (store_bytes ghcb (start_vp_input core vtl vmsa) (mem g)))"
  obtain y where run: "hypercall_loop H ghcb code 0 (g\<lparr>mem := m1\<rparr>) = Some y" and y: "snd y = g'"
    using assms by (auto simp: call_hv_vp_def call_hyperv_sev_def fill_start_vp_input_def Let_def m1_def [symmetric] Option.bind_eq_Some_conv
        split: if_splits prod.splits)
  obtain rest where e: "exits g' = exits g @ (ghcb_msr g, store64 (ghcb + ghcb_hypercall) (hypercall_input code False 0 0) m1) # rest"
    using hypercall_first_exit [OF run] y by auto
  have "load_bytes ghcb 240 (store64 (ghcb + ghcb_hypercall) (hypercall_input code False 0 0) m1) = start_vp_input core vtl vmsa"
  proof (rule start_input_kept [where m = "mem g"])
    fix x assume x: "unat (x - ghcb) < 240"
    have "8 \<le> unat (x - (ghcb + ghcb_hypercall))" "8 \<le> unat (x - (ghcb + ghcb_output_params_gpa))" "4 \<le> unat (x - (ghcb + ghcb_format))"
      using offset_far [OF x, of 4080] offset_far [OF x, of 4072] offset_far [OF x, of 4092]
      by (simp_all add: ghcb_hypercall_def ghcb_output_params_gpa_def ghcb_format_def)
    then show "store64 (ghcb + ghcb_hypercall) (hypercall_input code False 0 0) m1 x = store_bytes ghcb (start_vp_input core vtl vmsa) (mem g) x"
      by (simp add: m1_def store64_out) (simp add: store_le_def)
  qed
  with e show ?thesis by (intro exI conjI) (assumption | simp)+
qed

lemma unit_result: "(\<forall>f. r \<noteq> Inl f) \<longleftrightarrow> r = Inr ()" for r :: "unit result"
  by (cases r) auto

text \<open>
  C36.  How a core starts on SEV-SNP.  If the start succeeds, the counter state came from
  the security processor, the page of the save area was made one with the permission that
  the call asks for, and the last call to the host asks to start this very core with this
  save area, after a call that enables its trust level if that is not 0.  The save area has
  the entry point, the stack, the thread-local storage and the data of the new core, the
  counter state and the core's own task segment.
\<close>

theorem init_cpu_sev_starts:
  assumes run: "init_cpu_sev A H R rmpadjust st regs (fill_tss per_core_tss initial_gdt) vtl vmsa_address core c s = Some (Inr v, s')"
    and core: "unat core < 256" and low: "unat per_core_tss + 25600 \<le> 2 ^ 31"
  shows "\<exists>ts s1 pre msr m rest. get_current_tsc_state_sev A H R s = (Inr ts, s1) \<and> rmpadjust vmsa_address 0x10001 \<and>
    exits (rguest s') = exits (rguest s1) @ pre @ (msr, m) # rest \<and> load_bytes (re_ghcb R) 240 m = start_vp_input core vtl vmsa_address \<and>
    load64 (re_ghcb R + ghcb_hypercall) m = hypercall_input HvCallStartVirtualProcessor False 0 0 \<and>
    (if vtl = 0 then pre = []
     else \<exists>msr0 m0 rest0. pre = (msr0, m0) # rest0 \<and> load_bytes (re_ghcb R) 240 m0 = start_vp_input core vtl vmsa_address \<and>
       load64 (re_ghcb R + ghcb_hypercall) m0 = hypercall_input HvCallEnableVpVtl False 0 0) \<and>
    vmsa_rip v = nc_entry c \<and> vmsa_rsp v = nc_stack c \<and> sr_base (vmsa_fs v) = nc_tls c \<and> sr_base (vmsa_gs v) = nc_data c \<and>
    unat (sr_base (vmsa_tr v)) = unat per_core_tss + 100 * unat core \<and>
    vmsa_tsc_scale v = tsc_scale ts \<and> vmsa_tsc_offset v = tsc_offset ts"
proof -
  let ?g = "fill_tss per_core_tss initial_gdt" let ?G = "re_ghcb R"
  obtain ts s1 where ts: "get_current_tsc_state_sev A H R s = (Inr ts, s1)"
    using run by (cases "get_current_tsc_state_sev A H R s") (auto simp: init_cpu_sev_def split: sum.splits)
  have perm: "rmp_permissions 1 0 True = 0x10001" by (simp add: rmp_permissions_def Let_def)
  have rmp: "rmpadjust vmsa_address 0x10001" using run by (auto simp: init_cpu_sev_def ts Let_def perm split: if_splits)
  obtain g1 g2 where 1: "(if vtl \<noteq> 0 then call_hv_vp H ?G HvCallEnableVpVtl core vtl vmsa_address (rguest s1) else Some (Inr (), rguest s1)) = Some (Inr (), g1)"
    and 2: "call_hv_vp H ?G HvCallStartVirtualProcessor core vtl vmsa_address g1 = Some (Inr (), g2)"
    and out: "v = new_vmsa st regs ts ?g core c" "rguest s' = g2"
    using run rmp unfolding init_cpu_sev_def ts Let_def perm
    by (auto simp: Option.bind_eq_Some_conv unit_result split: sum.splits prod.splits)
  obtain m rest where m: "exits g2 = exits g1 @ (ghcb_msr g1, m) # rest" "load_bytes ?G 240 m = start_vp_input core vtl vmsa_address"
    "load64 (?G + ghcb_hypercall) m = hypercall_input HvCallStartVirtualProcessor False 0 0" using call_hv_vp_exit [OF 2] by blast
  obtain pre where pre: "exits g1 = exits (rguest s1) @ pre" "if vtl = 0 then pre = []
     else \<exists>msr0 m0 rest0. pre = (msr0, m0) # rest0 \<and> load_bytes ?G 240 m0 = start_vp_input core vtl vmsa_address \<and>
       load64 (?G + ghcb_hypercall) m0 = hypercall_input HvCallEnableVpVtl False 0 0"
  proof (cases "vtl = 0")
    case False
    then show ?thesis using 1 call_hv_vp_exit [of H ?G HvCallEnableVpVtl core vtl vmsa_address "rguest s1" "()" g1] that by fastforce
  qed (use 1 that [of "[]"] in simp)
  have tr: "unat (sr_base (vmsa_tr v)) = unat per_core_tss + 100 * unat core"
    using tss_pointer [OF low core] by (simp add: out(1) new_vmsa_def tss_entry [OF core] tss_register_base)
  have fields: "vmsa_rip v = nc_entry c" "vmsa_rsp v = nc_stack c" "sr_base (vmsa_fs v) = nc_tls c" "sr_base (vmsa_gs v) = nc_data c"
    "vmsa_tsc_scale v = tsc_scale ts" "vmsa_tsc_offset v = tsc_offset ts" by (simp_all add: out(1) new_vmsa_def)
  have trace: "exits (rguest s') = exits (rguest s1) @ pre @ (ghcb_msr g1, m) # rest" using m(1) pre(1) out(2) by simp
  show ?thesis
    by (rule exI [of _ ts], rule exI [of _ s1], rule exI [of _ pre], rule exI [of _ "ghcb_msr g1"], rule exI [of _ m], rule exI [of _ rest])
       (intro conjI ts rmp trace m(2,3) pre(2) fields tr)
qed

definition plain_settings :: SevVmsaSettings where
  "plain_settings = \<lparr>set_sev_features = 1, set_virtual_top_of_memory = 0, set_gpat = 0, set_es = table_selector (0, 0), set_cs = table_selector (0, 0),
     set_ss = table_selector (0, 0), set_ds = table_selector (0, 0), set_fs = table_selector (0, 0), set_gs = table_selector (0, 0)\<rparr>"

definition plain_registers :: cpu_registers where
  "plain_registers = \<lparr>reg_xcr0 = 7, reg_gdtr = (0, 0), reg_idtr = (0, 0), reg_efer = 0, reg_cr4 = 0, reg_cr3 = 0, reg_cr0 = 0, reg_rflags = 2\<rparr>"

lemma answering_call: "hypercall_loop answering_host 0x5000 code k g = Some (HV_STATUS_SUCCESS, vmgexit answering_host (g\<lparr>mem := store64 (0x5000 + ghcb_hypercall) (hypercall_input code False 0 k) (mem g)\<rparr>))"
proof -
  have "load64 (0x5000 + ghcb_hypercall) (store_bytes 0x7000 tsc_response (\<lambda>_. 0)) = load64 (0x5000 + ghcb_hypercall) (\<lambda>_. 0)"
    by (rule load64_outside [of "0xE0" "0x7000"]) (simp_all add: store_bytes_def Let_def tsc_response_parts ghcb_hypercall_def)
  then have "load64 (0x5000 + ghcb_hypercall) (store_bytes 0x7000 tsc_response (\<lambda>_. 0)) = 0" by (simp add: load64_def load_le_def)
  then show ?thesis by (subst hypercall_loop.simps) (simp add: Let_def vmgexit_def answering_host_def hypercall_status_def HV_STATUS_SUCCESS_def HV_STATUS_TIMEOUT_def)
qed

theorem init_cpu_sev_starts_witness:
  "\<exists>v s'. init_cpu_sev tag_cipher answering_host tsc_env (\<lambda>_ _. True) plain_settings plain_registers (fill_tss 0x300000 initial_gdt) 0 0xB000 3
      \<lparr>nc_entry = 0x200000, nc_stack = 0x800000, nc_tls = 0x900000, nc_data = 0xA00000\<rparr> first_requester = Some (Inr v, s') \<and>
    unat (sr_base (vmsa_tr v)) = 0x300000 + 300 \<and> vmsa_rsp v = 0x800000"
proof -
  let ?c = "\<lparr>nc_entry = 0x200000, nc_stack = 0x800000, nc_tls = 0x900000, nc_data = 0xA00000\<rparr>"
  obtain s1 where s1: "sev_typed_guest_request tag_cipher answering_host tsc_env TscRequest TscResponse tsc_request_payload first_requester = (Inr (replicate 0x80 9), s1)"
    using tsc_run by blast
  have G: "re_ghcb tsc_env = 0x5000" by (simp add: tsc_env_def)
  have "\<exists>v s'. init_cpu_sev tag_cipher answering_host tsc_env (\<lambda>_ _. True) plain_settings plain_registers (fill_tss 0x300000 initial_gdt) 0 0xB000 3 ?c first_requester = Some (Inr v, s')"
    by (simp add: init_cpu_sev_def get_current_tsc_state_sev_def s1 G call_hv_vp_def call_hyperv_sev_def Let_def answering_call)
  then obtain v s' where run: "init_cpu_sev tag_cipher answering_host tsc_env (\<lambda>_ _. True) plain_settings plain_registers (fill_tss 0x300000 initial_gdt) 0 0xB000 3 ?c first_requester = Some (Inr v, s')"
    by blast
  have "unat (3 :: u32) < 256" "unat (0x300000 :: u64) + 25600 \<le> 2 ^ 31" by simp_all
  from init_cpu_sev_starts [OF run this] have "unat (sr_base (vmsa_tr v)) = 0x300000 + 300 \<and> vmsa_rsp v = 0x800000" by auto
  with run show ?thesis by blast
qed

end
