(* ===== verification/Compartment_Memory.thy ===== *)
theory Compartment_Memory
  imports Ownership
begin

unbundle bit_operations_syntax

text \<open>
  The memory of compartments: \<open>MonzaRange\<close> of \<open>include/public/snmalloc/snmalloc.h\<close>, which
  couples the owner map with the compartment's page table, and the page-fault
  handler of \<open>arch/x86_64/trap.cc\<close>, which maps heap pages on demand.  The parent range
  and the front-end pagemap are snmalloc's and are fields of the record \<open>platform\<close>.
  The lemmas establish the isolation invariant: a page that a compartment's table lets
  user mode write is owned by that compartment.
\<close>

record 'p platform =
  pl_env :: env
  pl_slot :: "u64 \<Rightarrow> nat option"
  pl_slot_address :: "nat \<Rightarrow> u64"
  pl_alloc :: "u64 list \<Rightarrow> u64"
  parent_alloc_range :: "u64 \<Rightarrow> 'p \<Rightarrow> u64 \<times> 'p"
  parent_dealloc_range :: "u64 \<Rightarrow> u64 \<Rightarrow> 'p \<Rightarrow> 'p"
  reset_metaentry :: "u64 \<Rightarrow> u64 \<Rightarrow> 'p \<Rightarrow> 'p"

record 'p memory =
  owners :: ownership
  tables :: pt_mem
  parent :: 'p

record MonzaRange =
  range_head :: nat
  range_owner :: CompartmentOwner
  compartment_pagetable_root :: u64

definition alloc_range :: "'p platform \<Rightarrow> MonzaRange \<Rightarrow> u64 \<Rightarrow> 'p memory \<Rightarrow> (u64 \<times> 'p memory) result option" where
  "alloc_range P r sz m =
    (let (rng, q) = parent_alloc_range P sz (parent m);
         m1 = m\<lparr>parent := q\<rparr> in
     if rng \<noteq> 0 \<and> null_owner \<noteq> range_owner r then
       run_bind (add_monza_owner (pl_env P) (pl_slot P) rng sz (range_owner r) (Some (range_head r)) (owners m1)) (\<lambda>s.
       run_bind (add_to_compartment_pagetable (pl_env P) (pl_alloc P) (compartment_pagetable_root r) rng sz
           PT_COMPARTMENT_WRITE (tables m1)) (\<lambda>t.
       Some (Inr (rng, m1\<lparr>owners := s, tables := t\<rparr>))))
     else Some (Inr (rng, m1)))"

definition dealloc_range :: "'p platform \<Rightarrow> MonzaRange \<Rightarrow> u64 \<Rightarrow> u64 \<Rightarrow> 'p memory \<Rightarrow> 'p memory result option" where
  "dealloc_range P r base sz m =
    run_bind
      (if null_owner \<noteq> range_owner r then
         run_bind (remove_from_compartment_pagetable (pl_env P) (compartment_pagetable_root r) base sz (tables m)) (\<lambda>t.
         run_bind (remove_monza_owner (pl_env P) (pl_slot P) base sz (range_owner r) (owners m)) (\<lambda>s.
         Some (Inr (m\<lparr>owners := s, tables := t\<rparr>))))
       else Some (Inr m))
      (\<lambda>m1. Some (Inr (m1\<lparr>parent := parent_dealloc_range P base sz (parent m1)\<rparr>)))"

definition dealloc_all :: "'p platform \<Rightarrow> MonzaRange \<Rightarrow> 'p memory \<Rightarrow> 'p memory result option" where
  "dealloc_all P r m =
    list_forall owners owners_update
      (\<lambda>le m.
        let chunk_address = pl_slot_address P le;
            m1 = m\<lparr>parent := reset_metaentry P chunk_address (MIN_OWNERSHIP_SIZE (pl_env P)) (parent m)\<rparr> in
        run_bind (dealloc_range P r chunk_address (MIN_OWNERSHIP_SIZE (pl_env P)) m1)
          (\<lambda>m2. Some (Inr (m2\<lparr>owners := clear_owner le (owners m2)\<rparr>))))
      (range_head r) m"

definition set_owner :: "CompartmentOwner \<Rightarrow> u64 \<Rightarrow> MonzaRange \<Rightarrow> MonzaRange result" where
  "set_owner new_owner root r =
    (if root = 0 \<and> null_owner \<noteq> range_owner r then Inl KAbort
     else Inr (r\<lparr>range_owner := new_owner, compartment_pagetable_root := root\<rparr>))"

definition destroy_range :: "'p platform \<Rightarrow> MonzaRange \<Rightarrow> 'p memory \<Rightarrow> 'p memory result option" where
  "destroy_range P r m =
    run_bind (dealloc_all P r m) (\<lambda>m1.
      if null_owner \<noteq> range_owner r then
        Some (Inr (m1\<lparr>tables := deallocate_compartment_pagetable (pl_env P) (compartment_pagetable_root r) (tables m1)\<rparr>))
      else Some (Inr m1))"

text \<open>The stack hooks of the paging variant (\<open>arch_compartment.h\<close>): stacks are mapped in advance.\<close>

definition is_active_stack :: "u64 \<Rightarrow> bool" where
  "is_active_stack address = False"

definition update_active_stack_usage :: "u64 \<Rightarrow> 'p memory \<Rightarrow> 'p memory" where
  "update_active_stack_usage address m = m"

definition page_fault_handler ::
  "'p platform \<Rightarrow> HeapRanges \<Rightarrow> CompartmentOwner \<Rightarrow> u64 \<Rightarrow> u64 \<Rightarrow> u64 \<Rightarrow> 'p memory \<Rightarrow> 'p memory result option" where
  "page_fault_handler P heap compartment address pagetable_root err m =
    (let is_kernel = (err AND 0x4) = 0;
         is_write = (err AND 0x2) \<noteq> 0;
         map_page = (\<lambda>perm.
           run_bind (add_to_compartment_pagetable (pl_env P) (pl_alloc P) pagetable_root
               (align_down (pl_env P) address (PAGE_SIZE (pl_env P))) (PAGE_SIZE (pl_env P)) perm (tables m))
             (\<lambda>t. Some (Inr (m\<lparr>tables := t\<rparr>)))) in
     if is_kernel then Some (Inl KAbort)
     else if \<not> is_heap_address heap address then Some (Inl KAbort)
     else
       let owner = get_monza_owner (pl_slot P) address (owners m) in
       if owner = compartment then
         (if is_active_stack address then Some (Inr (update_active_stack_usage address m))
          else map_page PT_COMPARTMENT_WRITE)
       else if \<not> is_write \<and> owner = null_owner then map_page PT_COMPARTMENT_READ
       else Some (Inl KAbort))"

text \<open>
  The compartments of the system.  A constructor makes a page table, a fresh list head
  and an owner that no live compartment has (the address of the new object).
\<close>

record 'p system =
  sys_mem :: "'p memory"
  sys_ranges :: "MonzaRange list"

definition reset_head :: "nat \<Rightarrow> ownership \<Rightarrow> ownership" where
  "reset_head h s = s\<lparr>link_next := (link_next s)(Head h := None), link_prev := (link_prev s)(Head h := None)\<rparr>"

inductive sys_step :: "'p platform \<Rightarrow> kernel_layout \<Rightarrow> HeapRanges \<Rightarrow> 'p system \<Rightarrow> 'p system \<Rightarrow> bool"
  for P L heap where
  create: "create_compartment_pagetable (pl_env P) (pl_alloc P) L (tables m) = Some (root, t) \<Longrightarrow>
    pt_room (length (predefined_map (pl_env P) L @ interrupt_stack_map L) + 1) (tables m) \<Longrightarrow>
    owner \<noteq> null_owner \<Longrightarrow> owner \<notin> range_owner ` set rs \<Longrightarrow> h \<notin> range_head ` set rs \<Longrightarrow>
    set_owner owner root \<lparr>range_head = h, range_owner = null_owner, compartment_pagetable_root = 0\<rparr> = Inr r \<Longrightarrow>
    sys_step P L heap \<lparr>sys_mem = m, sys_ranges = rs\<rparr>
      \<lparr>sys_mem = m\<lparr>tables := t, owners := reset_head h (owners m)\<rparr>, sys_ranges = r # rs\<rparr>"
| alloc: "r \<in> set rs \<Longrightarrow> pt_room 1 (tables m) \<Longrightarrow> unat (MIN_OWNERSHIP_SIZE (pl_env P)) dvd unat sz \<Longrightarrow>
    alloc_range P r sz m = Some (Inr (a, m')) \<Longrightarrow>
    sys_step P L heap \<lparr>sys_mem = m, sys_ranges = rs\<rparr> \<lparr>sys_mem = m', sys_ranges = rs\<rparr>"
| dealloc: "r \<in> set rs \<Longrightarrow> granule_request (pl_env P) base sz \<Longrightarrow>
    dealloc_range P r base sz m = Some (Inr m') \<Longrightarrow>
    sys_step P L heap \<lparr>sys_mem = m, sys_ranges = rs\<rparr> \<lparr>sys_mem = m', sys_ranges = rs\<rparr>"
| fault: "r \<in> set rs \<Longrightarrow> pt_room 1 (tables m) \<Longrightarrow>
    page_fault_handler P heap (range_owner r) address (compartment_pagetable_root r) err m = Some (Inr m') \<Longrightarrow>
    sys_step P L heap \<lparr>sys_mem = m, sys_ranges = rs\<rparr> \<lparr>sys_mem = m', sys_ranges = rs\<rparr>"
| destroy: "r \<in> set rs \<Longrightarrow> destroy_range P r m = Some (Inr m') \<Longrightarrow>
    sys_step P L heap \<lparr>sys_mem = m, sys_ranges = rs\<rparr> \<lparr>sys_mem = m', sys_ranges = removeAll r rs\<rparr>"

text \<open>Several tables in one store: each a tree, no node shared.\<close>

definition tables_ok :: "env \<Rightarrow> pt_mem \<Rightarrow> u64 list \<Rightarrow> bool" where
  "tables_ok E t roots \<longleftrightarrow> distinct roots \<and> (\<forall>a \<in> set roots. pt_ok 3 E t a) \<and>
    (\<forall>a \<in> set roots. \<forall>b \<in> set roots. a \<noteq> b \<longrightarrow> nset 3 E t a \<inter> nset 3 E t b = {})"

lemma tables_ok_ext:
  assumes ok: "tables_ok E t roots" and a: "a \<in> set roots" and e: "pt_ext 3 E a t t'"
  shows "tables_ok E t' roots" and "b \<in> set roots \<Longrightarrow> b \<noteq> a \<Longrightarrow> walk 3 E t' b x = walk 3 E t b x"
proof -
  have d: "pt_ok 3 E t b" "nset 3 E t a \<inter> nset 3 E t b = {}" if "b \<in> set roots" "b \<noteq> a" for b
    using ok a that by (auto simp: tables_ok_def)
  note o = other_table [OF e d]
  have "pt_ok 3 E t' b" if "b \<in> set roots" for b
    using that o(1) pt_ext_ok [OF e] by (cases "b = a") auto
  moreover have "nset 3 E t' b \<inter> nset 3 E t' c = {}" if "b \<in> set roots" "c \<in> set roots" "b \<noteq> c" for b c
    using that o(3,4) ok by (cases "b = a"; cases "c = a") (auto simp: tables_ok_def)
  ultimately show "tables_ok E t' roots" using ok by (simp add: tables_ok_def)
  show "b \<in> set roots \<Longrightarrow> b \<noteq> a \<Longrightarrow> walk 3 E t' b x = walk 3 E t b x" by (rule o(2))
qed

lemma tables_ok_perm: "tables_ok E t xs \<Longrightarrow> set xs = set ys \<Longrightarrow> distinct ys \<Longrightarrow> tables_ok E t ys"
  unfolding tables_ok_def by simp

lemma tables_ok_disjoint:
  "tables_ok E t roots \<Longrightarrow> a \<in> set roots \<Longrightarrow> b \<in> set roots \<Longrightarrow> a \<noteq> b \<Longrightarrow> nset 3 E t a \<inter> nset 3 E t b = {}"
  unfolding tables_ok_def by blast

lemma tables_ok_new:
  assumes t: "tables_ok E t roots" and ok: "pt_ok 3 E t' root" and nodes: "set (pt_nodes t) \<subseteq> set (pt_nodes t')"
    and new: "nset 3 E t' root \<inter> set (pt_nodes t) = {}" and keep: "\<forall>n \<in> set (pt_nodes t). pt_entry t' n = pt_entry t n"
  shows "tables_ok E t' (root # roots)" and "a \<in> set roots \<Longrightarrow> walk 3 E t' a x = walk 3 E t a x"
proof -
  have old: "nset 3 E t a \<subseteq> set (pt_nodes t)" if "a \<in> set roots" for a
    using t that by (intro nset_nodes) (simp add: tables_ok_def)
  have k: "\<forall>n \<in> nset 3 E t a. pt_entry t' n = pt_entry t n" if "a \<in> set roots" for a
    using keep old [OF that] by blast
  note same = pt_frame(1,2) [OF k]
  show "a \<in> set roots \<Longrightarrow> walk 3 E t' a x = walk 3 E t a x" by (rule same(2))
  have okt: "pt_ok 3 E t' a" if "a \<in> set roots" for a
    using t that nodes by (intro pt_frame(3) [OF k [OF that]]) (simp_all add: tables_ok_def)
  have dis: "nset 3 E t' a \<inter> nset 3 E t' root = {}" if "a \<in> set roots" for a
    using new old [OF that] same(1) [OF that] by blast
  have "nset 3 E t' a \<inter> nset 3 E t' b = {}" if "a \<in> set (root # roots)" "b \<in> set (root # roots)" "a \<noteq> b" for a b
  proof (cases "a = root \<or> b = root")
    case True
    then show ?thesis using that dis by (metis inf_commute set_ConsD)
  next
    case False
    then have ab: "a \<in> set roots" "b \<in> set roots" using that by simp_all
    show ?thesis using tables_ok_disjoint [OF t ab that(3)] same(1) [OF ab(1)] same(1) [OF ab(2)] by simp
  qed
  moreover have "root \<notin> set roots"
    using new old root_in_nset [of root 3 E t] root_in_nset [of root 3 E t'] by blast
  ultimately show "tables_ok E t' (root # roots)" using t okt ok by (simp add: tables_ok_def)
qed

lemma pt_ok_nodes:
  assumes "pt_ok l E m root" and "pt_entry m' = pt_entry m" and "nset l E m root \<subseteq> set (pt_nodes m')"
  shows "pt_ok l E m' root"
  using assms(1,3)
proof (induction l arbitrary: root)
  case (Suc l)
  have c: "child m' = child m" by (intro ext) (simp add: child_def assms(2))
  show ?case
  proof (cases "Suc l = PAGETABLE_LOWEST_LEVEL E")
    case True
    then show ?thesis using Suc.prems pt_ok_nonnull [OF Suc.prems(1)] root_in_nset [of root "Suc l" E m]
      unfolding pt_ok.simps by blast
  next
    case False
    have "pt_ok l E m' (child m root i)" if "i < 512" "child m root i \<noteq> 0" for i
      using Suc.prems False that nset_child [OF False that] by (intro Suc.IH) auto
    then show ?thesis using Suc.prems False root_in_nset [of root "Suc l" E m]
      by (simp add: c assms(2) nset_entry [OF assms(2)] subset_iff)
  qed
qed auto

lemma tables_ok_dealloc:
  assumes ok: "tables_ok E t roots" and a: "a \<in> set roots"
  defines "t' \<equiv> deallocate_pagetable 3 E a t"
  shows "tables_ok E t' (removeAll a roots)" and "walk 3 E t' b x = walk 3 E t b x"
proof -
  have e: "pt_entry t' = pt_entry t" by (simp add: t'_def deallocate_entry)
  show "walk 3 E t' b x = walk 3 E t b x" by (rule pt_frame(2)) (simp add: e)
  have "pt_ok 3 E t' b" if "b \<in> set roots" "b \<noteq> a" for b
  proof (rule pt_ok_nodes [OF _ e])
    show "pt_ok 3 E t b" using ok that by (simp add: tables_ok_def)
    then show "nset 3 E t b \<subseteq> set (pt_nodes t')"
      using ok a that nset_nodes [of 3 E t b] deallocate_keep [of _ t 3 E a]
      unfolding tables_ok_def t'_def by blast
  qed
  then show "tables_ok E t' (removeAll a roots)"
    using ok by (simp add: tables_ok_def nset_entry [OF e] distinct_removeAll)
qed

text \<open>The hypotheses on the platform, and the isolation invariant.\<close>

locale compartment_platform =
  pt_alloc "pl_env P" "pl_alloc P" + flat_pagemap "pl_env P" "pl_slot P" "pl_slot_address P"
  for P :: "'p platform" +
  fixes L :: kernel_layout and heap :: HeapRanges
  assumes parent_aligned: "parent_alloc_range P sz q = (a, q') \<Longrightarrow> a \<noteq> 0 \<Longrightarrow>
      unat (MIN_OWNERSHIP_SIZE (pl_env P)) dvd unat sz \<Longrightarrow> granule_request (pl_env P) a sz"
    and heap_low: "is_heap_address heap x \<Longrightarrow> unat x < 2 ^ 48"
    and layout_aligned: "list_all (entry_request (pl_env P)) (predefined_map (pl_env P) L @ interrupt_stack_map L)"
    and layout_protected: "\<forall>e \<in> set (interrupt_stack_map L). map_perm e \<noteq> PT_COMPARTMENT_WRITE"

definition range_reg :: "MonzaRange list \<Rightarrow> (nat \<times> CompartmentOwner) set" where
  "range_reg rs = (\<lambda>r. (range_head r, range_owner r)) ` set rs"

definition writable_owned :: "'p platform \<Rightarrow> 'p memory \<Rightarrow> MonzaRange \<Rightarrow> bool" where
  "writable_owned P m r \<longleftrightarrow> (\<forall>x. unat x < 2 ^ 48 \<longrightarrow>
    user_writable (walk 3 (pl_env P) (tables m) (compartment_pagetable_root r) x) \<longrightarrow>
    get_monza_owner (pl_slot P) x (owners m) = range_owner r)"

definition mem_ok :: "'p platform \<Rightarrow> 'p memory \<Rightarrow> MonzaRange list \<Rightarrow> bool" where
  "mem_ok P m rs \<longleftrightarrow>
    lists_ok (owners m) (range_reg rs) \<and>
    tables_ok (pl_env P) (tables m) (kernel_pagetable (tables m) # map compartment_pagetable_root rs) \<and>
    distinct (map range_owner rs) \<and> (\<forall>r \<in> set rs. writable_owned P m r) \<and>
    (\<forall>e. entry_owner (owners m) e \<noteq> null_owner \<longrightarrow>
      entry_owner (owners m) e \<in> range_owner ` set rs \<and> (\<exists>x. pl_slot P x = Some e))"

definition sys_ok :: "'p platform \<Rightarrow> 'p system \<Rightarrow> bool" where
  "sys_ok P s \<longleftrightarrow> mem_ok P (sys_mem s) (sys_ranges s)"

lemma mem_ok_parent [simp]: "mem_ok P (m\<lparr>parent := q\<rparr>) rs = mem_ok P m rs"
  by (simp add: mem_ok_def writable_owned_def)

lemma mem_ok_range:
  assumes "mem_ok P m rs" and "r \<in> set rs"
  shows "(range_head r, range_owner r) \<in> range_reg rs" and "range_owner r \<noteq> null_owner"
    and "compartment_pagetable_root r \<in> set (kernel_pagetable (tables m) # map compartment_pagetable_root rs)"
    and "compartment_pagetable_root r \<noteq> kernel_pagetable (tables m)"
    and "pt_ok 3 (pl_env P) (tables m) (compartment_pagetable_root r)" and "writable_owned P m r"
proof -
  show reg: "(range_head r, range_owner r) \<in> range_reg rs" using assms(2) by (simp add: range_reg_def)
  have "lists_ok (owners m) (range_reg rs)" using assms(1) by (simp add: mem_ok_def)
  then show "range_owner r \<noteq> null_owner" using reg unfolding lists_ok_def by blast
  have t: "tables_ok (pl_env P) (tables m) (kernel_pagetable (tables m) # map compartment_pagetable_root rs)"
    using assms(1) by (simp add: mem_ok_def)
  show root: "compartment_pagetable_root r \<in> set (kernel_pagetable (tables m) # map compartment_pagetable_root rs)"
    using assms(2) by simp
  show "compartment_pagetable_root r \<noteq> kernel_pagetable (tables m)"
    using t assms(2) unfolding tables_ok_def by (metis distinct.simps(2) image_eqI list.set_map)
  show "pt_ok 3 (pl_env P) (tables m) (compartment_pagetable_root r)" using t root unfolding tables_ok_def by blast
  show "writable_owned P m r" using assms by (simp add: mem_ok_def)
qed

lemma mem_ok_distinct:
  assumes "mem_ok P m rs" and "r \<in> set rs" and "r' \<in> set rs" and "r \<noteq> r'"
  shows "range_owner r \<noteq> range_owner r'" and "compartment_pagetable_root r \<noteq> compartment_pagetable_root r'"
proof -
  have "distinct (map range_owner rs)" "distinct (map compartment_pagetable_root rs)"
    using assms(1) by (simp_all add: mem_ok_def tables_ok_def)
  then show "range_owner r \<noteq> range_owner r'" "compartment_pagetable_root r \<noteq> compartment_pagetable_root r'"
    using assms(2-4) unfolding distinct_map inj_on_def by blast+
qed

text \<open>One compartment's table and owners change: what is left to show for the invariant.\<close>

lemma mem_ok_update:
  assumes ok: "mem_ok P m rs" and r: "r \<in> set rs"
    and ext: "pt_ext 3 (pl_env P) (compartment_pagetable_root r) (tables m) t"
    and lists: "lists_ok s (range_reg rs)"
    and own: "writable_owned P (m\<lparr>owners := s, tables := t\<rparr>) r"
    and others: "\<And>x r'. r' \<in> set rs \<Longrightarrow> r' \<noteq> r \<Longrightarrow> get_monza_owner (pl_slot P) x (owners m) = range_owner r' \<Longrightarrow>
      get_monza_owner (pl_slot P) x s = range_owner r'"
    and entries: "\<And>e. entry_owner s e \<noteq> null_owner \<Longrightarrow> entry_owner s e = entry_owner (owners m) e \<or>
      entry_owner s e = range_owner r \<and> (\<exists>x. pl_slot P x = Some e)"
  shows "mem_ok P (m\<lparr>owners := s, tables := t\<rparr>) rs"
proof -
  let ?roots = "kernel_pagetable (tables m) # map compartment_pagetable_root rs"
  have t: "tables_ok (pl_env P) (tables m) ?roots" using ok by (simp add: mem_ok_def)
  note x = tables_ok_ext [OF t mem_ok_range(3) [OF ok r] ext]
  have k: "kernel_pagetable t = kernel_pagetable (tables m)" using ext by (simp add: pt_ext_def)
  have "writable_owned P (m\<lparr>owners := s, tables := t\<rparr>) r'" if r': "r' \<in> set rs" for r'
  proof (cases "r' = r")
    case False
    then have "walk 3 (pl_env P) t (compartment_pagetable_root r') x =
        walk 3 (pl_env P) (tables m) (compartment_pagetable_root r') x" for x
      using mem_ok_distinct(2) [OF ok r' r] by (intro x(2) mem_ok_range(3) [OF ok r']) simp
    then show ?thesis using mem_ok_range(6) [OF ok r'] others [OF r' False] by (simp add: writable_owned_def)
  qed (use own in simp)
  moreover have "entry_owner s e \<in> range_owner ` set rs \<and> (\<exists>x. pl_slot P x = Some e)"
    if "entry_owner s e \<noteq> null_owner" for e
    using entries [OF that] that ok r by (auto simp: mem_ok_def)
  ultimately show ?thesis using ok lists x(1) k by (simp add: mem_ok_def)
qed

context compartment_platform
begin

lemma granule_pt_request: "granule_request (pl_env P) p sz \<Longrightarrow> pt_request (pl_env P) p sz"
  using page_dvd_ownership by (auto simp: granule_request_def pt_request_def word_mod_dvd intro: dvd_trans)

lemma compartment_add_run:
  assumes "pt_request (pl_env P) base sz" and "pt_ok 3 (pl_env P) t root" and "pt_room 1 t"
    and "add_to_compartment_pagetable (pl_env P) (pl_alloc P) root base sz perm t = Some (Inr t')"
  shows "pt_ext 3 (pl_env P) root t t'"
    and "unat x < 2 ^ 48 \<Longrightarrow> walk 3 (pl_env P) t' root x =
      (if in_request base sz x then leaf_of (pl_env P) False NORMAL_TYPE perm 3 x else walk 3 (pl_env P) t root x)"
proof -
  have "add_to_pagetable PML4_LEVEL (pl_env P) (pl_alloc P) False root base sz perm NORMAL_TYPE t = Some t'"
    using assms(4) by (auto simp: add_to_compartment_pagetable_def bind_eq_Some_conv split: if_splits)
  moreover obtain t2 where t2: "add_to_pagetable PML4_LEVEL (pl_env P) (pl_alloc P) False root base sz perm NORMAL_TYPE t = Some t2"
      "pt_ext 3 (pl_env P) root t t2" "\<forall>x. unat x < 2 ^ 48 \<longrightarrow> walk 3 (pl_env P) t2 root x =
        (if in_request base sz x then leaf_of (pl_env P) False NORMAL_TYPE perm 3 x else walk 3 (pl_env P) t root x)"
    using add_top [OF assms(1-3), of False perm NORMAL_TYPE] by blast
  ultimately have "t2 = t'" by simp
  then show "pt_ext 3 (pl_env P) root t t'"
    and "unat x < 2 ^ 48 \<Longrightarrow> walk 3 (pl_env P) t' root x =
      (if in_request base sz x then leaf_of (pl_env P) False NORMAL_TYPE perm 3 x else walk 3 (pl_env P) t root x)"
    using t2(2,3) by blast+
qed

lemma compartment_remove_run:
  assumes "pt_request (pl_env P) base sz" and "pt_ok 3 (pl_env P) t root" and "root \<noteq> kernel_pagetable t"
  shows "\<exists>t'. remove_from_compartment_pagetable (pl_env P) root base sz t = Some (Inr t') \<and>
    pt_ext 3 (pl_env P) root t t' \<and>
    (\<forall>x. unat x < 2 ^ 48 \<longrightarrow> walk 3 (pl_env P) t' root x = (if in_request base sz x then 0 else walk 3 (pl_env P) t root x))"
proof -
  obtain t' where t': "remove_from_pagetable PML4_LEVEL (pl_env P) root base sz t = Some t'" "pt_ext 3 (pl_env P) root t t'"
      "\<forall>x. unat x < 2 ^ 48 \<longrightarrow> walk 3 (pl_env P) t' root x = (if in_request base sz x then 0 else walk 3 (pl_env P) t root x)"
    using remove_top [OF assms(1,2)] by blast
  moreover have "remove_from_compartment_pagetable (pl_env P) root base sz t = Some (Inr t')"
    using t'(1) assms(1,3) by (simp add: remove_from_compartment_pagetable_def pt_request_def)
  ultimately show ?thesis by blast
qed

lemma owner_entry:
  assumes "\<And>e. entry_owner s e \<noteq> entry_owner u e \<Longrightarrow> \<exists>x. pl_slot P x = Some e"
    and "\<And>x. get_monza_owner (pl_slot P) x s = get_monza_owner (pl_slot P) x u \<or> get_monza_owner (pl_slot P) x s = new"
  shows "entry_owner s e = entry_owner u e \<or> entry_owner s e = new \<and> (\<exists>x. pl_slot P x = Some e)"
proof (cases "entry_owner s e = entry_owner u e")
  case False
  then obtain x where "pl_slot P x = Some e" using assms(1) by blast
  then show ?thesis using assms(2) [of x] by (auto simp: get_monza_owner_def)
qed simp

end

context compartment_platform
begin

lemma add_owner_unmapped:
  assumes "granule_request (pl_env P) p sz" and "add_monza_owner (pl_env P) (pl_slot P) p sz owner lh s = Some (Inr t)"
    and "entry_owner t e \<noteq> entry_owner s e"
  shows "\<exists>x. pl_slot P x = Some e"
proof -
  have "(\<forall>x. pl_slot P x \<noteq> Some e) \<longrightarrow> entry_owner t e = entry_owner s e"
    by (rule granule_loop_keeps [where Q="\<lambda>u. (\<forall>x. pl_slot P x \<noteq> Some e) \<longrightarrow> entry_owner u e = entry_owner s e",
        OF assms(1) assms(2) [unfolded add_monza_owner_def]])
      (auto simp: Let_def split: option.splits if_splits)
  then show ?thesis using assms(3) by blast
qed

lemma remove_owner_unmapped:
  assumes "granule_request (pl_env P) p sz" and "remove_monza_owner (pl_env P) (pl_slot P) p sz owner s = Some (Inr t)"
    and "entry_owner t e \<noteq> entry_owner s e"
  shows "\<exists>x. pl_slot P x = Some e"
proof -
  have "(\<forall>x. pl_slot P x \<noteq> Some e) \<longrightarrow> entry_owner t e = entry_owner s e"
    by (rule granule_loop_keeps [where Q="\<lambda>u. (\<forall>x. pl_slot P x \<noteq> Some e) \<longrightarrow> entry_owner u e = entry_owner s e",
        OF assms(1) assms(2) [unfolded remove_monza_owner_def]])
      (auto simp: clear_owner_def split: option.splits if_splits)
  then show ?thesis using assms(3) by blast
qed

lemma alloc_range_ok:
  assumes ok: "mem_ok P m rs" and r: "r \<in> set rs" and room: "pt_room 1 (tables m)"
    and sz: "unat (MIN_OWNERSHIP_SIZE (pl_env P)) dvd unat sz"
    and run: "alloc_range P r sz m = Some (Inr (a, m'))" and a: "a \<noteq> 0"
  shows "mem_ok P m' rs" and "granule_request (pl_env P) a sz"
    and "owner_effect (pl_slot P) (unat a) (unat a + unat sz) null_owner (range_owner r) (owners m) (owners m')"
    and "pt_ext 3 (pl_env P) (compartment_pagetable_root r) (tables m) (tables m')"
proof -
  note on = mem_ok_range(2) [OF ok r]
  obtain q where q: "parent_alloc_range P sz (parent m) = (a, q)"
    using run on by (auto simp: alloc_range_def Let_def run_bind_ok_iff split: prod.splits if_splits)
  show req: "granule_request (pl_env P) a sz" by (rule parent_aligned [OF q a sz])
  obtain s t where s: "add_monza_owner (pl_env P) (pl_slot P) a sz (range_owner r) (Some (range_head r)) (owners m) = Some (Inr s)"
    and t: "add_to_compartment_pagetable (pl_env P) (pl_alloc P) (compartment_pagetable_root r) a sz
        PT_COMPARTMENT_WRITE (tables m) = Some (Inr t)"
    and m': "m' = m\<lparr>parent := q, owners := s, tables := t\<rparr>"
    using run on a q by (auto simp: alloc_range_def Let_def run_bind_ok_iff)
  note eff = add_owner_effect [OF req s]
  then show "owner_effect (pl_slot P) (unat a) (unat a + unat sz) null_owner (range_owner r) (owners m) (owners m')"
    by (simp add: m')
  note tab = compartment_add_run [OF granule_pt_request [OF req] mem_ok_range(5) [OF ok r] room t]
  show "pt_ext 3 (pl_env P) (compartment_pagetable_root r) (tables m) (tables m')" using tab(1) by (simp add: m')
  have "mem_ok P (m\<lparr>owners := s, tables := t\<rparr>) rs"
  proof (rule mem_ok_update [OF ok r tab(1)])
    show "lists_ok s (range_reg rs)"
      using ok by (intro add_owner_lists_ok [OF req s _ mem_ok_range(1) [OF ok r]]) (simp add: mem_ok_def)
    show "writable_owned P (m\<lparr>owners := s, tables := t\<rparr>) r"
      using mem_ok_range(6) [OF ok r] tab(2) eff by (auto simp: writable_owned_def owner_effect_def in_request_def)
    show "entry_owner s e = entry_owner (owners m) e \<or> entry_owner s e = range_owner r \<and> (\<exists>x. pl_slot P x = Some e)" for e
      using eff by (intro owner_entry add_owner_unmapped [OF req s]) (auto simp: owner_effect_def)
  next
    fix x r' assume r': "r' \<in> set rs" and o: "get_monza_owner (pl_slot P) x (owners m) = range_owner r'"
    then have "\<not> (unat a \<le> unat x \<and> unat x < unat a + unat sz)"
      using eff mem_ok_range(2) [OF ok r'] unfolding owner_effect_def by metis
    then show "get_monza_owner (pl_slot P) x s = range_owner r'" using eff o unfolding owner_effect_def by presburger
  qed
  moreover have "m' = (m\<lparr>owners := s, tables := t\<rparr>)\<lparr>parent := q\<rparr>" by (simp add: m')
  ultimately show "mem_ok P m' rs" by (simp only: mem_ok_parent)
qed

lemma alloc_range_null:
  assumes "mem_ok P m rs" and "r \<in> set rs" and "alloc_range P r sz m = Some (Inr (a, m'))" and "a = 0"
  shows "mem_ok P m' rs"
proof -
  have "\<exists>q. m' = m\<lparr>parent := q\<rparr>"
    using assms(3,4) by (auto simp: alloc_range_def Let_def run_bind_ok_iff split: prod.splits if_splits)
  then show ?thesis using assms(1) by auto
qed

lemma dealloc_range_ok:
  assumes ok: "mem_ok P m rs" and r: "r \<in> set rs" and req: "granule_request (pl_env P) base sz"
    and run: "dealloc_range P r base sz m = Some (Inr m')"
  shows "mem_ok P m' rs"
    and "owner_effect (pl_slot P) (unat base) (unat base + unat sz) (range_owner r) null_owner (owners m) (owners m')"
proof -
  note on = mem_ok_range(2) [OF ok r]
  obtain t s where t: "remove_from_compartment_pagetable (pl_env P) (compartment_pagetable_root r) base sz (tables m) = Some (Inr t)"
    and s: "remove_monza_owner (pl_env P) (pl_slot P) base sz (range_owner r) (owners m) = Some (Inr s)"
    and m': "m' = m\<lparr>owners := s, tables := t, parent := parent_dealloc_range P base sz (parent m)\<rparr>"
    using run on by (auto simp: dealloc_range_def run_bind_ok_iff)
  note eff = remove_owner_effect [OF req s]
  then show "owner_effect (pl_slot P) (unat base) (unat base + unat sz) (range_owner r) null_owner (owners m) (owners m')"
    by (simp add: m')
  have tab: "pt_ext 3 (pl_env P) (compartment_pagetable_root r) (tables m) t"
    "\<forall>x. unat x < 2 ^ 48 \<longrightarrow> walk 3 (pl_env P) t (compartment_pagetable_root r) x =
      (if in_request base sz x then 0 else walk 3 (pl_env P) (tables m) (compartment_pagetable_root r) x)"
    using compartment_remove_run [OF granule_pt_request [OF req] mem_ok_range(5,4) [OF ok r]] t by auto
  have "mem_ok P (m\<lparr>owners := s, tables := t\<rparr>) rs"
  proof (rule mem_ok_update [OF ok r tab(1)])
    show "lists_ok s (range_reg rs)"
      using ok by (intro remove_owner_lists_ok [OF req s _ mem_ok_range(1) [OF ok r]]) (simp add: mem_ok_def)
    show "writable_owned P (m\<lparr>owners := s, tables := t\<rparr>) r"
      using mem_ok_range(6) [OF ok r] tab(2) eff
      by (auto simp: writable_owned_def owner_effect_def in_request_def user_writable_def pte_bits)
    show "entry_owner s e = entry_owner (owners m) e \<or> entry_owner s e = range_owner r \<and> (\<exists>x. pl_slot P x = Some e)"
      if "entry_owner s e \<noteq> null_owner" for e
    proof -
      have "entry_owner s e = entry_owner (owners m) e \<or> entry_owner s e = null_owner \<and> (\<exists>x. pl_slot P x = Some e)"
        using eff by (intro owner_entry remove_owner_unmapped [OF req s]) (auto simp: owner_effect_def)
      then show ?thesis using that by blast
    qed
  next
    fix x r' assume r': "r' \<in> set rs" "r' \<noteq> r" and o: "get_monza_owner (pl_slot P) x (owners m) = range_owner r'"
    then have "\<not> (unat base \<le> unat x \<and> unat x < unat base + unat sz)"
      using eff mem_ok_distinct(1) [OF ok r'(1) r r'(2)] unfolding owner_effect_def by metis
    then show "get_monza_owner (pl_slot P) x s = range_owner r'" using eff o unfolding owner_effect_def by presburger
  qed
  then show "mem_ok P m' rs" by (simp add: m')
qed

end

text \<open>A read mapping of null-owned memory and a write mapping of own memory keep the invariant.\<close>

lemma mem_ok_map:
  assumes ok: "mem_ok P m rs" and r: "r \<in> set rs"
    and ext: "pt_ext 3 (pl_env P) (compartment_pagetable_root r) (tables m) t"
    and w: "\<And>x. unat x < 2 ^ 48 \<Longrightarrow> user_writable (walk 3 (pl_env P) t (compartment_pagetable_root r) x) \<Longrightarrow>
      get_monza_owner (pl_slot P) x (owners m) = range_owner r"
  shows "mem_ok P (m\<lparr>tables := t\<rparr>) rs"
proof -
  have "mem_ok P (m\<lparr>owners := owners m, tables := t\<rparr>) rs"
    using ok by (intro mem_ok_update [OF ok r ext]) (auto simp: mem_ok_def writable_owned_def w)
  then show ?thesis by simp
qed

context compartment_platform
begin

lemma page_low: "unat x < 2 ^ 48 \<Longrightarrow>
  pt_request (pl_env P) (align_down (pl_env P) x (PAGE_SIZE (pl_env P))) (PAGE_SIZE (pl_env P))"
  and in_page: "in_request (align_down (pl_env P) x (PAGE_SIZE (pl_env P))) (PAGE_SIZE (pl_env P)) y \<longleftrightarrow>
    unat y div unat (PAGE_SIZE (pl_env P)) = unat x div unat (PAGE_SIZE (pl_env P))"
proof -
  let ?S = "unat (PAGE_SIZE (pl_env P))"
  have a: "unat (align_down (pl_env P) x (PAGE_SIZE (pl_env P))) = down_to ?S (unat x)" by (rule align_down) simp
  have "?S dvd 2 ^ 48" using page_size by auto
  then show "unat x < 2 ^ 48 \<Longrightarrow>
      pt_request (pl_env P) (align_down (pl_env P) x (PAGE_SIZE (pl_env P))) (PAGE_SIZE (pl_env P))"
    using dvd_less_step [of ?S "down_to ?S (unat x)" "2 ^ 48"] le_less_trans [OF down_to_le]
    by (simp add: pt_request_def word_mod_dvd a)
  have "unat y div ?S = down_to ?S (unat x) div ?S \<longleftrightarrow> down_to ?S (unat x) \<le> unat y \<and> unat y < down_to ?S (unat x) + ?S"
    by (rule div_eq_block) simp_all
  then show "in_request (align_down (pl_env P) x (PAGE_SIZE (pl_env P))) (PAGE_SIZE (pl_env P)) y \<longleftrightarrow>
      unat y div ?S = unat x div ?S"
    by (simp add: in_request_def a down_to_def)
qed

lemma page_owner:
  assumes "unat y div unat (PAGE_SIZE (pl_env P)) = unat x div unat (PAGE_SIZE (pl_env P))"
  shows "get_monza_owner (pl_slot P) y s = get_monza_owner (pl_slot P) x s"
proof -
  obtain k where "unat (MIN_OWNERSHIP_SIZE (pl_env P)) = unat (PAGE_SIZE (pl_env P)) * k"
    using page_dvd_ownership by (elim dvdE)
  then show ?thesis using assms by (intro owner_same_granule) (simp add: div_mult2_eq)
qed

lemma fault_run:
  assumes ok: "mem_ok P m rs" and r: "r \<in> set rs" and room: "pt_room 1 (tables m)"
    and run: "page_fault_handler P heap (range_owner r) x (compartment_pagetable_root r) err m = Some (Inr m')"
  shows "\<exists>t perm. m' = m\<lparr>tables := t\<rparr> \<and> unat x < 2 ^ 48 \<and>
    pt_ext 3 (pl_env P) (compartment_pagetable_root r) (tables m) t \<and>
    (\<forall>y. unat y < 2 ^ 48 \<longrightarrow> walk 3 (pl_env P) t (compartment_pagetable_root r) y =
      (if unat y div unat (PAGE_SIZE (pl_env P)) = unat x div unat (PAGE_SIZE (pl_env P))
       then leaf_of (pl_env P) False NORMAL_TYPE perm 3 y
       else walk 3 (pl_env P) (tables m) (compartment_pagetable_root r) y)) \<and>
    (perm = PT_COMPARTMENT_WRITE \<and> get_monza_owner (pl_slot P) x (owners m) = range_owner r \<or>
     perm = PT_COMPARTMENT_READ \<and> get_monza_owner (pl_slot P) x (owners m) = null_owner)"
proof -
  let ?a = "align_down (pl_env P) x (PAGE_SIZE (pl_env P))"
  have low: "unat x < 2 ^ 48"
    using run by (intro heap_low) (simp add: page_fault_handler_def Let_def split: if_splits)
  obtain perm t where t: "add_to_compartment_pagetable (pl_env P) (pl_alloc P) (compartment_pagetable_root r)
        ?a (PAGE_SIZE (pl_env P)) perm (tables m) = Some (Inr t)" and m': "m' = m\<lparr>tables := t\<rparr>"
    and p: "perm = PT_COMPARTMENT_WRITE \<and> get_monza_owner (pl_slot P) x (owners m) = range_owner r \<or>
      perm = PT_COMPARTMENT_READ \<and> get_monza_owner (pl_slot P) x (owners m) = null_owner"
    using run by (auto simp: page_fault_handler_def Let_def is_active_stack_def run_bind_ok_iff split: if_splits)
  note tab = compartment_add_run [OF page_low [OF low] mem_ok_range(5) [OF ok r] room t, unfolded in_page]
  show ?thesis using m' low tab p by blast
qed

lemma fault_ok:
  assumes "mem_ok P m rs" and "r \<in> set rs" and "pt_room 1 (tables m)"
    and "page_fault_handler P heap (range_owner r) x (compartment_pagetable_root r) err m = Some (Inr m')"
  shows "mem_ok P m' rs"
proof -
  obtain t perm where t: "m' = m\<lparr>tables := t\<rparr>" "pt_ext 3 (pl_env P) (compartment_pagetable_root r) (tables m) t"
      "\<forall>y. unat y < 2 ^ 48 \<longrightarrow> walk 3 (pl_env P) t (compartment_pagetable_root r) y =
        (if unat y div unat (PAGE_SIZE (pl_env P)) = unat x div unat (PAGE_SIZE (pl_env P))
         then leaf_of (pl_env P) False NORMAL_TYPE perm 3 y
         else walk 3 (pl_env P) (tables m) (compartment_pagetable_root r) y)"
    and p: "perm = PT_COMPARTMENT_WRITE \<and> get_monza_owner (pl_slot P) x (owners m) = range_owner r \<or>
      perm = PT_COMPARTMENT_READ \<and> get_monza_owner (pl_slot P) x (owners m) = null_owner"
    using fault_run [OF assms] by blast
  have "mem_ok P (m\<lparr>tables := t\<rparr>) rs"
  proof (rule mem_ok_map [OF assms(1,2) t(2)])
    fix y :: u64 assume y: "unat y < 2 ^ 48" and w: "user_writable (walk 3 (pl_env P) t (compartment_pagetable_root r) y)"
    show "get_monza_owner (pl_slot P) y (owners m) = range_owner r"
    proof (cases "unat y div unat (PAGE_SIZE (pl_env P)) = unat x div unat (PAGE_SIZE (pl_env P))")
      case True
      then have "perm = PT_COMPARTMENT_WRITE"
        using w t(3) y leaf_not_user_writable [OF snmalloc_env_axioms] by metis
      then show ?thesis using p page_owner [OF True] by simp
    next
      case False
      then show ?thesis using w t(3) y mem_ok_range(6) [OF assms(1,2)] by (simp add: writable_owned_def)
    qed
  qed
  then show ?thesis by (simp add: t(1))
qed

end

lemma reset_head_owner [simp]: "entry_owner (reset_head h s) = entry_owner s"
  by (simp add: reset_head_def)

lemma reset_head_get [simp]: "get_monza_owner slot x (reset_head h s) = get_monza_owner slot x s"
  by (simp add: get_monza_owner_def split: option.splits)

lemma reset_head_lists:
  assumes "lists_ok s reg" and "h \<notin> fst ` reg" and "owner \<notin> snd ` reg" and "owner \<noteq> null_owner"
    and "\<forall>e. entry_owner s e \<noteq> owner"
  shows "lists_ok (reset_head h s) (insert (h, owner) reg)"
proof -
  have "exact_list (reset_head h s) h' owner'" if r: "(h', owner') \<in> reg" for h' owner'
  proof -
    have "h' \<noteq> h" using assms(2) r by force
    then have "chunk_list (reset_head h s) h' es = chunk_list s h' es" for es
      by (intro chunk_list_frame) (auto simp: reset_head_def)
    moreover have "exact_list s h' owner'" using assms(1) r unfolding lists_ok_def by blast
    ultimately show ?thesis by (simp add: exact_list_def)
  qed
  moreover have "exact_list (reset_head h s) h owner"
    unfolding exact_list_def using assms(5) by (intro exI [of _ "[]"]) (simp add: chunk_list_def reset_head_def)
  moreover have "\<And>h' owner'. (h', owner') \<in> reg \<Longrightarrow> h' \<noteq> h \<and> owner' \<noteq> owner" using assms(2,3) by force
  ultimately show ?thesis using assms(1,4) unfolding lists_ok_def by (simp add: split_beta) (metis prod.collapse)
qed

context compartment_platform
begin

lemma create_ok:
  assumes ok: "mem_ok P m rs"
    and run: "create_compartment_pagetable (pl_env P) (pl_alloc P) L (tables m) = Some (root, t)"
    and room: "pt_room (length (predefined_map (pl_env P) L @ interrupt_stack_map L) + 1) (tables m)"
    and fresh: "owner \<noteq> null_owner" "owner \<notin> range_owner ` set rs" "h \<notin> range_head ` set rs"
    and r: "r = \<lparr>range_head = h, range_owner = owner, compartment_pagetable_root = root\<rparr>"
  shows "mem_ok P (m\<lparr>tables := t, owners := reset_head h (owners m)\<rparr>) (r # rs)"
proof -
  let ?E = "pl_env P" and ?m = "m\<lparr>tables := t, owners := reset_head h (owners m)\<rparr>"
  let ?roots = "kernel_pagetable (tables m) # map compartment_pagetable_root rs"
  have c: "root \<notin> set (pt_nodes (tables m))" "pt_ok 3 ?E t root" "set (pt_nodes (tables m)) \<subseteq> set (pt_nodes t)"
    "kernel_pagetable t = kernel_pagetable (tables m)" "nset 3 ?E t root \<inter> set (pt_nodes (tables m)) = {}"
    "\<forall>n \<in> set (pt_nodes (tables m)). pt_entry t n = pt_entry (tables m) n"
    "\<forall>x. unat x < 2 ^ 48 \<longrightarrow> walk 3 ?E t root x = last_mapping ?E False (predefined_map ?E L @ interrupt_stack_map L) x 0"
    using create_compartment_spec [OF pt_alloc_axioms layout_aligned room] run by auto
  have t: "tables_ok ?E (tables m) ?roots" using ok by (simp add: mem_ok_def)
  note new = tables_ok_new [OF t c(2,3,5,6)]
  have d: "distinct (root # ?roots)" using new(1) by (simp only: tables_ok_def)
  have tabs: "tables_ok ?E t (kernel_pagetable t # map compartment_pagetable_root (r # rs))"
    by (rule tables_ok_perm [OF new(1)]) (use d in \<open>auto simp: r c(4)\<close>)
  have "writable_owned P ?m r"
    using c(7) create_map_not_writable [OF snmalloc_env_axioms layout_protected] by (simp add: writable_owned_def r)
  moreover have "writable_owned P ?m r'" if "r' \<in> set rs" for r'
    using mem_ok_range(6) [OF ok that] new(2) [OF mem_ok_range(3) [OF ok that]]
    by (simp add: writable_owned_def)
  moreover have reg: "range_reg (r # rs) = insert (h, owner) (range_reg rs)" by (simp add: range_reg_def r)
  have live: "\<forall>e. entry_owner (owners m) e \<noteq> null_owner \<longrightarrow>
      entry_owner (owners m) e \<in> range_owner ` set rs \<and> (\<exists>x. pl_slot P x = Some e)"
    and lists: "lists_ok (owners m) (range_reg rs)" using ok unfolding mem_ok_def by blast+
  have "\<forall>e. entry_owner (owners m) e \<noteq> owner" using live fresh(1,2) by metis
  then have "lists_ok (reset_head h (owners m)) (range_reg (r # rs))"
    unfolding reg using fresh by (intro reset_head_lists [OF lists]) (auto simp: range_reg_def image_image)
  moreover have "distinct (map range_owner (r # rs))" using ok fresh(2) by (simp add: mem_ok_def r)
  moreover have "\<forall>e. entry_owner (owners m) e \<noteq> null_owner \<longrightarrow>
      entry_owner (owners m) e \<in> range_owner ` set (r # rs) \<and> (\<exists>x. pl_slot P x = Some e)"
    using live by simp
  ultimately show ?thesis using tabs unfolding mem_ok_def by simp
qed

end

text \<open>The traversal visits the listed entries once each, though every callback unlinks its entry.\<close>

lemma list_walk_all:
  assumes step: "\<And>e es s. I (e # es) s \<Longrightarrow> \<exists>t. f e s = Some (Inr t) \<and> I es t"
    and links: "\<And>es s. I es s \<Longrightarrow> chunk_list (own s) h es \<and> link_next (own s) (Head h) \<noteq> None"
    and "I es s"
  shows "\<exists>t. list_walk own f h (link_next (own s) (Head h)) s = Some (Inr t) \<and> I [] t"
  using assms(3)
proof (induction es arbitrary: s)
  case Nil
  then show ?case using links [OF Nil] by (subst list_walk.simps) (auto simp: chunk_list_def)
next
  case (Cons e es)
  then obtain t where t: "f e s = Some (Inr t)" "I es t" using step by blast
  have c: "chain (own s) (Head h) (map Entry (e # es)) (Head h)" using links [OF Cons.prems] by (auto simp: chunk_list_def)
  have ct: "chain (own t) (Head h) (map Entry es) (Head h)" using links [OF t(2)] by (auto simp: chunk_list_def)
  have "link_next (own s) (Entry e) = link_next (own t) (Head h)"
    using c ct by (cases es) auto
  then show ?case using c t(1) Cons.IH [OF t(2)] by (subst list_walk.simps) simp
qed

lemma lazy_init_lists:
  assumes "lists_ok s reg" and "(h, owner) \<in> reg"
  shows "lists_ok (lazy_init h s) reg"
proof -
  have "exact_list (lazy_init h s) h' owner'" if r: "(h', owner') \<in> reg" for h' owner'
  proof -
    obtain es where es: "chunk_list s h' es" "\<forall>e. e \<in> set es \<longleftrightarrow> entry_owner s e = owner'"
      using assms(1) r unfolding lists_ok_def exact_list_def by blast
    have "chunk_list (lazy_init h s) h' es"
      using es(1) chunk_list_lazy_init [of s h es] lazy_init_other [of h' h s es]
      by (cases "h' = h") (simp_all add: chunk_list_def)
    then show ?thesis using es(2) unfolding exact_list_def by (intro exI [of _ es]) (simp add: lazy_init_def)
  qed
  then show ?thesis using assms(1) unfolding lists_ok_def by blast
qed

lemma lazy_init_get [simp]: "get_monza_owner slot x (lazy_init h s) = get_monza_owner slot x s"
  by (simp add: get_monza_owner_def lazy_init_def split: option.splits)

lemma owners_update_apply: "owners_update f m = m\<lparr>owners := f (owners m)\<rparr>"
  by (cases m) simp

lemma mem_ok_lazy:
  assumes "mem_ok P m rs" and "r \<in> set rs"
  shows "mem_ok P (m\<lparr>owners := lazy_init (range_head r) (owners m)\<rparr>) rs"
proof -
  have "lists_ok (lazy_init (range_head r) (owners m)) (range_reg rs)"
    using assms by (intro lazy_init_lists [OF _ mem_ok_range(1) [OF assms]]) (simp add: mem_ok_def)
  moreover have "entry_owner (lazy_init (range_head r) (owners m)) = entry_owner (owners m)" by (simp add: lazy_init_def)
  ultimately show ?thesis using assms(1) by (simp add: mem_ok_def writable_owned_def)
qed

context flat_pagemap
begin

lemma slot_entry:
  assumes "slot x = Some e"
  shows "slot (slot_address e) = Some e" and "granule_request E (slot_address e) (MIN_OWNERSHIP_SIZE E)"
proof -
  let ?G = "unat (MIN_OWNERSHIP_SIZE E)"
  note a = slot_address [OF assms]
  have "unat (slot_address e) div ?G = unat x div ?G" using ownership_pos by (simp add: a down_to_def)
  then show "slot (slot_address e) = Some e" using slot_granule assms by metis
  have "down_to ?G (unat x) < 2 ^ 48" using slot_low [OF assms] down_to_le [of ?G "unat x"] by linarith
  then have "down_to ?G (unat x) + ?G \<le> 2 ^ 48" using ownership_dvd_48 by (intro dvd_less_step) simp_all
  then show "granule_request E (slot_address e) (MIN_OWNERSHIP_SIZE E)" by (simp add: granule_request_def a)
qed

lemma remove_one:
  assumes "slot x = Some e" and "entry_owner s e = owner"
  shows "remove_monza_owner E slot (slot_address e) (MIN_OWNERSHIP_SIZE E) owner s =
    Some (Inr (entry_remove e (clear_owner e s)))"
proof -
  have "unat (slot_address e + MIN_OWNERSHIP_SIZE E) = unat (slot_address e) + unat (MIN_OWNERSHIP_SIZE E)"
    using slot_entry(2) [OF assms(1)] by (intro unat_add64) (simp add: granule_request_def)
  then have "slot_address e < slot_address e + MIN_OWNERSHIP_SIZE E" using ownership_pos by (simp add: word_less_nat)
  then show ?thesis
    by (simp add: remove_monza_owner_def for_loop.simps slot_entry(1) [OF assms(1)] assms(2))
qed

end

lemma entry_remove_first:
  assumes "chunk_list s h (e # es)"
  shows "chunk_list (entry_remove e s) h es" and "link_next (entry_remove e s) (Head h) \<noteq> None"
proof -
  show "chunk_list (entry_remove e s) h es" using entry_remove_list [of s h "[]" e es] assms by simp
  have "chain s (Head h) (map Entry (e # es)) (Head h)" using assms by (simp add: chunk_list_def)
  then have "link_prev s (Entry e) = Some (Head h)" "link_next s (Entry e) \<noteq> None"
    using chain_next [of s "Entry e" "map Entry es" "Head h"] by simp_all
  then show "link_next (entry_remove e s) (Head h) \<noteq> None" by (auto simp: entry_remove_def)
qed

definition release_inv :: "'p platform \<Rightarrow> MonzaRange list \<Rightarrow> MonzaRange \<Rightarrow> 'p memory \<Rightarrow> nat list \<Rightarrow> 'p memory \<Rightarrow> bool" where
  "release_inv P rs r m0 es m \<longleftrightarrow> mem_ok P m rs \<and> chunk_list (owners m) (range_head r) es \<and>
    link_next (owners m) (Head (range_head r)) \<noteq> None \<and>
    (\<forall>e. e \<in> set es \<longleftrightarrow> entry_owner (owners m) e = range_owner r) \<and>
    (\<forall>e. entry_owner (owners m) e = entry_owner (owners m0) e \<or>
      entry_owner (owners m0) e = range_owner r \<and> entry_owner (owners m) e = null_owner)"

lemma clear_owner_again [simp]: "clear_owner e (entry_remove e (clear_owner e s)) = entry_remove e (clear_owner e s)"
proof -
  have "entry_owner (entry_remove e (clear_owner e s)) e = null_owner" by (simp add: clear_owner_def)
  then show ?thesis unfolding clear_owner_def [of e "entry_remove e (clear_owner e s)"]
    by (simp add: fun_upd_idem)
qed

context compartment_platform
begin

lemma dealloc_entry:
  assumes inv: "release_inv P rs r m0 (e # es) m" and r: "r \<in> set rs"
  shows "\<exists>m'. run_bind (dealloc_range P r (pl_slot_address P e) (MIN_OWNERSHIP_SIZE (pl_env P)) (m\<lparr>parent := q\<rparr>))
      (\<lambda>m2. Some (Inr (m2\<lparr>owners := clear_owner e (owners m2)\<rparr>))) = Some (Inr m') \<and> release_inv P rs r m0 es m'"
proof -
  have ok: "mem_ok P m rs" and cl: "chunk_list (owners m) (range_head r) (e # es)"
    and eo: "entry_owner (owners m) e = range_owner r" using inv unfolding release_inv_def by auto
  note on = mem_ok_range(2) [OF ok r]
  obtain x where x: "pl_slot P x = Some e" using ok eo on unfolding mem_ok_def by metis
  note req = slot_entry(2) [OF x]
  obtain t where t: "remove_from_compartment_pagetable (pl_env P) (compartment_pagetable_root r) (pl_slot_address P e)
      (MIN_OWNERSHIP_SIZE (pl_env P)) (tables m) = Some (Inr t)"
    using compartment_remove_run [OF granule_pt_request [OF req] mem_ok_range(5,4) [OF ok r]] by blast
  let ?s = "entry_remove e (clear_owner e (owners m))"
  define m' where "m' = m\<lparr>owners := ?s, tables := t, parent := parent_dealloc_range P (pl_slot_address P e) (MIN_OWNERSHIP_SIZE (pl_env P)) q\<rparr>"
  have run: "dealloc_range P r (pl_slot_address P e) (MIN_OWNERSHIP_SIZE (pl_env P)) (m\<lparr>parent := q\<rparr>) = Some (Inr m')"
    using t remove_one [OF x eo] on by (simp add: dealloc_range_def m'_def)
  have okm: "mem_ok P m' rs" using dealloc_range_ok(1) [OF _ r req run] ok by simp
  have s: "owners m' = ?s" by (simp add: m'_def)
  have clr: "chunk_list (clear_owner e (owners m)) (range_head r) (e # es)" using cl by (simp add: clear_owner_def)
  have d: "e \<notin> set es" using cl by (simp add: chunk_list_def)
  have "e' \<in> set es \<longleftrightarrow> entry_owner ?s e' = range_owner r" for e'
    using inv d on by (auto simp: release_inv_def clear_owner_def)
  moreover have "entry_owner ?s e' = entry_owner (owners m0) e' \<or>
      entry_owner (owners m0) e' = range_owner r \<and> entry_owner ?s e' = null_owner" for e'
  proof -
    have old: "\<And>d. entry_owner (owners m) d = entry_owner (owners m0) d \<or>
        entry_owner (owners m0) d = range_owner r \<and> entry_owner (owners m) d = null_owner"
      using inv unfolding release_inv_def by blast
    then have "entry_owner (owners m0) e = range_owner r" using eo on by metis
    then show ?thesis using old [of e'] by (cases "e' = e") (simp_all add: clear_owner_def)
  qed
  ultimately have "release_inv P rs r m0 es m'"
    using okm entry_remove_first [OF clr] unfolding release_inv_def s by blast
  then show ?thesis using run s by (intro exI [of _ m']) simp
qed

lemma dealloc_all_ok:
  assumes ok: "mem_ok P m rs" and r: "r \<in> set rs"
  shows "\<exists>m'. dealloc_all P r m = Some (Inr m') \<and> mem_ok P m' rs \<and>
    (\<forall>e. entry_owner (owners m') e = (if entry_owner (owners m) e = range_owner r then null_owner else entry_owner (owners m) e))"
proof -
  let ?m = "m\<lparr>owners := lazy_init (range_head r) (owners m)\<rparr>" and ?h = "range_head r"
  note on = mem_ok_range(2) [OF ok r]
  have "lists_ok (owners m) (range_reg rs)" using ok by (simp add: mem_ok_def)
  then have "exact_list (owners m) ?h (range_owner r)" using mem_ok_range(1) [OF ok r] unfolding lists_ok_def by blast
  then obtain es where es: "chunk_list (owners m) ?h es" "\<forall>e. e \<in> set es \<longleftrightarrow> entry_owner (owners m) e = range_owner r"
    unfolding exact_list_def by blast
  have ch: "chain (lazy_init ?h (owners m)) (Head ?h) (map Entry es) (Head ?h)" "distinct es"
    using chunk_list_lazy_init [OF es(1)] by blast+
  have "release_inv P rs r m es ?m"
    using mem_ok_lazy [OF ok r] ch chain_next [OF ch(1)] es(2) by (simp add: release_inv_def chunk_list_def lazy_init_def)
  then have "\<exists>m'. list_walk owners (\<lambda>le m. run_bind (dealloc_range P r (pl_slot_address P le) (MIN_OWNERSHIP_SIZE (pl_env P))
          (m\<lparr>parent := reset_metaentry P (pl_slot_address P le) (MIN_OWNERSHIP_SIZE (pl_env P)) (parent m)\<rparr>))
        (\<lambda>m2. Some (Inr (m2\<lparr>owners := clear_owner le (owners m2)\<rparr>)))) ?h (link_next (owners ?m) (Head ?h)) ?m = Some (Inr m') \<and>
      release_inv P rs r m [] m'"
    by (intro list_walk_all [where I="release_inv P rs r m" and es=es] dealloc_entry [OF _ r])
      (simp_all only: release_inv_def simp_thms)
  then obtain m' where m': "dealloc_all P r m = Some (Inr m')" "release_inv P rs r m [] m'"
    unfolding dealloc_all_def list_forall_def Let_def owners_update_apply [of "lazy_init (range_head r)" m] by blast
  have "entry_owner (owners m') e = (if entry_owner (owners m) e = range_owner r then null_owner else entry_owner (owners m) e)" for e
    using m'(2) unfolding release_inv_def by (metis empty_iff list.set(1))
  then show ?thesis using m' unfolding release_inv_def by blast
qed

end

text \<open>Destruction: the invariant holds for the remaining compartments.\<close>

lemma removeAll_map:
  "inj_on f (insert x (set xs)) \<Longrightarrow> map f (removeAll x xs) = removeAll (f x) (map f xs)"
  by (induction xs) (auto simp: inj_on_def)

context compartment_platform
begin

lemma destroy_ok:
  assumes ok: "mem_ok P m rs" and r: "r \<in> set rs"
  shows "\<exists>m'. destroy_range P r m = Some (Inr m') \<and> mem_ok P m' (removeAll r rs) \<and>
    (\<forall>e. entry_owner (owners m') e = (if entry_owner (owners m) e = range_owner r then null_owner else entry_owner (owners m) e))"
proof -
  let ?E = "pl_env P" and ?root = "compartment_pagetable_root r"
  obtain m1 where m1: "dealloc_all P r m = Some (Inr m1)" and ok1: "mem_ok P m1 rs"
    and eo: "\<forall>e. entry_owner (owners m1) e = (if entry_owner (owners m) e = range_owner r then null_owner else entry_owner (owners m) e)"
    using dealloc_all_ok [OF assms] by blast
  define t where "t = deallocate_compartment_pagetable ?E ?root (tables m1)"
  let ?m = "m1\<lparr>tables := t\<rparr>" and ?roots = "kernel_pagetable (tables m1) # map compartment_pagetable_root rs"
  have run: "destroy_range P r m = Some (Inr ?m)"
    using m1 mem_ok_range(2) [OF ok r] by (simp add: destroy_range_def t_def)
  have tab: "tables_ok ?E (tables m1) ?roots" using ok1 by (simp add: mem_ok_def)
  have t': "t = deallocate_pagetable 3 ?E ?root (tables m1)"
    by (simp add: t_def deallocate_compartment_pagetable_def PML4_LEVEL_def)
  note d = tables_ok_dealloc [OF tab mem_ok_range(3) [OF ok1 r], folded t']
  have k: "kernel_pagetable t = kernel_pagetable (tables m1)" unfolding t' by (rule deallocate_kernel)
  have inj: "inj_on compartment_pagetable_root (set rs)" "distinct rs"
    using tab unfolding tables_ok_def by (simp_all add: distinct_map)
  have "removeAll ?root ?roots = kernel_pagetable t # map compartment_pagetable_root (removeAll r rs)"
    using mem_ok_range(4) [OF ok1 r] inj(1) r k by (simp add: removeAll_map insert_absorb)
  then have tabs: "tables_ok ?E t (kernel_pagetable t # map compartment_pagetable_root (removeAll r rs))"
    using d(1) by simp
  have reg: "range_reg (removeAll r rs) \<subseteq> range_reg rs" by (auto simp: range_reg_def)
  have "lists_ok (owners m1) (range_reg rs)" using ok1 by (simp add: mem_ok_def)
  then have lists: "lists_ok (owners m1) (range_reg (removeAll r rs))" using reg unfolding lists_ok_def by blast
  have "writable_owned P ?m r'" if "r' \<in> set (removeAll r rs)" for r'
    using mem_ok_range(6) [OF ok1, of r'] that d(2) by (simp add: writable_owned_def)
  moreover have "entry_owner (owners m1) e \<in> range_owner ` set (removeAll r rs) \<and> (\<exists>x. pl_slot P x = Some e)"
    if "entry_owner (owners m1) e \<noteq> null_owner" for e
  proof -
    have "entry_owner (owners m1) e \<in> range_owner ` set rs" "\<exists>x. pl_slot P x = Some e"
      using ok1 that unfolding mem_ok_def by blast+
    moreover have "entry_owner (owners m1) e \<noteq> range_owner r" using eo that by auto
    ultimately show ?thesis by auto
  qed
  moreover have "distinct (map range_owner (removeAll r rs))"
    using ok1 by (auto simp: mem_ok_def distinct_map inj_on_def distinct_removeAll)
  ultimately have "mem_ok P ?m (removeAll r rs)" using lists tabs unfolding mem_ok_def by simp
  then show ?thesis using run eo by (intro exI [of _ ?m]) simp
qed

lemma sys_step_ok:
  assumes "sys_step P L heap s s'" and "sys_ok P s"
  shows "sys_ok P s'"
  using assms
proof (induction rule: sys_step.induct)
  case (create m root t owner rs h r)
  have "r = \<lparr>range_head = h, range_owner = owner, compartment_pagetable_root = root\<rparr>"
    using create(6) by (simp add: set_owner_def split: if_splits)
  then show ?case using create create_ok [OF _ create(1-5)] by (simp add: sys_ok_def)
next
  case (alloc r rs m sz a m')
  then show ?case using alloc_range_ok(1) [of m rs r sz a m'] alloc_range_null [of m rs r sz a m']
    by (cases "a = 0") (simp_all add: sys_ok_def)
next
  case (dealloc r rs base sz m m')
  then show ?case using dealloc_range_ok(1) [of m rs r base sz m'] by (simp add: sys_ok_def)
next
  case (fault r rs m address err m')
  then show ?case using fault_ok [of m rs r address err m'] by (simp add: sys_ok_def)
next
  case (destroy r rs m m')
  then show ?case using destroy_ok [of m rs r] by (auto simp: sys_ok_def)
qed

lemma sys_reach_ok: "(sys_step P L heap)\<^sup>*\<^sup>* s s' \<Longrightarrow> sys_ok P s \<Longrightarrow> sys_ok P s'"
  by (induction rule: rtranclp_induct) (auto intro: sys_step_ok)

end

text \<open>Runs that succeed.\<close>

lemma leaf_write_user_writable:
  assumes "snmalloc_env E"
  shows "user_writable (leaf_of E False type PT_COMPARTMENT_WRITE l x)"
proof -
  have "(a OR b) AND 6 = 6" if "b AND 6 = 6" for a b :: u64
    using that by (simp add: bit.conj_disj_distrib2)
  then show ?thesis
    by (simp add: user_writable_def leaf_of_def set_leaf_def pte_bits or.assoc bit.conj_disj_distrib2)
qed

context compartment_platform
begin

lemma compartment_add_total:
  assumes "pt_request (pl_env P) base sz" and "pt_ok 3 (pl_env P) t root" and "pt_room 1 t"
  shows "\<exists>t'. add_to_compartment_pagetable (pl_env P) (pl_alloc P) root base sz perm t = Some (Inr t')"
proof -
  obtain t' where "add_to_pagetable PML4_LEVEL (pl_env P) (pl_alloc P) False root base sz perm NORMAL_TYPE t = Some t'"
    using add_top [OF assms, of False perm NORMAL_TYPE] by blast
  then show ?thesis using assms(1) by (simp add: add_to_compartment_pagetable_def pt_request_def)
qed

lemma alloc_range_total:
  assumes ok: "mem_ok P m rs" and r: "r \<in> set rs" and room: "pt_room 1 (tables m)"
    and sz: "unat (MIN_OWNERSHIP_SIZE (pl_env P)) dvd unat sz"
    and q: "parent_alloc_range P sz (parent m) = (a, q)" and a: "a \<noteq> 0"
    and free: "\<forall>x. in_request a sz x \<longrightarrow> pl_slot P x \<noteq> None \<and> get_monza_owner (pl_slot P) x (owners m) = null_owner"
  shows "\<exists>m'. alloc_range P r sz m = Some (Inr (a, m'))"
proof -
  note req = parent_aligned [OF q a sz]
  have "lists_ok (owners m) (range_reg rs)" using ok by (simp add: mem_ok_def)
  then obtain s where "add_monza_owner (pl_env P) (pl_slot P) a sz (range_owner r) (Some (range_head r)) (owners m) = Some (Inr s)"
    using add_owner_ok [OF req _ mem_ok_range(1) [OF ok r]] free unfolding in_request_def by blast
  moreover obtain t where "add_to_compartment_pagetable (pl_env P) (pl_alloc P) (compartment_pagetable_root r) a sz
      PT_COMPARTMENT_WRITE (tables m) = Some (Inr t)"
    using compartment_add_total [OF granule_pt_request [OF req] mem_ok_range(5) [OF ok r] room] by blast
  ultimately show ?thesis using mem_ok_range(2) [OF ok r] q a by (simp add: alloc_range_def)
qed

lemma dealloc_range_total:
  assumes ok: "mem_ok P m rs" and r: "r \<in> set rs" and req: "granule_request (pl_env P) base sz"
    and own: "\<forall>x. in_request base sz x \<longrightarrow> pl_slot P x \<noteq> None \<and> get_monza_owner (pl_slot P) x (owners m) = range_owner r"
  shows "\<exists>m'. dealloc_range P r base sz m = Some (Inr m')"
proof -
  have "lists_ok (owners m) (range_reg rs)" using ok by (simp add: mem_ok_def)
  then obtain s where "remove_monza_owner (pl_env P) (pl_slot P) base sz (range_owner r) (owners m) = Some (Inr s)"
    using remove_owner_ok [OF req _ mem_ok_range(1) [OF ok r]] own unfolding in_request_def by blast
  moreover obtain t where "remove_from_compartment_pagetable (pl_env P) (compartment_pagetable_root r) base sz (tables m) = Some (Inr t)"
    using compartment_remove_run [OF granule_pt_request [OF req] mem_ok_range(5,4) [OF ok r]] by blast
  ultimately show ?thesis using mem_ok_range(2) [OF ok r] by (simp add: dealloc_range_def)
qed

lemma alloc_walk:
  assumes "mem_ok P m rs" and "r \<in> set rs" and "pt_room 1 (tables m)"
    and "unat (MIN_OWNERSHIP_SIZE (pl_env P)) dvd unat sz"
    and "alloc_range P r sz m = Some (Inr (a, m'))" and "a \<noteq> 0" and "unat x < 2 ^ 48"
  shows "walk 3 (pl_env P) (tables m') (compartment_pagetable_root r) x =
      (if in_request a sz x then leaf_of (pl_env P) False NORMAL_TYPE PT_COMPARTMENT_WRITE 3 x
       else walk 3 (pl_env P) (tables m) (compartment_pagetable_root r) x)"
proof -
  note req = alloc_range_ok(2) [OF assms(1-6)]
  have run: "add_to_compartment_pagetable (pl_env P) (pl_alloc P) (compartment_pagetable_root r) a sz
        PT_COMPARTMENT_WRITE (tables m) = Some (Inr (tables m'))"
    using assms(5,6) mem_ok_range(2) [OF assms(1,2)]
    by (auto simp: alloc_range_def Let_def run_bind_ok_iff split: prod.splits if_splits)
  show ?thesis
    by (rule compartment_add_run(2) [OF granule_pt_request [OF req] mem_ok_range(5) [OF assms(1,2)] assms(3) run assms(7)])
qed

lemma dealloc_walk:
  assumes "mem_ok P m rs" and "r \<in> set rs" and "granule_request (pl_env P) base sz"
    and "dealloc_range P r base sz m = Some (Inr m')" and "unat x < 2 ^ 48"
  shows "walk 3 (pl_env P) (tables m') (compartment_pagetable_root r) x =
    (if in_request base sz x then 0 else walk 3 (pl_env P) (tables m) (compartment_pagetable_root r) x)"
proof -
  have run: "remove_from_compartment_pagetable (pl_env P) (compartment_pagetable_root r) base sz (tables m) = Some (Inr (tables m'))"
    using assms(4) mem_ok_range(2) [OF assms(1,2)] by (auto simp: dealloc_range_def run_bind_ok_iff)
  show ?thesis
    using compartment_remove_run [OF granule_pt_request [OF assms(3)] mem_ok_range(5,4) [OF assms(1,2)]] run assms(5) by auto
qed

lemma fault_success:
  assumes ok: "mem_ok P m rs" and r: "r \<in> set rs" and room: "pt_room 1 (tables m)"
    and good: "(err AND 0x4) \<noteq> 0" "is_heap_address heap x"
      "get_monza_owner (pl_slot P) x (owners m) = range_owner r \<or>
       (err AND 0x2) = 0 \<and> get_monza_owner (pl_slot P) x (owners m) = null_owner"
  shows "\<exists>t. page_fault_handler P heap (range_owner r) x (compartment_pagetable_root r) err m = Some (Inr (m\<lparr>tables := t\<rparr>)) \<and>
      length (pt_nodes t) \<le> length (pt_nodes (tables m)) + nodes_bound 3 \<and>
      (\<forall>y. unat y < 2 ^ 48 \<longrightarrow> walk 3 (pl_env P) t (compartment_pagetable_root r) y =
        (if unat y div unat (PAGE_SIZE (pl_env P)) = unat x div unat (PAGE_SIZE (pl_env P))
         then leaf_of (pl_env P) False NORMAL_TYPE
           (if get_monza_owner (pl_slot P) x (owners m) = range_owner r then PT_COMPARTMENT_WRITE else PT_COMPARTMENT_READ) 3 y
         else walk 3 (pl_env P) (tables m) (compartment_pagetable_root r) y))"
proof -
  let ?a = "align_down (pl_env P) x (PAGE_SIZE (pl_env P))"
    and ?perm = "if get_monza_owner (pl_slot P) x (owners m) = range_owner r then PT_COMPARTMENT_WRITE else PT_COMPARTMENT_READ"
  note req = page_low [OF heap_low [OF good(2)]] and okr = mem_ok_range(5) [OF ok r]
  obtain t where t: "add_to_pagetable PML4_LEVEL (pl_env P) (pl_alloc P) False (compartment_pagetable_root r) ?a
        (PAGE_SIZE (pl_env P)) ?perm NORMAL_TYPE (tables m) = Some t"
      "length (pt_nodes t) \<le> length (pt_nodes (tables m)) + nodes_bound 3"
    using add_top [OF req okr room, of False ?perm NORMAL_TYPE] by blast
  have t': "add_to_compartment_pagetable (pl_env P) (pl_alloc P) (compartment_pagetable_root r) ?a
      (PAGE_SIZE (pl_env P)) ?perm (tables m) = Some (Inr t)"
    using t(1) req by (simp add: add_to_compartment_pagetable_def pt_request_def)
  have "page_fault_handler P heap (range_owner r) x (compartment_pagetable_root r) err m = Some (Inr (m\<lparr>tables := t\<rparr>))"
    using good t' by (auto simp: page_fault_handler_def Let_def is_active_stack_def split: if_splits)
  then show ?thesis using t(2) compartment_add_run(2) [OF req okr room t', unfolded in_page] by blast
qed

lemma mem_ok_empty:
  assumes "\<forall>e. entry_owner (owners m) e = null_owner" and "pt_ok 3 (pl_env P) (tables m) (kernel_pagetable (tables m))"
  shows "mem_ok P m []"
  using assms by (simp add: mem_ok_def lists_ok_def range_reg_def tables_ok_def)

end

end
