(* ===== verification/Compartment_Isolation.thy ===== *)
theory Compartment_Isolation
  imports Compartment_Memory
begin

unbundle bit_operations_syntax

text \<open>
  What the compartment memory promises on every reachable state: exclusive write
  access, the decision table of the page-fault handler, the round trip of an
  allocation, the release of all memory at destruction, and one promise it does not
  keep: a read mapping of free memory survives when the memory gets an owner.
\<close>

text \<open>A platform with a bump allocator as parent range, on which the theorems are instantiated.\<close>

definition bump_alloc :: "u64 \<Rightarrow> u64 \<Rightarrow> u64 \<times> u64" where
  "bump_alloc sz q = (if q AND 0x3FFF = 0 \<and> unat q + unat sz \<le> 2 ^ 48 then (q, q + sz) else (0, q))"

definition bump_platform :: "u64 platform" where
  "bump_platform = \<lparr>pl_env = rounding_env 4096, pl_slot = full_slot (rounding_env 4096),
     pl_slot_address = full_address (rounding_env 4096), pl_alloc = first_free_node,
     parent_alloc_range = bump_alloc, parent_dealloc_range = (\<lambda>_ _ q. q), reset_metaentry = (\<lambda>_ _ q. q)\<rparr>"

definition bump_heap :: HeapRanges where
  "bump_heap = \<lparr>first_range = mk_span 0x10000 0x100000, additional_ranges = []\<rparr>"

lemma sample_layout_requests:
  "list_all (entry_request (rounding_env 4096)) (predefined_map (rounding_env 4096) sample_layout @ interrupt_stack_map sample_layout)"
  "\<forall>e \<in> set (interrupt_stack_map sample_layout). map_perm e \<noteq> PT_COMPARTMENT_WRITE"
  by (simp_all add: sample_layout_def predefined_map_def entry_request_def pt_request_def align_up_end_def Let_def)

lemma bump_sel [simp]:
  "pl_env bump_platform = rounding_env 4096" "pl_slot bump_platform = full_slot (rounding_env 4096)"
  "pl_slot_address bump_platform = full_address (rounding_env 4096)" "pl_alloc bump_platform = first_free_node"
  "parent_alloc_range bump_platform = bump_alloc"
  by (simp_all add: bump_platform_def)

lemma bump_aligned:
  assumes "bump_alloc sz q = (a, q')" and "a \<noteq> 0" and "unat (MIN_OWNERSHIP_SIZE (rounding_env 4096)) dvd unat sz"
  shows "granule_request (rounding_env 4096) a sz"
proof -
  have a: "a AND (0x4000 - 1) = 0" "unat a + unat sz \<le> 2 ^ 48"
    using assms(1,2) by (auto simp: bump_alloc_def split: if_splits)
  have "pow2 0x4000" by (rule pow2I [of 14]) simp_all
  from and_pow2_minus_1 [OF this, of a] a(1) have "unat (0x4000 :: u64) dvd unat a" by blast
  then show ?thesis using a(2) assms(3) by (simp add: granule_request_def granule_small)
qed

interpretation bump: compartment_platform bump_platform sample_layout bump_heap
proof -
  have "compartment_platform_axioms bump_platform sample_layout bump_heap"
  proof
    show "granule_request (pl_env bump_platform) a sz"
      if "parent_alloc_range bump_platform sz q = (a, q')" "a \<noteq> 0"
        "unat (MIN_OWNERSHIP_SIZE (pl_env bump_platform)) dvd unat sz" for sz q a q'
      using bump_aligned that by simp
    show "unat x < 2 ^ 48" if "is_heap_address bump_heap x" for x
      using that by (simp add: is_heap_address_def bump_heap_def overlaps_def byte_range_def span_range_def mk_span_def word_nat)
  qed (use sample_layout_requests in simp_all)
  then show "compartment_platform bump_platform sample_layout bump_heap"
    using free_small.pt_alloc_axioms full_small.flat_pagemap_axioms by (simp add: compartment_platform_def)
qed

definition bump_start :: "u64 system" where
  "bump_start = \<lparr>sys_mem = \<lparr>owners = ownership_init, tables = sample_pt, parent = 0x10000\<rparr>, sys_ranges = []\<rparr>"

context compartment_platform
begin

lemma create_total:
  assumes ok: "mem_ok P m rs" and room: "pt_room (length (predefined_map (pl_env P) L @ interrupt_stack_map L) + 1 + n) (tables m)"
    and fresh: "owner \<noteq> null_owner" "owner \<notin> range_owner ` set rs" "h \<notin> range_head ` set rs"
  shows "\<exists>m' root. sys_step P L heap \<lparr>sys_mem = m, sys_ranges = rs\<rparr>
      \<lparr>sys_mem = m', sys_ranges = \<lparr>range_head = h, range_owner = owner, compartment_pagetable_root = root\<rparr> # rs\<rparr> \<and>
    entry_owner (owners m') = entry_owner (owners m) \<and> parent m' = parent m \<and> pt_room n (tables m')"
proof -
  have room1: "pt_room (length (predefined_map (pl_env P) L @ interrupt_stack_map L) + 1) (tables m)"
    using room by (simp add: pt_room_def add_mult_distrib)
  obtain root t where t: "create_compartment_pagetable (pl_env P) (pl_alloc P) L (tables m) = Some (root, t)"
    and len: "length (pt_nodes t) \<le> 1 + length (pt_nodes (tables m)) +
      (length (predefined_map (pl_env P) L) + length (interrupt_stack_map L)) * nodes_bound 3"
    using create_compartment_spec [OF pt_alloc_axioms layout_aligned room1] by blast
  have "1 \<le> nodes_bound 3" by (simp add: numeral_3_eq_3)
  then have "pt_room n t" using room len by (simp add: pt_room_def add_mult_distrib)
  moreover have "set_owner owner root \<lparr>range_head = h, range_owner = null_owner, compartment_pagetable_root = 0\<rparr> =
      Inr \<lparr>range_head = h, range_owner = owner, compartment_pagetable_root = root\<rparr>"
    by (simp add: set_owner_def)
  ultimately show ?thesis using sys_step.create [OF t room1 fresh] by fastforce
qed

end

lemma bump_start_ok: "sys_ok bump_platform bump_start"
  unfolding sys_ok_def bump_start_def system.simps
  by (rule bump.mem_ok_empty [simplified]) (simp_all add: ownership_init_def sample_kernel sample_ok(1))

lemma bump_room:
  "pt_room (length (predefined_map (rounding_env 4096) sample_layout @ interrupt_stack_map sample_layout) + 1 +
     (length (predefined_map (rounding_env 4096) sample_layout @ interrupt_stack_map sample_layout) + 1 + 2)) sample_pt"
  by (simp add: pt_room_def sample_pt_def sample_layout_def predefined_map_def numeral_3_eq_3)

text \<open>Two compartments, with owners 7 and 9 and nothing allocated.\<close>

lemma bump_two:
  "\<exists>m r1 r2. (sys_step bump_platform sample_layout bump_heap)\<^sup>*\<^sup>* bump_start \<lparr>sys_mem = m, sys_ranges = [r2, r1]\<rparr> \<and>
    mem_ok bump_platform m [r2, r1] \<and> range_owner r1 = 7 \<and> range_owner r2 = 9 \<and>
    (\<forall>e. entry_owner (owners m) e = null_owner) \<and> parent m = 0x10000 \<and> pt_room 2 (tables m)"
proof -
  let ?step = "sys_step bump_platform sample_layout bump_heap"
  define m0 where "m0 = sys_mem bump_start"
  have m0: "bump_start = \<lparr>sys_mem = m0, sys_ranges = []\<rparr>" "tables m0 = sample_pt" "parent m0 = 0x10000"
      "owners m0 = ownership_init" by (simp_all add: m0_def bump_start_def)
  have ok0: "mem_ok bump_platform m0 []" using bump_start_ok by (simp add: sys_ok_def m0(1))
  obtain m1 root1 where m1: "?step bump_start \<lparr>sys_mem = m1, sys_ranges = [\<lparr>range_head = 0, range_owner = 7, compartment_pagetable_root = root1\<rparr>]\<rparr>"
      "entry_owner (owners m1) = entry_owner (owners m0)" "parent m1 = parent m0"
      "pt_room (length (predefined_map (rounding_env 4096) sample_layout @ interrupt_stack_map sample_layout) + 1 + 2) (tables m1)"
    using bump.create_total [OF ok0, unfolded bump_sel m0(2), OF bump_room, of 7 0] m0(1)
    by (auto simp: null_owner_def simp del: length_append)
  let ?r1 = "\<lparr>range_head = 0, range_owner = 7, compartment_pagetable_root = root1\<rparr>"
  have ok1: "mem_ok bump_platform m1 [?r1]" using bump.sys_step_ok [OF m1(1) bump_start_ok] by (simp add: sys_ok_def)
  obtain m2 root2 where m2: "?step \<lparr>sys_mem = m1, sys_ranges = [?r1]\<rparr>
        \<lparr>sys_mem = m2, sys_ranges = [\<lparr>range_head = 1, range_owner = 9, compartment_pagetable_root = root2\<rparr>, ?r1]\<rparr>"
      "entry_owner (owners m2) = entry_owner (owners m1)" "parent m2 = parent m1" "pt_room 2 (tables m2)"
    using bump.create_total [OF ok1, unfolded bump_sel, OF m1(4), of 9 1]
    by (auto simp: null_owner_def simp del: length_append)
  let ?s2 = "\<lparr>sys_mem = m2, sys_ranges = [\<lparr>range_head = 1, range_owner = 9, compartment_pagetable_root = root2\<rparr>, ?r1]\<rparr>"
  have reach: "?step\<^sup>*\<^sup>* bump_start ?s2"
    by (rule rtranclp.rtrancl_into_rtrancl [OF r_into_rtranclp [of ?step, OF m1(1)] m2(1)])
  have ok2: "mem_ok bump_platform m2 (sys_ranges ?s2)"
    using bump.sys_reach_ok [OF reach bump_start_ok] unfolding sys_ok_def system.simps .
  have "entry_owner (owners m2) e = null_owner" for e using m1(2) m2(2) m0(4) by (simp add: ownership_init_def)
  moreover have "parent m2 = 0x10000" using m1(3) m2(3) m0(3) by simp
  ultimately show ?thesis using reach ok2 [unfolded system.simps] m2(4)
    by (intro exI [of _ m2] exI [of _ ?r1] exI [of _ "\<lparr>range_head = 1, range_owner = 9, compartment_pagetable_root = root2\<rparr>"])
      (simp only: MonzaRange.simps simp_thms)
qed

text \<open>The first allocation of the second compartment takes the granule at 0x10000.\<close>

lemma bump_alloc_total:
  assumes "mem_ok bump_platform m rs" and "r \<in> set rs" and "pt_room 1 (tables m)"
    and "parent m = 0x10000" and "\<forall>e. entry_owner (owners m) e = null_owner"
  shows "\<exists>m'. alloc_range bump_platform r 0x4000 m = Some (Inr (0x10000, m'))"
proof (rule bump.alloc_range_total [OF assms(1-3)])
  show "parent_alloc_range bump_platform 0x4000 (parent m) = (0x10000, 0x14000)"
    by (simp add: bump_alloc_def assms(4))
  show "\<forall>x. in_request 0x10000 0x4000 x \<longrightarrow> pl_slot bump_platform x \<noteq> None \<and>
      get_monza_owner (pl_slot bump_platform) x (owners m) = null_owner"
    using assms(5) by (simp add: in_request_def full_slot_def get_monza_owner_def)
qed (simp_all add: granule_small)

text \<open>C1. On every reachable state of the compartment system, a page that the table of a compartment lets
  user mode write is owned by that compartment, and the table of no other compartment lets user
  mode write it.\<close>
theorem compartment_write_isolation:
  assumes "compartment_platform P L heap" and "sys_ranges s0 = []"
    and "\<forall>e. entry_owner (owners (sys_mem s0)) e = null_owner"
    and "pt_ok 3 (pl_env P) (tables (sys_mem s0)) (kernel_pagetable (tables (sys_mem s0)))"
    and "(sys_step P L heap)\<^sup>*\<^sup>* s0 s" and "r \<in> set (sys_ranges s)" and "unat x < 2 ^ 48"
    and "user_writable (walk 3 (pl_env P) (tables (sys_mem s)) (compartment_pagetable_root r) x)"
  shows "get_monza_owner (pl_slot P) x (owners (sys_mem s)) = range_owner r \<and> range_owner r \<noteq> null_owner \<and>
    (\<forall>r' \<in> set (sys_ranges s). r' \<noteq> r \<longrightarrow>
      \<not> user_writable (walk 3 (pl_env P) (tables (sys_mem s)) (compartment_pagetable_root r') x))"
proof -
  have "sys_ok P s0"
    using compartment_platform.mem_ok_empty [OF assms(1,3,4)] assms(2) by (simp add: sys_ok_def)
  then have ok: "mem_ok P (sys_mem s) (sys_ranges s)"
    using compartment_platform.sys_reach_ok [OF assms(1,5)] by (simp add: sys_ok_def)
  have w: "get_monza_owner (pl_slot P) x (owners (sys_mem s)) = range_owner q"
    if "q \<in> set (sys_ranges s)" "user_writable (walk 3 (pl_env P) (tables (sys_mem s)) (compartment_pagetable_root q) x)" for q
    using mem_ok_range(6) [OF ok that(1)] that(2) assms(7) unfolding writable_owned_def by blast
  then show ?thesis using mem_ok_range(2) [OF ok assms(6)] mem_ok_distinct(1) [OF ok assms(6)] assms(6,8) by metis
qed

theorem compartment_write_isolation_witness:
  "\<exists>s r. (sys_step bump_platform sample_layout bump_heap)\<^sup>*\<^sup>* bump_start s \<and> r \<in> set (sys_ranges s) \<and>
    user_writable (walk 3 (rounding_env 4096) (tables (sys_mem s)) (compartment_pagetable_root r) 0x10010) \<and>
    get_monza_owner (full_slot (rounding_env 4096)) 0x10010 (owners (sys_mem s)) = range_owner r"
proof -
  obtain m r1 r2 where m: "(sys_step bump_platform sample_layout bump_heap)\<^sup>*\<^sup>* bump_start \<lparr>sys_mem = m, sys_ranges = [r2, r1]\<rparr>"
      "mem_ok bump_platform m [r2, r1]" "\<forall>e. entry_owner (owners m) e = null_owner" "parent m = 0x10000" "pt_room 2 (tables m)"
    using bump_two by blast
  have room: "pt_room 1 (tables m)" using m(5) by (simp add: pt_room_def)
  have r: "r2 \<in> set [r2, r1]" by simp
  obtain m' where m': "alloc_range bump_platform r2 0x4000 m = Some (Inr (0x10000, m'))"
    using bump_alloc_total [OF m(2) r room m(4,3)] by blast
  let ?s = "\<lparr>sys_mem = m', sys_ranges = [r2, r1]\<rparr>"
  have sz: "unat (MIN_OWNERSHIP_SIZE (pl_env bump_platform)) dvd unat (0x4000 :: u64)" by (simp add: granule_small)
  have reach: "(sys_step bump_platform sample_layout bump_heap)\<^sup>*\<^sup>* bump_start ?s"
    by (rule rtranclp.rtrancl_into_rtrancl [OF m(1) sys_step.alloc [OF r room sz m']])
  have "in_request 0x10000 0x4000 0x10010" by (simp add: in_request_def)
  then have w: "user_writable (walk 3 (rounding_env 4096) (tables m') (compartment_pagetable_root r2) 0x10010)"
    using bump.alloc_walk [OF m(2) r room sz m', of "0x10010"]
      leaf_write_user_writable [OF small_pages.snmalloc_env_axioms] by simp
  have "get_monza_owner (pl_slot bump_platform) 0x10010 (owners (sys_mem ?s)) = range_owner r2"
    using compartment_write_isolation [OF bump.compartment_platform_axioms _ _ _ reach, of r2 "0x10010"] w
    by (simp add: bump_start_def ownership_init_def sample_kernel sample_ok(1))
  then show ?thesis using reach w by (intro exI [of _ ?s] exI [of _ r2]) simp
qed

lemma bump_granule: "unat (MIN_OWNERSHIP_SIZE (pl_env bump_platform)) dvd unat (0x4000 :: u64)"
  by (simp add: granule_small)

lemma bump_allocated:
  "\<exists>m r1 r2 m1. mem_ok bump_platform m [r2, r1] \<and> pt_room 1 (tables m) \<and>
    alloc_range bump_platform r2 0x4000 m = Some (Inr (0x10000, m1)) \<and> mem_ok bump_platform m1 [r2, r1] \<and>
    get_monza_owner (full_slot (rounding_env 4096)) 0x10010 (owners m1) = range_owner r2"
proof -
  obtain m r1 r2 where m: "mem_ok bump_platform m [r2, r1]" "\<forall>e. entry_owner (owners m) e = null_owner"
      "parent m = 0x10000" "pt_room 2 (tables m)"
    using bump_two by blast
  have room: "pt_room 1 (tables m)" using m(4) by (simp add: pt_room_def)
  have r: "r2 \<in> set [r2, r1]" by simp
  obtain m' where m': "alloc_range bump_platform r2 0x4000 m = Some (Inr (0x10000, m'))"
    using bump_alloc_total [OF m(1) r room m(3,2)] by blast
  have ok': "mem_ok bump_platform m' [r2, r1]" using bump.alloc_range_ok(1) [OF m(1) r room bump_granule m'] by simp
  have "get_monza_owner (full_slot (rounding_env 4096)) 0x10010 (owners m') = range_owner r2"
    using bump.alloc_range_ok(3) [OF m(1) r room bump_granule m'] by (simp add: owner_effect_def)
  then show ?thesis using m(1) room m' ok' by blast
qed

lemma owner_of_entries:
  assumes "\<forall>e. entry_owner t e = (if entry_owner s e = owner then null_owner else entry_owner s e)"
  shows "get_monza_owner slot x t = (if get_monza_owner slot x s = owner then null_owner else get_monza_owner slot x s)"
  using assms by (simp add: get_monza_owner_def split: option.splits)

text \<open>C2. Destroying a compartment always returns, makes exactly its memory unowned, and leaves the
  isolation invariant for the compartments that remain.\<close>
theorem destroy_range_releases:
  assumes "compartment_platform P L heap" and "mem_ok P m rs" and "r \<in> set rs"
  shows "\<exists>m'. destroy_range P r m = Some (Inr m') \<and> mem_ok P m' (removeAll r rs) \<and>
    (\<forall>x. get_monza_owner (pl_slot P) x (owners m') =
      (if get_monza_owner (pl_slot P) x (owners m) = range_owner r then null_owner
       else get_monza_owner (pl_slot P) x (owners m)))"
proof -
  obtain m' where m': "destroy_range P r m = Some (Inr m')" "mem_ok P m' (removeAll r rs)"
    "\<forall>e. entry_owner (owners m') e = (if entry_owner (owners m) e = range_owner r then null_owner else entry_owner (owners m) e)"
    using compartment_platform.destroy_ok [OF assms] by blast
  then show ?thesis using owner_of_entries [OF m'(3)] by blast
qed

theorem destroy_range_releases_witness:
  "\<exists>m r m' rs. get_monza_owner (full_slot (rounding_env 4096)) 0x10010 (owners m) = range_owner r \<and>
    destroy_range bump_platform r m = Some (Inr m') \<and> mem_ok bump_platform m' (removeAll r rs) \<and>
    get_monza_owner (full_slot (rounding_env 4096)) 0x10010 (owners m') = null_owner"
proof -
  obtain m r1 r2 m1 where m: "mem_ok bump_platform m1 [r2, r1]"
      "get_monza_owner (full_slot (rounding_env 4096)) 0x10010 (owners m1) = range_owner r2"
    using bump_allocated by blast
  have r: "r2 \<in> set [r2, r1]" by simp
  obtain m' where m': "destroy_range bump_platform r2 m1 = Some (Inr m')" "mem_ok bump_platform m' (removeAll r2 [r2, r1])"
      "\<forall>x. get_monza_owner (pl_slot bump_platform) x (owners m') =
        (if get_monza_owner (pl_slot bump_platform) x (owners m1) = range_owner r2 then null_owner
         else get_monza_owner (pl_slot bump_platform) x (owners m1))"
    using destroy_range_releases [OF bump.compartment_platform_axioms m(1) r] by blast
  have "get_monza_owner (full_slot (rounding_env 4096)) 0x10010 (owners m') = null_owner" using m'(3) m(2) by simp
  then show ?thesis using m(2) m'(1,2) by blast
qed

text \<open>C9. Allocating a range and giving it back restores the owner of every address, and afterwards no
  address of the range is mapped in the compartment.\<close>
theorem alloc_dealloc_range_roundtrip:
  assumes "compartment_platform P L heap" and "mem_ok P m rs" and "r \<in> set rs" and "pt_room 1 (tables m)"
    and "unat (MIN_OWNERSHIP_SIZE (pl_env P)) dvd unat sz"
    and "alloc_range P r sz m = Some (Inr (a, m1))" and "a \<noteq> 0"
    and "\<forall>x. in_request a sz x \<longrightarrow> pl_slot P x \<noteq> None"
  shows "\<exists>m2. dealloc_range P r a sz m1 = Some (Inr m2) \<and>
    (\<forall>x. get_monza_owner (pl_slot P) x (owners m2) = get_monza_owner (pl_slot P) x (owners m)) \<and>
    (\<forall>x. unat x < 2 ^ 48 \<and> in_request a sz x \<longrightarrow>
      walk 3 (pl_env P) (tables m2) (compartment_pagetable_root r) x = 0)"
proof -
  note al = compartment_platform.alloc_range_ok [OF assms(1-7)]
  have own: "\<forall>x. in_request a sz x \<longrightarrow> pl_slot P x \<noteq> None \<and> get_monza_owner (pl_slot P) x (owners m1) = range_owner r"
    using al(3) assms(8) by (simp add: owner_effect_def in_request_def)
  obtain m2 where m2: "dealloc_range P r a sz m1 = Some (Inr m2)"
    using compartment_platform.dealloc_range_total [OF assms(1) al(1) assms(3) al(2) own] by blast
  have eff: "owner_effect (pl_slot P) (unat a) (unat a + unat sz) (range_owner r) null_owner (owners m1) (owners m2)"
    by (rule compartment_platform.dealloc_range_ok(2) [OF assms(1) al(1) assms(3) al(2) m2])
  have "get_monza_owner (pl_slot P) x (owners m2) = get_monza_owner (pl_slot P) x (owners m)" for x
    using eff al(3) unfolding owner_effect_def by (cases "unat a \<le> unat x \<and> unat x < unat a + unat sz") auto
  moreover have "walk 3 (pl_env P) (tables m2) (compartment_pagetable_root r) x = 0"
    if "unat x < 2 ^ 48" "in_request a sz x" for x
    using compartment_platform.dealloc_walk [OF assms(1) al(1) assms(3) al(2) m2 that(1)] that(2) by simp
  ultimately show ?thesis using m2 by blast
qed

theorem alloc_dealloc_range_roundtrip_witness:
  "\<exists>m r m1 m2. alloc_range bump_platform r 0x4000 m = Some (Inr (0x10000, m1)) \<and>
    dealloc_range bump_platform r 0x10000 0x4000 m1 = Some (Inr m2) \<and>
    get_monza_owner (full_slot (rounding_env 4096)) 0x10010 (owners m2) =
      get_monza_owner (full_slot (rounding_env 4096)) 0x10010 (owners m)"
proof -
  obtain m r1 r2 m1 where m: "mem_ok bump_platform m [r2, r1]" "pt_room 1 (tables m)"
      "alloc_range bump_platform r2 0x4000 m = Some (Inr (0x10000, m1))"
    using bump_allocated by blast
  have r: "r2 \<in> set [r2, r1]" by simp
  have "\<forall>x. in_request 0x10000 0x4000 x \<longrightarrow> pl_slot bump_platform x \<noteq> None"
    by (simp add: in_request_def full_slot_def)
  moreover have nz: "(0x10000 :: u64) \<noteq> 0" by simp
  ultimately obtain m2 where "dealloc_range bump_platform r2 0x10000 0x4000 m1 = Some (Inr m2)"
      "\<forall>x. get_monza_owner (pl_slot bump_platform) x (owners m2) = get_monza_owner (pl_slot bump_platform) x (owners m)"
    using alloc_dealloc_range_roundtrip [OF bump.compartment_platform_axioms m(1) r m(2) bump_granule m(3) nz] by blast
  then show ?thesis using m(3) unfolding bump_sel by blast
qed

text \<open>C3. The page-fault handler stops the system for kernel faults, faults outside the heap, and accesses to
  memory of another owner or writes to free memory; in every other case it returns after mapping
  exactly the faulting page, writable if the compartment owns it and read-only if it is free.\<close>
theorem page_fault_handler_decides:
  assumes "compartment_platform P L heap" and "mem_ok P m rs" and "r \<in> set rs" and "pt_room 1 (tables m)"
  shows "if (err AND 0x4) = 0 \<or> \<not> is_heap_address heap x \<or>
      (get_monza_owner (pl_slot P) x (owners m) \<noteq> range_owner r \<and>
       ((err AND 0x2) \<noteq> 0 \<or> get_monza_owner (pl_slot P) x (owners m) \<noteq> null_owner))
    then page_fault_handler P heap (range_owner r) x (compartment_pagetable_root r) err m = Some (Inl KAbort)
    else \<exists>t. page_fault_handler P heap (range_owner r) x (compartment_pagetable_root r) err m = Some (Inr (m\<lparr>tables := t\<rparr>)) \<and>
      (\<forall>y. unat y < 2 ^ 48 \<longrightarrow> walk 3 (pl_env P) t (compartment_pagetable_root r) y =
        (if unat y div unat (PAGE_SIZE (pl_env P)) = unat x div unat (PAGE_SIZE (pl_env P))
         then leaf_of (pl_env P) False NORMAL_TYPE
           (if get_monza_owner (pl_slot P) x (owners m) = range_owner r then PT_COMPARTMENT_WRITE else PT_COMPARTMENT_READ) 3 y
         else walk 3 (pl_env P) (tables m) (compartment_pagetable_root r) y))"
    (is "if ?bad then _ else _")
proof (cases ?bad)
  case True
  then show ?thesis by (auto simp: page_fault_handler_def Let_def)
next
  case False
  then have "(err AND 0x4) \<noteq> 0" "is_heap_address heap x"
      "get_monza_owner (pl_slot P) x (owners m) = range_owner r \<or>
       (err AND 0x2) = 0 \<and> get_monza_owner (pl_slot P) x (owners m) = null_owner" by blast+
  from compartment_platform.fault_success [OF assms this] show ?thesis unfolding if_not_P [OF False] by blast
qed

theorem page_fault_handler_decides_witness:
  "\<exists>m (r :: MonzaRange) t. page_fault_handler bump_platform bump_heap (range_owner r) 0x10010 (compartment_pagetable_root r) 4 m =
      Some (Inr (m\<lparr>tables := t\<rparr>)) \<and>
    page_fault_handler bump_platform bump_heap (range_owner r) 0x10010 (compartment_pagetable_root r) 0 m = Some (Inl KAbort)"
proof -
  obtain m r1 r2 m1 where m: "mem_ok bump_platform m [r2, r1]" "pt_room 1 (tables m)"
      "get_monza_owner (full_slot (rounding_env 4096)) 0x10010 (owners m) = null_owner"
    using bump_two by (auto simp: pt_room_def get_monza_owner_def split: option.splits)
  have r: "r2 \<in> set [r2, r1]" by simp
  have h: "is_heap_address bump_heap 0x10010"
    by (simp add: is_heap_address_def bump_heap_def overlaps_def byte_range_def span_range_def mk_span_def)
  note d = page_fault_handler_decides [OF bump.compartment_platform_axioms m(1) r m(2), where x="0x10010", unfolded bump_sel]
  have "\<exists>t. page_fault_handler bump_platform bump_heap (range_owner r2) 0x10010 (compartment_pagetable_root r2) 4 m =
      Some (Inr (m\<lparr>tables := t\<rparr>))" using d [of 4] h m(3) by auto
  moreover have "page_fault_handler bump_platform bump_heap (range_owner r2) 0x10010 (compartment_pagetable_root r2) 0 m =
      Some (Inl KAbort)" using d [of 0] by simp
  ultimately show ?thesis by blast
qed

definition user_readable :: "u64 \<Rightarrow> bool" where
  "user_readable e \<longleftrightarrow> (e AND (PTE_PRESENT OR PTE_USER)) = (PTE_PRESENT OR PTE_USER)"

lemma leaf_read_user_readable: "user_readable (leaf_of E False type PT_COMPARTMENT_READ l x)"
  by (simp add: user_readable_def leaf_of_def set_leaf_def pte_bits or.assoc bit.conj_disj_distrib2)

text \<open>A compartment that reads a free heap page keeps its read mapping when an allocation then gives that
  page to another compartment: it can go on reading memory that the other compartment owns.\<close>
theorem read_mapping_outlives_owner_change:
  assumes cp: "compartment_platform P L heap" and ok: "mem_ok P m rs" and r1: "r1 \<in> set rs" and r2: "r2 \<in> set rs"
    and ne: "r1 \<noteq> r2" and room: "pt_room 1 (tables m)"
    and fault: "page_fault_handler P heap (range_owner r1) x (compartment_pagetable_root r1) err m = Some (Inr m1)"
    and free: "get_monza_owner (pl_slot P) x (owners m) = null_owner"
    and room1: "pt_room 1 (tables m1)" and sz: "unat (MIN_OWNERSHIP_SIZE (pl_env P)) dvd unat sz"
    and alloc: "alloc_range P r2 sz m1 = Some (Inr (a, m2))" and a: "a \<noteq> 0" and x: "in_request a sz x"
  shows "get_monza_owner (pl_slot P) x (owners m2) = range_owner r2 \<and>
    user_readable (walk 3 (pl_env P) (tables m2) (compartment_pagetable_root r1) x)"
proof -
  obtain t perm where t: "m1 = m\<lparr>tables := t\<rparr>" "unat x < 2 ^ 48"
      "\<forall>y. unat y < 2 ^ 48 \<longrightarrow> walk 3 (pl_env P) t (compartment_pagetable_root r1) y =
        (if unat y div unat (PAGE_SIZE (pl_env P)) = unat x div unat (PAGE_SIZE (pl_env P))
         then leaf_of (pl_env P) False NORMAL_TYPE perm 3 y
         else walk 3 (pl_env P) (tables m) (compartment_pagetable_root r1) y)"
    and p: "perm = PT_COMPARTMENT_WRITE \<and> get_monza_owner (pl_slot P) x (owners m) = range_owner r1 \<or>
      perm = PT_COMPARTMENT_READ \<and> get_monza_owner (pl_slot P) x (owners m) = null_owner"
    using compartment_platform.fault_run [OF cp ok r1 room fault] by blast
  have "perm = PT_COMPARTMENT_READ" using p free mem_ok_range(2) [OF ok r1] by auto
  then have rd: "user_readable (walk 3 (pl_env P) (tables m1) (compartment_pagetable_root r1) x)"
    using t leaf_read_user_readable by simp
  note ok1 = compartment_platform.fault_ok [OF cp ok r1 room fault]
  note al = compartment_platform.alloc_range_ok [OF cp ok1 r2 room1 sz alloc a]
  have tab: "tables_ok (pl_env P) (tables m1) (kernel_pagetable (tables m1) # map compartment_pagetable_root rs)"
    using ok1 by (simp add: mem_ok_def)
  have "walk 3 (pl_env P) (tables m2) (compartment_pagetable_root r1) x =
      walk 3 (pl_env P) (tables m1) (compartment_pagetable_root r1) x"
    using tables_ok_ext(2) [OF tab mem_ok_range(3) [OF ok1 r2] al(4) mem_ok_range(3) [OF ok1 r1]]
      mem_ok_distinct(2) [OF ok1 r1 r2 ne] by blast
  moreover have "get_monza_owner (pl_slot P) x (owners m2) = range_owner r2"
    using al(3) x by (simp add: owner_effect_def in_request_def)
  ultimately show ?thesis using rd by simp
qed

theorem read_mapping_outlives_owner_change_witness:
  "\<exists>(m :: u64 memory) (r1 :: MonzaRange) (r2 :: MonzaRange). range_owner r1 = 7 \<and> range_owner r2 = 9 \<and>
    get_monza_owner (full_slot (rounding_env 4096)) 0x10010 (owners m) = range_owner r2 \<and>
    user_readable (walk 3 (rounding_env 4096) (tables m) (compartment_pagetable_root r1) 0x10010)"
proof -
  obtain m r1 r2 where m: "mem_ok bump_platform m [r2, r1]" "\<forall>e. entry_owner (owners m) e = null_owner"
      "parent m = 0x10000" "pt_room 2 (tables m)" and o: "range_owner r1 = 7" "range_owner r2 = 9"
    using bump_two by blast
  have r: "r1 \<in> set [r2, r1]" "r2 \<in> set [r2, r1]" and ne: "r1 \<noteq> r2" using o by auto
  have room: "pt_room 1 (tables m)" using m(4) by (simp add: pt_room_def)
  have h: "is_heap_address bump_heap 0x10010"
    by (simp add: is_heap_address_def bump_heap_def overlaps_def byte_range_def span_range_def mk_span_def)
  have free: "get_monza_owner (pl_slot bump_platform) 0x10010 (owners m) = null_owner"
    using m(2) by (simp add: get_monza_owner_def full_slot_def)
  obtain t where t: "page_fault_handler bump_platform bump_heap (range_owner r1) 0x10010 (compartment_pagetable_root r1) 4 m =
      Some (Inr (m\<lparr>tables := t\<rparr>))" "length (pt_nodes t) \<le> length (pt_nodes (tables m)) + nodes_bound 3"
    using bump.fault_success [OF m(1) r(1) room _ h, of 4] free by auto
  let ?m1 = "m\<lparr>tables := t\<rparr>"
  have room1: "pt_room 1 (tables ?m1)" using m(4) t(2) by (simp add: pt_room_def)
  have ok1: "mem_ok bump_platform ?m1 [r2, r1]" by (rule bump.fault_ok [OF m(1) r(1) room t(1)])
  have "parent ?m1 = 0x10000" "\<forall>e. entry_owner (owners ?m1) e = null_owner" using m(2,3) by simp_all
  then obtain m2 where m2: "alloc_range bump_platform r2 0x4000 ?m1 = Some (Inr (0x10000, m2))"
    using bump_alloc_total [OF ok1 r(2) room1] by blast
  have "(0x10000 :: u64) \<noteq> 0" "in_request 0x10000 0x4000 0x10010" by (simp_all add: in_request_def)
  from read_mapping_outlives_owner_change [OF bump.compartment_platform_axioms m(1) r ne room t(1) free room1 bump_granule m2 this] o
  show ?thesis unfolding bump_sel by blast
qed

end
