(* ===== verification/Compartment_Objects.thy ===== *)
theory Compartment_Objects
  imports Compartment_Isolation Thread_Local
begin

unbundle bit_operations_syntax

text \<open>
  Compartment objects: typed compartment memory (\<open>experimental/include/compartment_utils.h\<close>),
  the stack of stacks and construction of \<open>arch_compartment.h\<close>, the callback table and the
  invocation stack of \<open>compartment.h\<close>.  The object range of the allocator (a buddy range
  of snmalloc over \<open>MonzaRange\<close>) and \<open>next_pow2\<close> are parameters.  Template arguments of the
  code (element size, the flags \<open>clear\<close> and \<open>zero_init\<close>, the marker type \<open>NoData\<close>) are
  arguments.  The control block of a compartment lies in the memory of the compartment.
\<close>

record 'p object_range =
  next_pow2 :: "u64 \<Rightarrow> u64"
  object_alloc_range :: "MonzaRange \<Rightarrow> u64 \<Rightarrow> 'p memory \<Rightarrow> (u64 \<times> 'p memory) result option"
  object_dealloc_range :: "MonzaRange \<Rightarrow> u64 \<Rightarrow> u64 \<Rightarrow> 'p memory \<Rightarrow> 'p memory result option"

text \<open>The memory with its bytes.\<close>

record 'p store =
  st_memory :: "'p memory"
  st_bytes :: bytes

record 'v CompartmentErrorOr =
  eo_value :: 'v
  eo_status :: bool

definition compartment_error :: "'v \<Rightarrow> 'v CompartmentErrorOr" where
  "compartment_error dflt = \<lparr>eo_value = dflt, eo_status = False\<rparr>"

definition compartment_value :: "'v \<Rightarrow> 'v CompartmentErrorOr" where
  "compartment_value v = \<lparr>eo_value = v, eo_status = True\<rparr>"

definition get_success :: "'v CompartmentErrorOr \<Rightarrow> bool" where
  "get_success e = eo_status e"

record CompartmentMemory =
  cm_base :: u64
  cm_alloc_size :: u64

definition do_alloc ::
  "'p object_range \<Rightarrow> MonzaRange \<Rightarrow> bool \<Rightarrow> bool \<Rightarrow> u64 \<Rightarrow> u64 \<Rightarrow> 'p store \<Rightarrow> (CompartmentMemory \<times> 'p store) result option" where
  "do_alloc B r clear zero_init alloc_size init_size s =
    run_bind (object_alloc_range B r alloc_size (st_memory s)) (\<lambda>(base, m).
      if base = 0 then Some (Inl KAbort)
      else Some (Inr (\<lparr>cm_base = base, cm_alloc_size = alloc_size\<rparr>,
        s\<lparr>st_memory := m,
          st_bytes := (if clear then memset base 0 alloc_size (st_bytes s)
            else if zero_init then memset base 0 init_size (st_bytes s) else st_bytes s)\<rparr>)))"

definition compartment_memory_single ::
  "env \<Rightarrow> 'p object_range \<Rightarrow> MonzaRange \<Rightarrow> bool \<Rightarrow> bool \<Rightarrow> bool \<Rightarrow> u64 \<Rightarrow> 'p store \<Rightarrow> (CompartmentMemory \<times> 'p store) result option" where
  "compartment_memory_single E B r no_data clear zero_init sizeof_T s =
    (if no_data then Some (Inr (\<lparr>cm_base = 0, cm_alloc_size = 0\<rparr>, s))
     else do_alloc B r clear zero_init (max (next_pow2 B sizeof_T) (MIN_CHUNK_SIZE E)) sizeof_T s)"

definition compartment_memory_array ::
  "env \<Rightarrow> 'p object_range \<Rightarrow> MonzaRange \<Rightarrow> bool \<Rightarrow> bool \<Rightarrow> bool \<Rightarrow> u64 \<Rightarrow> u64 \<Rightarrow> 'p store \<Rightarrow> (CompartmentMemory \<times> 'p store) result option" where
  "compartment_memory_array E B r no_data clear zero_init sizeof_T count s =
    (if no_data then Some (Inr (\<lparr>cm_base = 0, cm_alloc_size = 0\<rparr>, s))
     else if count = 0 then Some (Inr (\<lparr>cm_base = 0, cm_alloc_size = 0\<rparr>, s))
     else do_alloc B r clear zero_init (max (next_pow2 B (count * sizeof_T)) (MIN_CHUNK_SIZE E)) (count * sizeof_T) s)"

definition compartment_memory_move :: "CompartmentMemory \<Rightarrow> CompartmentMemory \<times> CompartmentMemory" where
  "compartment_memory_move source = (source, \<lparr>cm_base = 0, cm_alloc_size = 0\<rparr>)"

definition compartment_memory_destroy ::
  "'p object_range \<Rightarrow> MonzaRange \<Rightarrow> bool \<Rightarrow> CompartmentMemory \<Rightarrow> 'p store \<Rightarrow> 'p store result option" where
  "compartment_memory_destroy B r no_data c s =
    (if no_data then Some (Inr s)
     else if cm_alloc_size c > 0 then
       run_bind (object_dealloc_range B r (cm_base c) (cm_alloc_size c) (st_memory s))
         (\<lambda>m. Some (Inr (s\<lparr>st_memory := m\<rparr>)))
     else Some (Inr s))"

definition compartment_memory_fill :: "u64 \<Rightarrow> u64 \<Rightarrow> u64 \<Rightarrow> CompartmentMemory \<Rightarrow> 'p store \<Rightarrow> bool \<times> 'p store" where
  "compartment_memory_fill sizeof_T source_data source_count c s =
    (let source_size = sizeof_T * source_count in
     if source_size < cm_alloc_size c
     then (True, s\<lparr>st_bytes := memcpy (cm_base c) source_data source_size (st_bytes s)\<rparr>)
     else (False, s))"

text \<open>\<open>span()\<close>: data pointer and number of elements of the element type.\<close>

definition compartment_memory_span :: "CompartmentMemory \<Rightarrow> byte_span" where
  "compartment_memory_span c = mk_span (cm_base c) (cm_alloc_size c)"

text \<open>The word at the linker symbol \<open>__stack_size\<close>.\<close>

definition stack_size :: u64 where
  "stack_size = 0x100000"

text \<open>The compartment object; callbacks are identified by a type parameter.\<close>

record 'c CompartmentBase =
  alloc_local_state :: MonzaRange
  stack_of_stacks :: "CompartmentMemory list"
  is_initial_stack_used :: bool
  tls_memory :: CompartmentMemory
  tls :: u64
  is_valid :: bool
  callbacks :: "'c list"

definition get_owner :: "'c CompartmentBase \<Rightarrow> CompartmentOwner" where
  "get_owner c = range_owner (alloc_local_state c)"

text \<open>
  The constructor: a page table, the allocator state with the address of the object as
  owner, the TLS memory and the first stack.  The list head is the new allocator's.
\<close>

definition compartment_init ::
  "'p platform \<Rightarrow> kernel_layout \<Rightarrow> 'p object_range \<Rightarrow> tls_layout \<Rightarrow> u64 \<Rightarrow> nat \<Rightarrow> 'p store \<Rightarrow>
   ('c CompartmentBase \<times> 'p store) result option" where
  "compartment_init P L B l this h s =
    (case create_compartment_pagetable (pl_env P) (pl_alloc P) L (tables (st_memory s)) of
       None \<Rightarrow> None
     | Some (root, t) \<Rightarrow>
       let m = (st_memory s)\<lparr>tables := t, owners := reset_head h (owners (st_memory s))\<rparr> in
       run_bind (Some (set_owner this root \<lparr>range_head = h, range_owner = null_owner, compartment_pagetable_root = 0\<rparr>)) (\<lambda>r.
       run_bind (compartment_memory_array (pl_env P) B r False False False 1 (get_tls_alloc_size (pl_env P) l)
           (s\<lparr>st_memory := m\<rparr>)) (\<lambda>(tls_mem, s1).
       run_bind (compartment_memory_array (pl_env P) B r False False False 1 stack_size s1) (\<lambda>(stack, s2).
       let (base, bs) = initialize_tls (pl_env P) l this (sdata (compartment_memory_span tls_mem)) 0 0 (st_bytes s2) in
       Some (Inr (\<lparr>alloc_local_state = r, stack_of_stacks = [stack], is_initial_stack_used = False,
         tls_memory = tls_mem, tls = base, is_valid = True, callbacks = []\<rparr>, s2\<lparr>st_bytes := bs\<rparr>))))))"

text \<open>
  The destructor: the stacks from the newest, the TLS memory, then the allocator state, whose
  last reference this is when no other memory of the compartment is alive.
\<close>

primrec destroy_stacks ::
  "'p object_range \<Rightarrow> MonzaRange \<Rightarrow> CompartmentMemory list \<Rightarrow> 'p store \<Rightarrow> 'p store result option" where
  "destroy_stacks B r [] s = Some (Inr s)"
| "destroy_stacks B r (c # cs) s = run_bind (compartment_memory_destroy B r False c s) (destroy_stacks B r cs)"

definition compartment_destroy ::
  "'p platform \<Rightarrow> 'p object_range \<Rightarrow> 'c CompartmentBase \<Rightarrow> 'p store \<Rightarrow> 'p store result option" where
  "compartment_destroy P B c s =
    run_bind (destroy_stacks B (alloc_local_state c) (rev (stack_of_stacks c)) s) (\<lambda>s1.
    run_bind (compartment_memory_destroy B (alloc_local_state c) False (tls_memory c) s1) (\<lambda>s2.
    run_bind (destroy_range P (alloc_local_state c) (st_memory s2)) (\<lambda>m. Some (Inr (s2\<lparr>st_memory := m\<rparr>)))))"

definition set_stack_limits :: "byte_span \<Rightarrow> 'c CompartmentBase \<Rightarrow> 'p store \<Rightarrow> 'p store" where
  "set_stack_limits stack_range c s =
    s\<lparr>st_bytes := store64 (tls c + 16) (sdata stack_range + scount stack_range)
      (store64 (tls c + 8) (sdata stack_range) (st_bytes s))\<rparr>"

text \<open>The newest stack is the last of the list.\<close>

definition get_stack ::
  "env \<Rightarrow> 'p object_range \<Rightarrow> 'c CompartmentBase \<Rightarrow> 'p store \<Rightarrow> (byte_span \<times> 'c CompartmentBase \<times> 'p store) result option" where
  "get_stack E B c s =
    run_bind
      (if length (stack_of_stacks c) = 1 \<and> \<not> is_initial_stack_used c then
         Some (Inr (subspan (compartment_memory_span (hd (stack_of_stacks c))) 0 stack_size,
           c\<lparr>is_initial_stack_used := True\<rparr>, s))
       else
         run_bind (compartment_memory_array E B (alloc_local_state c) False False False 1 stack_size s)
           (\<lambda>(new_stack, s1). Some (Inr (compartment_memory_span new_stack,
             c\<lparr>stack_of_stacks := stack_of_stacks c @ [new_stack]\<rparr>, s1))))
      (\<lambda>(stack_range, c1, s1). Some (Inr (stack_range, c1, set_stack_limits stack_range c1 s1)))"

definition release_stack ::
  "'p object_range \<Rightarrow> 'c CompartmentBase \<Rightarrow> 'p store \<Rightarrow> ('c CompartmentBase \<times> 'p store) result option" where
  "release_stack B c s =
    (if length (stack_of_stacks c) = 1 then Some (Inr (c\<lparr>is_initial_stack_used := False\<rparr>, s))
     else if stack_of_stacks c = [] then Some (Inl Undefined)
     else run_bind (compartment_memory_destroy B (alloc_local_state c) False (last (stack_of_stacks c)) s)
       (\<lambda>s1. Some (Inr (c\<lparr>stack_of_stacks := butlast (stack_of_stacks c)\<rparr>, s1))))"

definition register_callback :: "'c \<Rightarrow> 'c CompartmentBase \<Rightarrow> (CompartmentOwner \<times> nat) \<times> 'c CompartmentBase" where
  "register_callback f c =
    (let index = length (callbacks c) in ((get_owner c, index), c\<lparr>callbacks := callbacks c @ [f]\<rparr>))"

definition get_callback :: "nat \<Rightarrow> 'c CompartmentBase \<Rightarrow> 'c option" where
  "get_callback index c = (if index < length (callbacks c) then Some (callbacks c ! index) else None)"

definition invalidate :: "int \<Rightarrow> 'c CompartmentBase \<Rightarrow> 'c CompartmentBase" where
  "invalidate status c = c\<lparr>is_valid := False\<rparr>"

text \<open>\<open>InvokeScopedStack\<close>: space reserved from the top of the stack range.\<close>

record InvokeScopedStack =
  inv_range :: byte_span
  inv_reserved :: u64

definition span_last :: "byte_span \<Rightarrow> u64 \<Rightarrow> u64" where
  "span_last r n = sdata r + (scount r - n)"

definition stack_reserve :: "env \<Rightarrow> u64 \<Rightarrow> u64 \<Rightarrow> InvokeScopedStack \<Rightarrow> u64 \<times> InvokeScopedStack" where
  "stack_reserve E sizeof_T alignof_T st =
    (let reserved = align_up E (inv_reserved st + sizeof_T) alignof_T in
     (span_last (inv_range st) reserved, st\<lparr>inv_reserved := reserved\<rparr>))"

definition STACK_ALIGNMENT :: u64 where
  "STACK_ALIGNMENT = 16"

definition stack_get :: "env \<Rightarrow> InvokeScopedStack \<Rightarrow> u64" where
  "stack_get E st = align_down E (span_last (inv_range st) (inv_reserved st)) STACK_ALIGNMENT"

text \<open>
  \<open>invoke_typed\<close>: the entry into the compartment is a parameter that is given the place of
  the result and the stack pointer, and says whether the compartment returned normally.
\<close>

definition invoke_typed ::
  "env \<Rightarrow> 'p object_range \<Rightarrow> u64 \<Rightarrow> u64 \<Rightarrow> 'v \<Rightarrow> (u64 \<Rightarrow> 'p store \<Rightarrow> 'v) \<Rightarrow>
   (u64 \<Rightarrow> u64 \<Rightarrow> 'c CompartmentBase \<Rightarrow> 'p store \<Rightarrow> (bool \<times> 'c CompartmentBase \<times> 'p store) result option) \<Rightarrow>
   'c CompartmentBase \<Rightarrow> 'p store \<Rightarrow> ('v CompartmentErrorOr \<times> 'c CompartmentBase \<times> 'p store) result option" where
  "invoke_typed E B sizeof_ret alignof_ret dflt load_ret enter c s =
    (if \<not> is_valid c then Some (Inr (compartment_error dflt, c, s))
     else
       run_bind (get_stack E B c s) (\<lambda>(rng, c1, s1).
         let (compartment_ret, st) = stack_reserve E sizeof_ret alignof_ret \<lparr>inv_range = rng, inv_reserved = 0\<rparr> in
         run_bind (enter compartment_ret (stack_get E st) c1 s1) (\<lambda>(ret, c2, s2).
           let v = (if \<not> ret then compartment_error dflt else compartment_value (load_ret compartment_ret s2)) in
           run_bind (release_stack B c2 s2) (\<lambda>(c3, s3). Some (Inr (v, c3, s3))))))"

text \<open>What the code relies on of the object range: sizes are rounded up to powers of two, and a block is page aligned and does not wrap.\<close>

locale object_allocator = snmalloc_env E for E :: env +
  fixes B :: "'p object_range"
  assumes next_pow2_ge: "unat n \<le> 2 ^ 63 \<Longrightarrow> unat n \<le> unat (next_pow2 B n)"
    and next_pow2_pow2: "0 < n \<Longrightarrow> unat n \<le> 2 ^ 63 \<Longrightarrow> pow2 (next_pow2 B n)"
    and object_block: "object_alloc_range B r sz m = Some (Inr (a, m')) \<Longrightarrow> a \<noteq> 0 \<Longrightarrow> pow2 sz \<Longrightarrow>
      unat (MIN_CHUNK_SIZE E) \<le> unat sz \<Longrightarrow> 4096 dvd unat a \<and> unat a + unat sz < 2 ^ 64"

definition stack_memory_ok :: "CompartmentMemory \<Rightarrow> bool" where
  "stack_memory_ok c \<longleftrightarrow> 4096 dvd unat (cm_base c) \<and> 4096 dvd unat (cm_alloc_size c) \<and>
    unat stack_size \<le> unat (cm_alloc_size c) \<and> unat (cm_base c) + unat (cm_alloc_size c) < 2 ^ 64"

definition stacks_ok :: "'c CompartmentBase \<Rightarrow> bool" where
  "stacks_ok c \<longleftrightarrow> stack_of_stacks c \<noteq> [] \<and> list_all stack_memory_ok (stack_of_stacks c) \<and>
    (\<not> is_initial_stack_used c \<longrightarrow> length (stack_of_stacks c) = 1)"

text \<open>The number of invocations that hold a stack.\<close>

definition stack_depth :: "'c CompartmentBase \<Rightarrow> nat" where
  "stack_depth c = (if is_initial_stack_used c then length (stack_of_stacks c) else 0)"

context object_allocator
begin

lemma array_block:
  assumes run: "compartment_memory_array E B r False clear zero 1 n s = Some (Inr (c, s'))"
    and n: "0 < n" "unat n \<le> 2 ^ 63"
  shows "4096 dvd unat (cm_base c)" "4096 dvd unat (cm_alloc_size c)" "unat n \<le> unat (cm_alloc_size c)"
    "unat (cm_base c) + unat (cm_alloc_size c) < 2 ^ 64"
proof -
  define sz where "sz = max (next_pow2 B n) (MIN_CHUNK_SIZE E)"
  have p: "pow2 sz" using next_pow2_pow2 [OF n] chunk_size_pow2 by (simp add: sz_def max_def)
  have ge: "unat (MIN_CHUNK_SIZE E) \<le> unat sz" "unat n \<le> unat sz"
    using next_pow2_ge [OF n(2)] by (auto simp: sz_def max_def word_nat)
  obtain a m where a: "object_alloc_range B r sz (st_memory s) = Some (Inr (a, m))" "a \<noteq> 0"
      and c: "c = \<lparr>cm_base = a, cm_alloc_size = sz\<rparr>"
    using run n(1) unfolding compartment_memory_array_def do_alloc_def sz_def
    by (auto simp: run_bind_ok_iff split: if_splits)
  obtain k where k: "12 \<le> k" "k \<le> 32" "MIN_CHUNK_SIZE E = 2 ^ k" using chunk_size by blast
  have "4096 dvd unat (MIN_CHUNK_SIZE E)"
    using k unat_pow2_word [of k] le_imp_power_dvd [OF k(1), of "2 :: nat"] by simp
  then have "4096 dvd unat sz" using pow2_dvd [OF chunk_size_pow2 p ge(1)] by (rule dvd_trans)
  then show "4096 dvd unat (cm_base c)" "4096 dvd unat (cm_alloc_size c)" "unat n \<le> unat (cm_alloc_size c)"
    "unat (cm_base c) + unat (cm_alloc_size c) < 2 ^ 64"
    using object_block [OF a p ge(1)] ge(2) by (simp_all add: c)
qed

lemma get_stack_ok:
  assumes ok: "stacks_ok c" and run: "get_stack E B c s = Some (Inr (rng, c', s'))"
  shows "stacks_ok c'" and "is_initial_stack_used c'" and "stack_depth c' = Suc (stack_depth c)"
    and "stack_of_stacks c' = (if is_initial_stack_used c then stack_of_stacks c @ [last (stack_of_stacks c')] else stack_of_stacks c)"
    and "alloc_local_state c' = alloc_local_state c \<and> is_valid c' = is_valid c \<and> callbacks c' = callbacks c \<and> tls c' = tls c"
    and "sdata rng = cm_base (last (stack_of_stacks c'))"
    and "unat stack_size \<le> unat (scount rng) \<and> unat (scount rng) \<le> unat (cm_alloc_size (last (stack_of_stacks c')))"
    and "4096 dvd unat (scount rng)"
    and "load64 (tls c + 8) (st_bytes s') = sdata rng \<and> load64 (tls c + 16) (st_bytes s') = sdata rng + scount rng"
proof -
  have pos: "0 < stack_size" "unat stack_size \<le> 2 ^ 63" by (simp_all add: stack_size_def)
  consider (first) "\<not> is_initial_stack_used c" "length (stack_of_stacks c) = 1" "c' = c\<lparr>is_initial_stack_used := True\<rparr>"
      "rng = mk_span (cm_base (hd (stack_of_stacks c))) stack_size"
    | (new) n s1 where "is_initial_stack_used c" "c' = c\<lparr>stack_of_stacks := stack_of_stacks c @ [n]\<rparr>"
      "compartment_memory_array E B (alloc_local_state c) False False False 1 stack_size s = Some (Inr (n, s1))"
      "rng = mk_span (cm_base n) (cm_alloc_size n)"
    using run ok unfolding get_stack_def stacks_ok_def
    by (auto simp: run_bind_ok_iff subspan_def compartment_memory_span_def mk_span_def split: if_splits)
  then have shape: "stacks_ok c' \<and> is_initial_stack_used c' \<and> stack_depth c' = Suc (stack_depth c) \<and>
      stack_of_stacks c' = (if is_initial_stack_used c then stack_of_stacks c @ [last (stack_of_stacks c')] else stack_of_stacks c) \<and>
      (alloc_local_state c' = alloc_local_state c \<and> is_valid c' = is_valid c \<and> callbacks c' = callbacks c \<and> tls c' = tls c) \<and>
      sdata rng = cm_base (last (stack_of_stacks c')) \<and>
      (unat stack_size \<le> unat (scount rng) \<and> unat (scount rng) \<le> unat (cm_alloc_size (last (stack_of_stacks c')))) \<and>
      4096 dvd unat (scount rng)"
  proof cases
    case first
    obtain x where x: "stack_of_stacks c = [x]" using first(2) by (auto simp: length_Suc_conv)
    show ?thesis using ok first x
      by (simp add: stacks_ok_def stack_depth_def mk_span_def stack_memory_ok_def) (simp add: stack_size_def)
  next
    case new
    have "stack_memory_ok n" using array_block [OF new(3) pos] by (simp add: stack_memory_ok_def)
    then show ?thesis using ok new by (simp add: stacks_ok_def stack_depth_def mk_span_def stack_memory_ok_def)
  qed
  then show "stacks_ok c'" "is_initial_stack_used c'" "stack_depth c' = Suc (stack_depth c)"
    "stack_of_stacks c' = (if is_initial_stack_used c then stack_of_stacks c @ [last (stack_of_stacks c')] else stack_of_stacks c)"
    "alloc_local_state c' = alloc_local_state c \<and> is_valid c' = is_valid c \<and> callbacks c' = callbacks c \<and> tls c' = tls c"
    "sdata rng = cm_base (last (stack_of_stacks c'))"
    "unat stack_size \<le> unat (scount rng) \<and> unat (scount rng) \<le> unat (cm_alloc_size (last (stack_of_stacks c')))"
    "4096 dvd unat (scount rng)" by blast+
  have "\<exists>s1. s' = set_stack_limits rng c' s1" using run unfolding get_stack_def by (auto simp: run_bind_ok_iff)
  moreover have "tls c' = tls c" using shape by blast
  ultimately show "load64 (tls c + 8) (st_bytes s') = sdata rng \<and> load64 (tls c + 16) (st_bytes s') = sdata rng + scount rng"
    by (auto simp: set_stack_limits_def load64_store64_other)
qed

end

lemma release_stack_ok:
  assumes ok: "stacks_ok c" and used: "is_initial_stack_used c"
    and run: "release_stack B c s = Some (Inr (c', s'))"
  shows "stacks_ok c'" and "stack_depth c' = stack_depth c - 1" and "st_bytes s' = st_bytes s"
    and "length (stack_of_stacks c) = 1 \<Longrightarrow> stack_of_stacks c' = stack_of_stacks c \<and> \<not> is_initial_stack_used c'"
    and "length (stack_of_stacks c) \<noteq> 1 \<Longrightarrow> stack_of_stacks c' = butlast (stack_of_stacks c) \<and> is_initial_stack_used c'"
proof -
  have "(length (stack_of_stacks c) = 1 \<and> c' = c\<lparr>is_initial_stack_used := False\<rparr> \<or>
      length (stack_of_stacks c) \<noteq> 1 \<and> c' = c\<lparr>stack_of_stacks := butlast (stack_of_stacks c)\<rparr>) \<and> st_bytes s' = st_bytes s"
    using run unfolding release_stack_def compartment_memory_destroy_def
    by (auto simp: run_bind_ok_iff split: if_splits)
  moreover have "butlast (stack_of_stacks c) \<noteq> []" if "length (stack_of_stacks c) \<noteq> 1"
    using ok that unfolding stacks_ok_def by (metis One_nat_def append_butlast_last_id append_self_conv2 length_Cons list.size(3))
  moreover have "list_all stack_memory_ok (butlast (stack_of_stacks c))"
    using ok unfolding stacks_ok_def list_all_iff by (auto dest: in_set_butlastD)
  ultimately show "stacks_ok c'" "stack_depth c' = stack_depth c - 1" "st_bytes s' = st_bytes s"
    "length (stack_of_stacks c) = 1 \<Longrightarrow> stack_of_stacks c' = stack_of_stacks c \<and> \<not> is_initial_stack_used c'"
    "length (stack_of_stacks c) \<noteq> 1 \<Longrightarrow> stack_of_stacks c' = butlast (stack_of_stacks c) \<and> is_initial_stack_used c'"
    using ok used by (auto simp: stacks_ok_def stack_depth_def)
qed

text \<open>Where an invocation puts the result and the stack pointer: inside the newest stack, result above the stack pointer, both aligned, and the control block describes that stack.\<close>

definition invoke_place_ok :: "u64 \<Rightarrow> u64 \<Rightarrow> u64 \<Rightarrow> u64 \<Rightarrow> 'c CompartmentBase \<Rightarrow> 'p store \<Rightarrow> bool" where
  "invoke_place_ok sizeof_ret alignof_ret ret sp c s \<longleftrightarrow>
    (let k = last (stack_of_stacks c) in
     unat (cm_base k) \<le> unat sp \<and> unat sp \<le> unat ret \<and>
     unat ret + unat sizeof_ret \<le> unat (cm_base k) + unat (cm_alloc_size k) \<and>
     16 dvd unat sp \<and> unat alignof_ret dvd unat ret \<and>
     load64 (tls c + 8) (st_bytes s) = cm_base k \<and>
     unat ret + unat sizeof_ret \<le> unat (load64 (tls c + 16) (st_bytes s)))"

context object_allocator
begin

lemma reserve_place:
  assumes ok: "stacks_ok c" and get: "get_stack E B c s = Some (Inr (rng, c', s'))"
    and al: "pow2 alignof_ret" "unat alignof_ret \<le> 4096"
    and fits: "up_to (unat alignof_ret) (unat sizeof_ret) + 16 \<le> unat stack_size"
    and res: "stack_reserve E sizeof_ret alignof_ret \<lparr>inv_range = rng, inv_reserved = 0\<rparr> = (ret, st)"
  shows "invoke_place_ok sizeof_ret alignof_ret ret (stack_get E st) c' s'"
proof -
  note g = get_stack_ok [OF ok get]
  let ?k = "last (stack_of_stacks c')"
  have k: "stack_memory_ok ?k" using g(1) unfolding stacks_ok_def list_all_iff by (meson last_in_set)
  have fitsn: "up_to (unat alignof_ret) (unat sizeof_ret) + 16 \<le> 0x100000" using fits by (simp add: stack_size_def)
  have sz: "unat sizeof_ret \<le> up_to (unat alignof_ret) (unat sizeof_ret)" by (rule up_to_ge [OF pow2_pos [OF al(1)]])
  define res where "res = align_up E sizeof_ret alignof_ret"
  have ures: "unat res = up_to (unat alignof_ret) (unat sizeof_ret)"
    using al sz fitsn unfolding res_def by (intro align_up) simp_all
  have ret: "ret = sdata rng + (scount rng - res)" and st: "inv_range st = rng" "inv_reserved st = res"
    using res by (auto simp: stack_reserve_def Let_def span_last_def res_def)
  have bound: "unat (sdata rng) + unat (scount rng) < 2 ^ 64" "unat res + 16 \<le> unat (scount rng)"
    using g(6,7) k fits ures unfolding stack_memory_ok_def by simp_all
  have "unat (scount rng - res) = unat (scount rng) - unat res" using bound by (simp add: unat_sub64)
  then have uret: "unat ret = unat (sdata rng) + (unat (scount rng) - unat res)"
    using bound unfolding ret by (subst unat_add64) simp_all
  have uend: "unat (sdata rng + scount rng) = unat (sdata rng) + unat (scount rng)"
    using bound(1) by (rule unat_add64)
  have base: "4096 dvd unat (sdata rng)" using k g(6) by (simp add: stack_memory_ok_def)
  have "unat alignof_ret dvd 4096" using pow2_dvd [OF al(1) pow2_pages(1)] al(2) by simp
  then have "unat alignof_ret dvd unat (sdata rng)" "unat alignof_ret dvd unat (scount rng)"
    using base g(8) by (auto intro: dvd_trans)
  then have aligned: "unat alignof_ret dvd unat ret"
    unfolding uret by (intro dvd_add dvd_diff_nat) (simp_all add: ures)
  have p16: "pow2 STACK_ALIGNMENT" unfolding STACK_ALIGNMENT_def by (rule pow2I [of 4]) simp_all
  have sp: "unat (stack_get E st) = down_to 16 (unat ret)"
    using align_down [OF p16, of ret] by (simp add: stack_get_def st span_last_def ret STACK_ALIGNMENT_def)
  have "16 dvd unat (sdata rng)" using base by (rule dvd_trans [rotated]) simp
  then have "unat (sdata rng) \<le> down_to 16 (unat ret)" by (rule down_to_greatest) (simp add: uret)
  moreover have "unat ret + unat sizeof_ret \<le> unat (sdata rng) + unat (scount rng)"
    using uret bound sz ures by linarith
  ultimately show ?thesis
    using g(5-7,9) sp aligned down_to_le [of 16 "unat ret"] uend
    unfolding invoke_place_ok_def Let_def by auto
qed

end


text \<open>The object range without caching: every request goes to the compartment range.\<close>

definition round_pow2 :: "u64 \<Rightarrow> u64" where
  "round_pow2 n = 2 ^ length (takeWhile (\<lambda>k. 2 ^ k < n) [0..<64])"

definition direct_range :: "'p platform \<Rightarrow> 'p object_range" where
  "direct_range P = \<lparr>next_pow2 = round_pow2, object_alloc_range = alloc_range P, object_dealloc_range = dealloc_range P\<rparr>"

lemma round_pow2_ok:
  assumes "unat n \<le> 2 ^ 63"
  shows "unat n \<le> unat (round_pow2 n)" and "pow2 (round_pow2 n)"
proof -
  define k where "k = length (takeWhile (\<lambda>k. 2 ^ k < n) [0..<64])"
  have le: "\<not> (2 ^ 63 :: u64) < n" using assms by (simp add: word_less_nat)
  have "k < 64"
  proof (rule ccontr)
    assume "\<not> k < 64"
    then have "takeWhile (\<lambda>k. 2 ^ k < n) [0..<64] = [0..<64]"
      using length_takeWhile_le [of "\<lambda>k. 2 ^ k < n" "[0..<64]"] takeWhile_eq_take [of "\<lambda>k. 2 ^ k < n" "[0..<64]"] by (simp add: k_def)
    then have "\<forall>j \<in> set [0..<64]. 2 ^ j < n" by (simp only: takeWhile_eq_all_conv)
    from bspec [OF this, of 63] show False using le by simp
  qed
  then have "\<not> 2 ^ ([0..<64] ! k) < n"
    using nth_length_takeWhile [of "\<lambda>k. 2 ^ k < n" "[0..<64]"] by (simp add: k_def)
  then have "n \<le> round_pow2 n" using \<open>k < 64\<close> unfolding round_pow2_def k_def [symmetric] by simp
  then show "unat n \<le> unat (round_pow2 n)" by (simp add: word_le_nat)
  show "pow2 (round_pow2 n)" using \<open>k < 64\<close> by (intro pow2I [of k]) (simp_all add: round_pow2_def k_def)
qed

lemma direct_sel [simp]:
  "next_pow2 (direct_range P) = round_pow2" "object_alloc_range (direct_range P) = alloc_range P"
  "object_dealloc_range (direct_range P) = dealloc_range P"
  by (simp_all add: direct_range_def)

lemma alloc_range_result:
  "alloc_range P r sz m = Some (Inr (a, m')) \<Longrightarrow> a = fst (parent_alloc_range P sz (parent m))"
  by (auto simp: alloc_range_def Let_def run_bind_ok_iff split: prod.splits if_splits)

interpretation direct: object_allocator "rounding_env 4096" "direct_range bump_platform"
proof
  show "unat n \<le> unat (next_pow2 (direct_range bump_platform) n)" if "unat n \<le> 2 ^ 63" for n
    using round_pow2_ok(1) [OF that] by simp
  show "pow2 (next_pow2 (direct_range bump_platform) n)" if "0 < n" "unat n \<le> 2 ^ 63" for n
    using round_pow2_ok(2) [OF that(2)] by simp
next
  fix r sz m a m'
  assume "object_alloc_range (direct_range bump_platform) r sz m = Some (Inr (a, m'))" "a \<noteq> 0"
  then have "a = fst (bump_alloc sz (parent m))" "a \<noteq> 0" using alloc_range_result by force+
  then have q: "a AND (0x4000 - 1) = 0" "unat a + unat sz \<le> 2 ^ 48"
    by (auto simp: bump_alloc_def split: if_splits)
  have "pow2 0x4000" by (rule pow2I [of 14]) simp_all
  from and_pow2_minus_1 [OF this, of a] q(1) have "unat (0x4000 :: u64) dvd unat a" by blast
  then have "4096 dvd unat a" by (rule dvd_trans [rotated]) simp
  then show "4096 dvd unat a \<and> unat a + unat sz < 2 ^ 64" using q(2) by simp
qed

lemma direct_allocator: "object_allocator (rounding_env 4096) (direct_range bump_platform)"
  by (rule direct.object_allocator_axioms)

definition sample_compartment :: "nat CompartmentBase" where
  "sample_compartment = \<lparr>alloc_local_state = \<lparr>range_head = 0, range_owner = 7, compartment_pagetable_root = 0x1000\<rparr>,
     stack_of_stacks = [\<lparr>cm_base = 0x400000, cm_alloc_size = 0x100000\<rparr>], is_initial_stack_used = False,
     tls_memory = \<lparr>cm_base = 0x200000, cm_alloc_size = 0x4000\<rparr>, tls = 0x203000, is_valid = True, callbacks = []\<rparr>"

definition sample_store :: "u64 store" where
  "sample_store = \<lparr>st_memory = \<lparr>owners = ownership_init, tables = sample_pt, parent = 0x1000000\<rparr>, st_bytes = (\<lambda>_. 0)\<rparr>"

lemma sample_stacks_ok: "stacks_ok sample_compartment"
  by (simp add: stacks_ok_def sample_compartment_def stack_memory_ok_def stack_size_def)

text \<open>An entry that stores its stack pointer as the result.\<close>

definition sample_enter :: "u64 \<Rightarrow> u64 \<Rightarrow> nat CompartmentBase \<Rightarrow> u64 store \<Rightarrow> (bool \<times> nat CompartmentBase \<times> u64 store) result option" where
  "sample_enter ret sp c s = Some (Inr (True, c, s\<lparr>st_bytes := store64 ret sp (st_bytes s)\<rparr>))"


context object_allocator
begin

lemma invoke_balanced:
  assumes ok: "stacks_ok c"
    and enter: "\<And>ret sp c1 s1 b c2 s2. enter ret sp c1 s1 = Some (Inr (b, c2, s2)) \<Longrightarrow>
      stack_of_stacks c2 = stack_of_stacks c1 \<and> is_initial_stack_used c2 = is_initial_stack_used c1"
    and run: "invoke_typed E B sizeof_ret alignof_ret dflt load_ret enter c s = Some (Inr (v, c', s'))"
    and valid: "is_valid c"
  shows "stack_of_stacks c' = stack_of_stacks c \<and> is_initial_stack_used c' = is_initial_stack_used c"
proof -
  obtain rng c1 s1 where g: "get_stack E B c s = Some (Inr (rng, c1, s1))"
    and rest: "(case stack_reserve E sizeof_ret alignof_ret \<lparr>inv_range = rng, inv_reserved = 0\<rparr> of (ret, st) \<Rightarrow>
      run_bind (enter ret (stack_get E st) c1 s1) (\<lambda>(b, c2, s2).
        let v = (if \<not> b then compartment_error dflt else compartment_value (load_ret ret s2)) in
        run_bind (release_stack B c2 s2) (\<lambda>(c3, s3). Some (Inr (v, c3, s3))))) = Some (Inr (v, c', s'))"
    using run valid unfolding invoke_typed_def Let_def by (auto simp: run_bind_ok_iff)
  obtain ret sp b c2 s2 where e: "enter ret sp c1 s1 = Some (Inr (b, c2, s2))"
    and rel: "release_stack B c2 s2 = Some (Inr (c', s'))"
    using rest by (auto simp: run_bind_ok_iff Let_def split: prod.splits)
  note g' = get_stack_ok [OF ok g]
  have same: "stack_of_stacks c2 = stack_of_stacks c1" "is_initial_stack_used c2" and ok2: "stacks_ok c2"
    using enter [OF e] g'(1,2) by (simp_all add: stacks_ok_def)
  note r = release_stack_ok(4,5) [OF ok2 same(2) rel]
  show ?thesis
  proof (cases "is_initial_stack_used c")
    case True
    then have "stack_of_stacks c2 = stack_of_stacks c @ [last (stack_of_stacks c1)]" using g'(4) same(1) by simp
    moreover have "stack_of_stacks c \<noteq> []" using ok by (simp add: stacks_ok_def)
    ultimately show ?thesis using r(2) True by simp
  next
    case False
    then have "stack_of_stacks c2 = stack_of_stacks c" "length (stack_of_stacks c) = 1"
      using g'(4) same(1) ok by (simp_all add: stacks_ok_def)
    then show ?thesis using r(1) False by simp
  qed
qed

end

text \<open>
  C21: an invocation is balanced: when what runs inside leaves the stacks as it found
  them (as nested invocations do), the compartment has the same stacks and the same use of
  the first stack afterwards.  An invalid compartment is not entered: the call reports an
  error and changes nothing.
\<close>

theorem invoke_typed_balanced:
  assumes "object_allocator E B" and "stacks_ok c"
    and "\<And>ret sp c1 s1 b c2 s2. enter ret sp c1 s1 = Some (Inr (b, c2, s2)) \<Longrightarrow>
      stack_of_stacks c2 = stack_of_stacks c1 \<and> is_initial_stack_used c2 = is_initial_stack_used c1"
    and "invoke_typed E B sizeof_ret alignof_ret dflt load_ret enter c s = Some (Inr (v, c', s'))"
  shows "if is_valid c then stack_of_stacks c' = stack_of_stacks c \<and>
      is_initial_stack_used c' = is_initial_stack_used c
    else \<not> get_success v \<and> c' = c \<and> s' = s"
proof (cases "is_valid c")
  case True
  then show ?thesis using object_allocator.invoke_balanced [OF assms] by simp
next
  case False
  then show ?thesis using assms(4) by (auto simp: invoke_typed_def get_success_def compartment_error_def)
qed

theorem invoke_typed_balanced_witness:
  "\<exists>v c' s'. invoke_typed (rounding_env 4096) (direct_range bump_platform) 24 8 0 (\<lambda>p s. load64 p (st_bytes s))
      sample_enter sample_compartment sample_store = Some (Inr (v, c', s')) \<and>
    stack_of_stacks c' = [\<lparr>cm_base = 0x400000, cm_alloc_size = 0x100000\<rparr>] \<and> \<not> is_initial_stack_used c' \<and> get_success v"
proof -
  let ?run = "invoke_typed (rounding_env 4096) (direct_range bump_platform) 24 8 0 (\<lambda>p s. load64 p (st_bytes s))
      sample_enter sample_compartment sample_store"
  obtain v c' s' where run: "?run = Some (Inr (v, c', s'))" "get_success v"
    by (simp add: invoke_typed_def get_stack_def sample_compartment_def subspan_def mk_span_def stack_size_def
      compartment_memory_span_def stack_reserve_def span_last_def stack_get_def STACK_ALIGNMENT_def sample_enter_def
      release_stack_def set_stack_limits_def sample_store_def compartment_value_def get_success_def)
  have keep: "stack_of_stacks c2 = stack_of_stacks c1 \<and> is_initial_stack_used c2 = is_initial_stack_used c1"
    if "sample_enter ret sp c1 s1 = Some (Inr (b, c2, s2))" for ret sp c1 s1 b c2 s2
    using that by (auto simp: sample_enter_def)
  from invoke_typed_balanced [OF direct_allocator sample_stacks_ok keep run(1)]
  show ?thesis using run by (simp add: sample_compartment_def)
qed

end
