(* ===== verification/Compartment_Switch.thy ===== *)
theory Compartment_Switch
  imports Compartment_Objects
begin

text \<open>
  The transitions between the kernel and a compartment (\<open>arch/x86_64/compartment.asm\<close>).  The
  machine has the registers the code saves and switches, the word \<open>last_stack_ptr\<close> of the
  thread execution context, and the kernel stack as a memory of 8-byte words.  The
  compartment's own memory is separate: the flags that \<open>kernel_enter\<close> pushes go to the stack of
  the compartment, through the page table of the compartment, which does not make
  the kernel stack writable.  Ring 3 code may set its registers and its TLS base to anything.
\<close>

record machine =
  m_rsp :: u64
  m_cr3 :: u64
  m_fs :: u64
  m_ring3 :: bool
  m_last_sp :: u64
  m_regs :: "u64 list"
  m_flags :: u64
  m_kmem :: "u64 \<Rightarrow> u64"

text \<open>The kernel's page table and TLS pointer, and the two fields of each compartment object the code reads.\<close>

record switch_env =
  kernel_cr3 :: u64
  kernel_tls :: u64
  comp_pagetable :: "u64 \<Rightarrow> u64"
  comp_tls :: "u64 \<Rightarrow> u64"

definition CLEAN_RFLAGS :: u64 where
  "CLEAN_RFLAGS = 0x202"

definition REGS_END :: u64 where
  "REGS_END = 0x30"

text \<open>The registers RBX, RBP, R12, R13, R14 and R15, in the order of their offsets.\<close>

definition save_registers :: "machine \<Rightarrow> machine" where
  "save_registers m =
    (let sp = m_rsp m - REGS_END; k = m_kmem m; r = m_regs m in
     m\<lparr>m_rsp := sp, m_kmem := k(sp := r ! 0, sp + 8 := r ! 1, sp + 0x10 := r ! 2, sp + 0x18 := r ! 3, sp + 0x20 := r ! 4, sp + 0x28 := r ! 5)\<rparr>)"

definition restore_registers :: "machine \<Rightarrow> machine" where
  "restore_registers m =
    (let sp = m_rsp m; k = m_kmem m in
     m\<lparr>m_regs := [k sp, k (sp + 8), k (sp + 0x10), k (sp + 0x18), k (sp + 0x20), k (sp + 0x28)], m_rsp := sp + REGS_END\<rparr>)"

definition push :: "u64 \<Rightarrow> machine \<Rightarrow> machine" where
  "push v m = m\<lparr>m_rsp := m_rsp m - 8, m_kmem := (m_kmem m)(m_rsp m - 8 := v)\<rparr>"

definition pop :: "machine \<Rightarrow> u64 \<times> machine" where
  "pop m = (m_kmem m (m_rsp m), m\<lparr>m_rsp := m_rsp m + 8\<rparr>)"

definition save_kernel_state :: "u64 \<Rightarrow> u64 \<Rightarrow> machine \<Rightarrow> machine" where
  "save_kernel_state last_sp self m = push self (push last_sp (push (m_flags m) (save_registers m)))"

definition restore_kernel_state :: "machine \<Rightarrow> u64 \<times> u64 \<times> machine" where
  "restore_kernel_state m =
    (let (self, m1) = pop m; (last_sp, m2) = pop m1; (flags, m3) = pop m2 in
     (last_sp, self, restore_registers (m3\<lparr>m_flags := flags\<rparr>)))"

definition get_compartment_from_state :: "machine \<Rightarrow> u64" where
  "get_compartment_from_state m = m_kmem m (m_rsp m)"

definition compartment_enter :: "switch_env \<Rightarrow> u64 \<Rightarrow> u64 \<Rightarrow> machine \<Rightarrow> machine" where
  "compartment_enter K sp self m =
    (let m1 = save_kernel_state (m_last_sp m) self m in
     m1\<lparr>m_last_sp := m_rsp m1, m_fs := comp_tls K self, m_cr3 := comp_pagetable K self,
       m_flags := CLEAN_RFLAGS, m_ring3 := True, m_rsp := sp - 8\<rparr>)"

definition compartment_resume :: "switch_env \<Rightarrow> u64 \<Rightarrow> u64 \<Rightarrow> machine \<Rightarrow> machine" where
  "compartment_resume K sp self m =
    m\<lparr>m_fs := comp_tls K self, m_cr3 := comp_pagetable K self, m_flags := CLEAN_RFLAGS, m_ring3 := True, m_rsp := sp + 16\<rparr>"

text \<open>\<open>abort_kernel_callback\<close> up to its \<open>ret\<close>: the compartment to report to, and the machine that returns 0 from \<open>compartment_enter\<close>.\<close>

definition abort_kernel_callback :: "machine \<Rightarrow> u64 \<times> machine" where
  "abort_kernel_callback m =
    (let (last_sp, self, m1) = restore_kernel_state (m\<lparr>m_rsp := m_last_sp m\<rparr>) in
     (self, m1\<lparr>m_last_sp := last_sp\<rparr>))"

datatype handler = HandleAllocChunk | HandleAllocMetaData | HandleDeallocChunk | HandleCallback

text \<open>How \<open>kernel_enter\<close> goes on: out of \<open>compartment_enter\<close> with 1, into a handler for a compartment, or out with 0 after reporting the exit.\<close>

datatype kernel_entry = EntryReturn machine | EntryHandler handler u64 machine | EntryExit u64 machine

definition kernel_enter :: "switch_env \<Rightarrow> u64 \<Rightarrow> machine \<Rightarrow> kernel_entry" where
  "kernel_enter K reason m =
    (let r11 = m_rsp m - 8;
         m1 = m\<lparr>m_cr3 := kernel_cr3 K, m_rsp := m_last_sp m, m_fs := kernel_tls K, m_ring3 := False\<rparr>;
         handle = (\<lambda>h. EntryHandler h (get_compartment_from_state m1) (push r11 m1)) in
     if reason = 1 then
       (let (last_sp, self, m2) = restore_kernel_state m1 in EntryReturn (m2\<lparr>m_last_sp := last_sp\<rparr>))
     else if reason = 2 then handle HandleAllocChunk
     else if reason = 3 then handle HandleAllocMetaData
     else if reason = 4 then handle HandleDeallocChunk
     else if reason = 5 then handle HandleCallback
     else (let (last_sp, self, m2) = restore_kernel_state m1 in EntryExit self (m2\<lparr>m_last_sp := last_sp\<rparr>)))"

definition handler_finish :: "switch_env \<Rightarrow> machine \<Rightarrow> machine" where
  "handler_finish K m = (let (r11, m1) = pop m in compartment_resume K r11 (get_compartment_from_state m1) m1)"

text \<open>
  The pending invocations of a core, newest first: the compartment and the kernel state at the
  call of \<open>compartment_enter\<close>.  Kernel code in between moves its stack pointer and writes
  below the frame of the handler it runs in; compartment code changes registers only.
\<close>

record invocation =
  inv_self :: u64
  inv_rsp :: u64
  inv_regs :: "u64 list"
  inv_flags :: u64
  inv_last :: u64

definition invocation_of :: "u64 \<Rightarrow> machine \<Rightarrow> invocation" where
  "invocation_of self m = \<lparr>inv_self = self, inv_rsp = m_rsp m, inv_regs = m_regs m, inv_flags = m_flags m, inv_last = m_last_sp m\<rparr>"

definition below_frame :: "machine \<Rightarrow> invocation list \<Rightarrow> bool" where
  "below_frame m ivs \<longleftrightarrow> length (m_regs m) = 6 \<and> (ivs = [] \<or> unat (m_rsp m) + 8 \<le> unat (m_last_sp m))"

inductive switch_step :: "switch_env \<Rightarrow> machine \<times> invocation list \<Rightarrow> machine \<times> invocation list \<Rightarrow> bool"
  for K where
  work: "\<not> m_ring3 m \<Longrightarrow> below_frame m' ivs \<Longrightarrow>
    m' = m\<lparr>m_rsp := m_rsp m', m_regs := m_regs m', m_flags := m_flags m', m_kmem := m_kmem m'\<rparr> \<Longrightarrow>
    (\<And>x. ivs \<noteq> [] \<Longrightarrow> unat (m_last_sp m) \<le> unat x + 8 \<Longrightarrow> m_kmem m' x = m_kmem m x) \<Longrightarrow>
    switch_step K (m, ivs) (m', ivs)"
| user: "m_ring3 m \<Longrightarrow> length regs = 6 \<Longrightarrow>
    switch_step K (m, ivs) (m\<lparr>m_rsp := sp, m_fs := fs, m_regs := regs, m_flags := flags\<rparr>, ivs)"
| enter: "\<not> m_ring3 m \<Longrightarrow> below_frame m ivs \<Longrightarrow> 0x50 \<le> unat (m_rsp m) \<Longrightarrow>
    switch_step K (m, ivs) (compartment_enter K sp self m, invocation_of self m # ivs)"
| ret: "m_ring3 m \<Longrightarrow> kernel_enter K reason m = EntryReturn m' \<Longrightarrow> switch_step K (m, i # ivs) (m', ivs)"
| exit: "m_ring3 m \<Longrightarrow> kernel_enter K reason m = EntryExit self m' \<Longrightarrow> switch_step K (m, i # ivs) (m', ivs)"
| handle: "m_ring3 m \<Longrightarrow> kernel_enter K reason m = EntryHandler h self m' \<Longrightarrow> switch_step K (m, i # ivs) (m', i # ivs)"
| finish: "\<not> m_ring3 m \<Longrightarrow> m_rsp m = m_last_sp m - 8 \<Longrightarrow> switch_step K (m, i # ivs) (handler_finish K m, i # ivs)"
| abort: "\<not> m_ring3 m \<Longrightarrow> abort_kernel_callback m = (self, m') \<Longrightarrow> switch_step K (m, i # ivs) (m', ivs)"

inductive_cases switch_stepE: "switch_step K s s'"

text \<open>The saved state of an invocation, and the chain of frames from \<open>last_stack_ptr\<close>.\<close>

definition frame_at :: "(u64 \<Rightarrow> u64) \<Rightarrow> u64 \<Rightarrow> invocation \<Rightarrow> bool" where
  "frame_at k sp i \<longleftrightarrow> k sp = inv_self i \<and> k (sp + 8) = inv_last i \<and> k (sp + 0x10) = inv_flags i \<and>
    inv_regs i = [k (sp + 0x18), k (sp + 0x20), k (sp + 0x28), k (sp + 0x30), k (sp + 0x38), k (sp + 0x40)]"

fun frames_ok :: "(u64 \<Rightarrow> u64) \<Rightarrow> u64 \<Rightarrow> invocation list \<Rightarrow> bool" where
  "frames_ok k sp [] = True"
| "frames_ok k sp (i # ivs) =
    (0x50 \<le> unat (inv_rsp i) \<and> inv_rsp i = sp + 0x48 \<and> frame_at k sp i \<and>
     (ivs \<noteq> [] \<longrightarrow> unat (inv_rsp i) + 8 \<le> unat (inv_last i)) \<and> frames_ok k (inv_last i) ivs)"

definition switch_ok :: "switch_env \<Rightarrow> machine \<times> invocation list \<Rightarrow> bool" where
  "switch_ok K s = (case s of (m, ivs) \<Rightarrow>
    frames_ok (m_kmem m) (m_last_sp m) ivs \<and> length (m_regs m) = 6 \<and>
    (if m_ring3 m then ivs \<noteq> [] \<and> m_cr3 m = comp_pagetable K (inv_self (hd ivs))
     else m_cr3 m = kernel_cr3 K \<and> m_fs m = kernel_tls K \<and> below_frame m ivs))"

lemma regs_six: "length r = 6 \<Longrightarrow> [r ! 0, r ! 1, r ! 2, r ! 3, r ! 4, r ! 5] = r"
  by (auto simp: length_Suc_conv numeral_eq_Suc)

lemma frame_address:
  assumes "0x50 \<le> unat (sp + 0x48 :: u64)" "unat c < 0x48"
  shows "unat (sp + c) = unat sp + unat c" and "unat (sp + 0x48) = unat sp + 0x48" and "8 \<le> unat sp"
proof -
  have "unat (sp + 0x48) - 0x48 = unat sp" using unat_sub64 [of "0x48" "sp + 0x48"] assms(1) by simp
  then have e: "unat (sp + 0x48) = unat sp + 0x48" using assms(1) by linarith
  then show "unat (sp + 0x48) = unat sp + 0x48" "8 \<le> unat sp" using assms(1) by simp_all
  have "unat sp + 0x48 < 18446744073709551616" using e unat_lt64 [of "sp + 0x48"] by linarith
  then show "unat (sp + c) = unat sp + unat c" using assms(2) by (intro unat_add64) simp
qed

lemma save_kernel_frame:
  fixes self last_sp :: u64
  assumes "m_rsp m = f + 0x48" "length (m_regs m) = 6"
  defines "m' \<equiv> save_kernel_state last_sp self m"
  shows "m_rsp m' = f"
    and "frame_at (m_kmem m') f \<lparr>inv_self = self, inv_rsp = m_rsp m, inv_regs = m_regs m, inv_flags = m_flags m, inv_last = last_sp\<rparr>"
    and "m' = m\<lparr>m_rsp := f, m_kmem := m_kmem m'\<rparr>"
    and "x \<noteq> f \<Longrightarrow> x \<noteq> f + 8 \<Longrightarrow> x \<noteq> f + 0x10 \<Longrightarrow> x \<noteq> f + 0x18 \<Longrightarrow> x \<noteq> f + 0x20 \<Longrightarrow> x \<noteq> f + 0x28 \<Longrightarrow>
      x \<noteq> f + 0x30 \<Longrightarrow> x \<noteq> f + 0x38 \<Longrightarrow> x \<noteq> f + 0x40 \<Longrightarrow> m_kmem m' x = m_kmem m x"
proof -
  have e: "save_kernel_state last_sp self m = m\<lparr>m_rsp := f, m_kmem := (m_kmem m)(f + 0x18 := m_regs m ! 0, f + 0x20 := m_regs m ! 1,
      f + 0x28 := m_regs m ! 2, f + 0x30 := m_regs m ! 3, f + 0x38 := m_regs m ! 4, f + 0x40 := m_regs m ! 5,
      f + 0x10 := m_flags m, f + 8 := last_sp, f := self)\<rparr>"
    using assms(1) by (simp add: save_kernel_state_def save_registers_def push_def Let_def REGS_END_def algebra_simps)
  show "m_rsp m' = f" "m' = m\<lparr>m_rsp := f, m_kmem := m_kmem m'\<rparr>" by (simp_all add: m'_def e)
  show "frame_at (m_kmem m') f \<lparr>inv_self = self, inv_rsp = m_rsp m, inv_regs = m_regs m, inv_flags = m_flags m, inv_last = last_sp\<rparr>"
    using regs_six [OF assms(2)] by (simp add: m'_def e frame_at_def)
  show "m_kmem m' x = m_kmem m x" if "x \<noteq> f" "x \<noteq> f + 8" "x \<noteq> f + 0x10" "x \<noteq> f + 0x18" "x \<noteq> f + 0x20" "x \<noteq> f + 0x28"
      "x \<noteq> f + 0x30" "x \<noteq> f + 0x38" "x \<noteq> f + 0x40"
    using that by (simp add: m'_def e)
qed

lemma restore_kernel_frame:
  assumes "frame_at (m_kmem m) (m_rsp m) i"
  shows "restore_kernel_state m = (inv_last i, inv_self i, m\<lparr>m_rsp := m_rsp m + 0x48, m_flags := inv_flags i, m_regs := inv_regs i\<rparr>)"
  using assms by (simp add: restore_kernel_state_def pop_def restore_registers_def REGS_END_def frame_at_def Let_def algebra_simps)

lemma frames_ok_above:
  assumes "frames_ok k sp ivs" "\<And>x. unat sp \<le> unat x \<Longrightarrow> k' x = k x"
  shows "frames_ok k' sp ivs"
  using assms
proof (induction ivs arbitrary: sp)
  case (Cons i ivs)
  have top: "0x50 \<le> unat (sp + 0x48)" "inv_rsp i = sp + 0x48" "frame_at k sp i"
    and rest: "ivs \<noteq> [] \<longrightarrow> unat (inv_rsp i) + 8 \<le> unat (inv_last i)" "frames_ok k (inv_last i) ivs"
    using Cons.prems(1) by auto
  note adr = frame_address [OF top(1)]
  have "k' (sp + c) = k (sp + c)" if "unat c < 0x48" for c
    using Cons.prems(2) adr(1) [OF that] by simp
  from this [of 0] this [of 8] this [of "0x10"] this [of "0x18"] this [of "0x20"] this [of "0x28"] this [of "0x30"] this [of "0x38"] this [of "0x40"]
  have "frame_at k' sp i" using top(3) by (simp add: frame_at_def)
  moreover have "frames_ok k' (inv_last i) ivs"
  proof (cases "ivs = []")
    case False
    have "unat sp \<le> unat (inv_last i)" using rest(1) False top(2) adr(2) [of 0] by simp
    then show ?thesis using Cons.IH [OF rest(2)] Cons.prems(2) by simp
  qed simp
  ultimately show ?case using top rest by simp
qed simp

text \<open>The kernel is back where the invocation called \<open>compartment_enter\<close>.\<close>

definition restored :: "switch_env \<Rightarrow> invocation \<Rightarrow> machine \<Rightarrow> bool" where
  "restored K i m \<longleftrightarrow> \<not> m_ring3 m \<and> m_cr3 m = kernel_cr3 K \<and> m_fs m = kernel_tls K \<and>
    m_rsp m = inv_rsp i \<and> m_regs m = inv_regs i \<and> m_flags m = inv_flags i \<and> m_last_sp m = inv_last i"

text \<open>The kernel acts for the invocation: it leaves it, or handles a request of its compartment in kernel context.\<close>

definition entry_for :: "switch_env \<Rightarrow> invocation \<Rightarrow> kernel_entry \<Rightarrow> bool" where
  "entry_for K i e =
    (case e of
       EntryReturn m \<Rightarrow> restored K i m
     | EntryExit self m \<Rightarrow> self = inv_self i \<and> restored K i m
     | EntryHandler h self m \<Rightarrow> self = inv_self i \<and> \<not> m_ring3 m \<and> m_cr3 m = kernel_cr3 K \<and> m_fs m = kernel_tls K)"

lemma restore_top:
  assumes "frames_ok (m_kmem m) (m_last_sp m) (i # ivs)" "m_rsp m = m_last_sp m"
  shows "restore_kernel_state m = (inv_last i, inv_self i, m\<lparr>m_rsp := inv_rsp i, m_flags := inv_flags i, m_regs := inv_regs i\<rparr>)"
  using assms restore_kernel_frame [of m i] by simp

lemma kernel_enter_top:
  assumes "frames_ok (m_kmem m) (m_last_sp m) (i # ivs)"
  shows "kernel_enter K reason m =
    (let m1 = m\<lparr>m_cr3 := kernel_cr3 K, m_rsp := m_last_sp m, m_fs := kernel_tls K, m_ring3 := False\<rparr>;
         back = m1\<lparr>m_rsp := inv_rsp i, m_flags := inv_flags i, m_regs := inv_regs i, m_last_sp := inv_last i\<rparr>;
         handle = (\<lambda>h. EntryHandler h (inv_self i) (push (m_rsp m - 8) m1)) in
     if reason = 1 then EntryReturn back
     else if reason = 2 then handle HandleAllocChunk
     else if reason = 3 then handle HandleAllocMetaData
     else if reason = 4 then handle HandleDeallocChunk
     else if reason = 5 then handle HandleCallback
     else EntryExit (inv_self i) back)"
proof -
  let ?m1 = "m\<lparr>m_cr3 := kernel_cr3 K, m_rsp := m_last_sp m, m_fs := kernel_tls K, m_ring3 := False\<rparr>"
  have r: "restore_kernel_state ?m1 = (inv_last i, inv_self i, ?m1\<lparr>m_rsp := inv_rsp i, m_flags := inv_flags i, m_regs := inv_regs i\<rparr>)"
    using assms by (intro restore_top [where ivs = ivs]) auto
  have "get_compartment_from_state ?m1 = inv_self i"
    using assms by (simp add: get_compartment_from_state_def frame_at_def)
  then show ?thesis unfolding kernel_enter_def Let_def r by simp
qed

lemma entry_for_top: "frames_ok (m_kmem m) (m_last_sp m) (i # ivs) \<Longrightarrow> entry_for K i (kernel_enter K reason m)"
  by (simp add: kernel_enter_top entry_for_def restored_def Let_def push_def)

lemma abort_top:
  assumes "switch_ok K (m, i # ivs)" "\<not> m_ring3 m" "abort_kernel_callback m = (self, m')"
  shows "self = inv_self i \<and> restored K i m' \<and> m_kmem m' = m_kmem m"
proof -
  have "frames_ok (m_kmem m) (m_last_sp m) (i # ivs)" "m_cr3 m = kernel_cr3 K" "m_fs m = kernel_tls K"
    using assms(1,2) by (auto simp: switch_ok_def)
  moreover from this(1) have "restore_kernel_state (m\<lparr>m_rsp := m_last_sp m\<rparr>) =
      (inv_last i, inv_self i, m\<lparr>m_rsp := inv_rsp i, m_flags := inv_flags i, m_regs := inv_regs i\<rparr>)"
    using restore_top [of "m\<lparr>m_rsp := m_last_sp m\<rparr>" i ivs] by auto
  ultimately show ?thesis using assms(2,3) by (auto simp: abort_kernel_callback_def restored_def)
qed

lemma restored_ok:
  assumes "frames_ok (m_kmem m) sp (i # ivs)" "restored K i m"
  shows "switch_ok K (m, ivs)"
proof -
  have "frames_ok (m_kmem m) (inv_last i) ivs" "length (inv_regs i) = 6" "ivs = [] \<or> unat (inv_rsp i) + 8 \<le> unat (inv_last i)"
    using assms(1) by (auto simp: frame_at_def)
  then show ?thesis using assms(2) by (simp add: switch_ok_def restored_def below_frame_def)
qed

lemma inv_self_of: "inv_self (invocation_of self m) = self"
  by (simp add: invocation_of_def)

lemma enter_ok:
  assumes ok: "switch_ok K (m, ivs)" and r: "\<not> m_ring3 m" "below_frame m ivs" "0x50 \<le> unat (m_rsp m)"
  shows "switch_ok K (compartment_enter K sp self m, invocation_of self m # ivs)"
proof -
  define f where "f = m_rsp m - 0x48"
  have f: "m_rsp m = f + 0x48" by (simp add: f_def)
  have six: "length (m_regs m) = 6" using r(2) by (simp add: below_frame_def)
  let ?s = "save_kernel_state (m_last_sp m) self m"
  note s = save_kernel_frame [OF f six, where last_sp = "m_last_sp m" and self = self]
  have b: "0x50 \<le> unat (f + 0x48)" using r(3) f by simp
  note adr = frame_address [OF b]
  have frames: "frames_ok (m_kmem ?s) (m_last_sp m) ivs"
  proof (cases "ivs = []")
    case False
    have "m_kmem ?s x = m_kmem m x" if "unat (m_last_sp m) \<le> unat x" for x
    proof -
      have "unat f + 0x48 \<le> unat x" using that r(2) False f adr(2) [of 0] by (simp add: below_frame_def)
      then have ne: "x \<noteq> f + c" if "unat c < 0x48" for c using adr(1) [OF that] that by auto
      show ?thesis using ne [of 0] ne [of 8] ne [of "0x10"] ne [of "0x18"] ne [of "0x20"] ne [of "0x28"] ne [of "0x30"] ne [of "0x38"] ne [of "0x40"]
        by (intro s(4)) simp_all
    qed
    moreover have "frames_ok (m_kmem m) (m_last_sp m) ivs" using ok by (simp add: switch_ok_def)
    ultimately show ?thesis using frames_ok_above by blast
  qed simp
  have gap: "ivs \<noteq> [] \<longrightarrow> unat (m_rsp m) + 8 \<le> unat (m_last_sp m)" using r(2) by (auto simp: below_frame_def)
  have "frames_ok (m_kmem ?s) f (invocation_of self m # ivs)"
    unfolding frames_ok.simps invocation_of_def invocation.simps
    by (rule conjI [OF r(3) conjI [OF f conjI [OF s(2) conjI [OF gap frames]]]])
  moreover have "m_regs ?s = m_regs m" using arg_cong [OF s(3), of m_regs] by simp
  ultimately show ?thesis using s(1) six
    by (simp add: switch_ok_def compartment_enter_def Let_def inv_self_of del: frames_ok.simps)
qed

lemma handle_ok:
  assumes ok: "switch_ok K (m, i # ivs)" and e: "kernel_enter K reason m = EntryHandler h self m'"
  shows "switch_ok K (m', i # ivs)"
proof -
  have fr: "frames_ok (m_kmem m) (m_last_sp m) (i # ivs)" and six: "length (m_regs m) = 6"
    using ok by (simp_all add: switch_ok_def del: frames_ok.simps)
  have m': "m' = push (m_rsp m - 8) (m\<lparr>m_cr3 := kernel_cr3 K, m_rsp := m_last_sp m, m_fs := kernel_tls K, m_ring3 := False\<rparr>)"
    using e unfolding kernel_enter_top [OF fr] Let_def by (auto split: if_splits)
  have b: "0x50 \<le> unat (m_last_sp m + 0x48)" using fr by auto
  have low: "8 \<le> unat (m_last_sp m)" using frame_address(3) [OF b, of 0] by simp
  have u: "unat (m_last_sp m - 8) = unat (m_last_sp m) - 8" using low by (simp add: unat_sub64)
  have "m_kmem m' x = m_kmem m x" if "unat (m_last_sp m) \<le> unat x" for x
  proof -
    have "x \<noteq> m_last_sp m - 8" using that u low by auto
    then show ?thesis by (simp add: m' push_def)
  qed
  then have "frames_ok (m_kmem m') (m_last_sp m) (i # ivs)" using fr frames_ok_above by blast
  then show ?thesis using six u low by (simp add: switch_ok_def m' push_def below_frame_def del: frames_ok.simps)
qed

lemma finish_ok:
  assumes ok: "switch_ok K (m, i # ivs)" and r: "\<not> m_ring3 m" "m_rsp m = m_last_sp m - 8"
  shows "switch_ok K (handler_finish K m, i # ivs)"
proof -
  have fr: "frames_ok (m_kmem m) (m_last_sp m) (i # ivs)" and six: "length (m_regs m) = 6"
    using ok by (simp_all add: switch_ok_def del: frames_ok.simps)
  then have "m_kmem m (m_last_sp m) = inv_self i" by (simp add: frame_at_def)
  then show ?thesis using fr six r
    by (simp add: switch_ok_def handler_finish_def pop_def get_compartment_from_state_def compartment_resume_def del: frames_ok.simps)
qed

lemma leave_ok:
  assumes ok: "switch_ok K (m, i # ivs)" and e: "kernel_enter K reason m = EntryReturn m' \<or> (\<exists>self. kernel_enter K reason m = EntryExit self m')"
  shows "switch_ok K (m', ivs)"
proof -
  have fr: "frames_ok (m_kmem m) (m_last_sp m) (i # ivs)" using ok by (simp add: switch_ok_def del: frames_ok.simps)
  have "restored K i m'" "m_kmem m' = m_kmem m"
    using e unfolding kernel_enter_top [OF fr] Let_def restored_def by (auto split: if_splits)
  then show ?thesis using restored_ok [of m' "m_last_sp m" i ivs K] fr by (simp del: frames_ok.simps)
qed

lemma work_ok:
  assumes ok: "switch_ok K (m, ivs)" and r: "\<not> m_ring3 m" "below_frame m' ivs"
    and m': "m' = m\<lparr>m_rsp := m_rsp m', m_regs := m_regs m', m_flags := m_flags m', m_kmem := m_kmem m'\<rparr>"
    and keep: "\<And>x. ivs \<noteq> [] \<Longrightarrow> unat (m_last_sp m) \<le> unat x + 8 \<Longrightarrow> m_kmem m' x = m_kmem m x"
  shows "switch_ok K (m', ivs)"
proof -
  have same: "m_cr3 m' = m_cr3 m" "m_fs m' = m_fs m" "m_last_sp m' = m_last_sp m" "m_ring3 m' = m_ring3 m"
    using arg_cong [OF m', of m_cr3] arg_cong [OF m', of m_fs] arg_cong [OF m', of m_last_sp] arg_cong [OF m', of m_ring3] by simp_all
  have "frames_ok (m_kmem m) (m_last_sp m) ivs" using ok by (simp add: switch_ok_def)
  then have "frames_ok (m_kmem m') (m_last_sp m) ivs"
    using frames_ok_above [of "m_kmem m" "m_last_sp m" ivs "m_kmem m'"] keep by (cases "ivs = []") auto
  then show ?thesis using ok r same by (simp add: switch_ok_def below_frame_def)
qed

lemma switch_step_ok: "switch_step K s s' \<Longrightarrow> switch_ok K s \<Longrightarrow> switch_ok K s'"
proof (induction rule: switch_step.induct)
  case (work m m' ivs)
  then show ?case by (intro work_ok [of K m ivs m'])
next
  case (user m regs ivs sp fs flags)
  then show ?case by (simp add: switch_ok_def)
next
  case (enter m ivs sp self)
  then show ?case by (intro enter_ok)
next
  case (ret m reason m' i ivs)
  then show ?case by (intro leave_ok [of K m i ivs reason m']) simp_all
next
  case (exit m reason self m' i ivs)
  then show ?case by (intro leave_ok [of K m i ivs reason m']) blast+
next
  case (handle m reason h self m' i ivs)
  then show ?case by (intro handle_ok [of K m i ivs reason h self m'])
next
  case (finish m i ivs)
  then show ?case by (intro finish_ok)
next
  case (abort m self m' i ivs)
  have fr: "frames_ok (m_kmem m) (m_last_sp m) (i # ivs)" using abort.prems by (simp add: switch_ok_def del: frames_ok.simps)
  then show ?case using abort_top [OF abort.prems abort.hyps] restored_ok [of m' "m_last_sp m" i ivs K] by (simp del: frames_ok.simps)
qed

lemma switch_reach_ok: "(switch_step K)\<^sup>*\<^sup>* s s' \<Longrightarrow> switch_ok K s \<Longrightarrow> switch_ok K s'"
  by (induction rule: rtranclp_induct) (auto intro: switch_step_ok)

definition kernel_start :: "switch_env \<Rightarrow> machine \<Rightarrow> bool" where
  "kernel_start K m \<longleftrightarrow> \<not> m_ring3 m \<and> m_cr3 m = kernel_cr3 K \<and> m_fs m = kernel_tls K \<and> length (m_regs m) = 6"

text \<open>
  C19: however invocations, callbacks, requests and aborts nest, and whatever the
  compartment does to its registers and its TLS base: compartment code runs on the page table
  of the newest pending invocation; every entry into the kernel, with any reason, acts for the
  compartment of that invocation on the kernel's page table and TLS; and leaving
  it (by return, exit or an abort inside a handler) restores the stack pointer, the
  callee-saved registers and the flags of the call that started it.
\<close>

theorem compartment_switch_safe:
  assumes "kernel_start K m0" and "(switch_step K)\<^sup>*\<^sup>* (m0, []) (m, ivs)"
  shows "if m_ring3 m then ivs \<noteq> [] \<and> m_cr3 m = comp_pagetable K (inv_self (hd ivs)) \<and>
      entry_for K (hd ivs) (kernel_enter K reason m)
    else m_cr3 m = kernel_cr3 K \<and> m_fs m = kernel_tls K \<and>
      (ivs = [] \<or> fst (abort_kernel_callback m) = inv_self (hd ivs) \<and> restored K (hd ivs) (snd (abort_kernel_callback m)))"
proof -
  have "switch_ok K (m0, [])" using assms(1) by (simp add: switch_ok_def kernel_start_def below_frame_def)
  then have ok: "switch_ok K (m, ivs)" using switch_reach_ok [OF assms(2)] by blast
  show ?thesis
  proof (cases ivs)
    case Nil
    then show ?thesis using ok by (auto simp: switch_ok_def)
  next
    case (Cons i js)
    have fr: "frames_ok (m_kmem m) (m_last_sp m) (i # js)" using ok Cons by (simp add: switch_ok_def del: frames_ok.simps)
    have ab: "\<not> m_ring3 m \<Longrightarrow> fst (abort_kernel_callback m) = inv_self i \<and> restored K i (snd (abort_kernel_callback m))"
      using abort_top [of K m i js "fst (abort_kernel_callback m)" "snd (abort_kernel_callback m)"] ok Cons by simp
    show ?thesis using ok Cons entry_for_top [OF fr, of K reason] ab
      by (simp add: switch_ok_def del: frames_ok.simps)
  qed
qed

definition sample_switch :: switch_env where
  "sample_switch = \<lparr>kernel_cr3 = 0x1000, kernel_tls = 0x2000, comp_pagetable = (\<lambda>c. c + 0x10), comp_tls = (\<lambda>c. c + 0x20)\<rparr>"

definition sample_machine :: machine where
  "sample_machine = \<lparr>m_rsp = 0x8000, m_cr3 = 0x1000, m_fs = 0x2000, m_ring3 = False, m_last_sp = 0,
     m_regs = [1, 2, 3, 4, 5, 6], m_flags = 0x202, m_kmem = (\<lambda>_. 0)\<rparr>"

theorem compartment_switch_safe_witness:
  "\<exists>m i. (switch_step sample_switch)\<^sup>*\<^sup>* (sample_machine, []) (m, [i]) \<and> m_ring3 m \<and> m_fs m = 0xBAD \<and>
    inv_self i = 0x7000 \<and> m_cr3 m = 0x7010 \<and> entry_for sample_switch i (kernel_enter sample_switch 0 m)"
proof -
  let ?i = "invocation_of 0x7000 sample_machine"
  let ?m1 = "compartment_enter sample_switch 0x9000 0x7000 sample_machine"
  let ?m2 = "?m1\<lparr>m_rsp := 0, m_fs := 0xBAD, m_regs := [9, 9, 9, 9, 9, 9], m_flags := 0\<rparr>"
  have "switch_step sample_switch (sample_machine, []) (?m1, [?i])"
    by (rule switch_step.enter) (simp_all add: sample_machine_def below_frame_def)
  moreover have "switch_step sample_switch (?m1, [?i]) (?m2, [?i])"
    by (rule switch_step.user) (simp_all add: compartment_enter_def Let_def)
  ultimately have reach: "(switch_step sample_switch)\<^sup>*\<^sup>* (sample_machine, []) (?m2, [?i])" by simp
  have start: "kernel_start sample_switch sample_machine"
    by (simp add: kernel_start_def sample_switch_def sample_machine_def)
  have ring: "m_ring3 ?m2" "m_fs ?m2 = 0xBAD" by (simp_all add: compartment_enter_def Let_def)
  have "m_cr3 ?m2 = comp_pagetable sample_switch (inv_self ?i) \<and> entry_for sample_switch ?i (kernel_enter sample_switch 0 ?m2)"
    using compartment_switch_safe [OF start reach, of 0] ring by simp
  then show ?thesis using reach ring by (intro exI [of _ ?m2] exI [of _ ?i]) (simp add: inv_self_of sample_switch_def)
qed

end
