(* ===== verification/Logging.thy ===== *)
theory Logging
  imports Ownership
begin

text \<open>
  The logger (\<open>include/public/logging.h\<close>) and the output of finished entries
  (\<open>kwritev_stdout\<close> and \<open>output_log_entry\<close> of \<open>crt/output.cc\<close>).  The buffer is its bytes
  and its write position; a span the code gets from \<open>reserve\<close> is its offset and length
  in the buffer.  The lemmas show that no operation leaves the buffer, and that what
  is printed for a number reads back as that number.
\<close>

definition CURRENT_LOG_BUFFER_SIZE :: u64 where
  "CURRENT_LOG_BUFFER_SIZE = 1024"

datatype IntegerBase = Decimal | Hex

fun base_value :: "IntegerBase \<Rightarrow> u8" where
  "base_value Decimal = 10"
| "base_value Hex = 16"

record LoggingBuffer =
  log_bytes :: "u8 list"
  log_position :: u64

definition empty_log :: LoggingBuffer where
  "empty_log = \<lparr>log_bytes = replicate (unat CURRENT_LOG_BUFFER_SIZE) 0, log_position = 0\<rparr>"

definition remaining_space :: "LoggingBuffer \<Rightarrow> u64" where
  "remaining_space b = word_of_nat (length (log_bytes b)) - log_position b"

definition copy_bytes :: "u64 \<Rightarrow> u8 list \<Rightarrow> u8 list \<Rightarrow> u8 list" where
  "copy_bytes offset src dst = take (unat offset) dst @ src @ drop (unat offset + length src) dst"

definition log_append :: "u8 list \<Rightarrow> LoggingBuffer \<Rightarrow> bool \<times> LoggingBuffer" where
  "log_append input b =
    (if remaining_space b < word_of_nat (length input) then (False, b)
     else (True, b\<lparr>log_bytes := copy_bytes (log_position b) input (log_bytes b),
                  log_position := log_position b + word_of_nat (length input)\<rparr>))"

text \<open>A reserved span as offset and size; size 0 when the request does not fit.\<close>

definition log_reserve :: "u64 \<Rightarrow> LoggingBuffer \<Rightarrow> (u64 \<times> u64) \<times> LoggingBuffer" where
  "log_reserve sz b =
    (if remaining_space b < sz then ((0, 0), b)
     else ((log_position b, sz), b\<lparr>log_position := log_position b + sz\<rparr>))"

definition log_reset :: "LoggingBuffer \<Rightarrow> LoggingBuffer" where
  "log_reset b = b\<lparr>log_position := 0\<rparr>"

definition log_data :: "LoggingBuffer \<Rightarrow> u8 list" where
  "log_data b = take (unat (log_position b)) (log_bytes b)"

text \<open>The loops of \<open>log_u64\<close>; the guard on the base is for totality, the code has bases 10 and 16.\<close>

function count_digits :: "u64 \<Rightarrow> u64 \<Rightarrow> u64 \<Rightarrow> u64" where
  "count_digits base n temp_value =
    (if temp_value = 0 \<or> base \<le> 1 then n else count_digits base (n + 1) (temp_value div base))"
  by auto
termination
proof (relation "measure (\<lambda>(_, _, v). unat v)")
  fix base n v :: u64 assume h: "\<not> (v = 0 \<or> base \<le> 1)"
  then have "1 < unat base" "0 < unat v" by (auto simp: word_le_nat unat_gt_0)
  then show "((base, n + 1, v div base), base, n, v) \<in> measure (\<lambda>(_, _, v). unat v)"
    by (simp add: unat_div)
qed simp

definition digit_char :: "u64 \<Rightarrow> u8" where
  "digit_char d = (let digit = ucast d :: u8 in if digit < 10 then 48 + digit else 97 + digit - 10)"

function fill_digits :: "u64 \<Rightarrow> u64 \<Rightarrow> u64 \<Rightarrow> u64 \<Rightarrow> u8 list \<Rightarrow> u8 list" where
  "fill_digits base offset current_digit val bytes =
    (if val = 0 \<or> base \<le> 1 then bytes
     else fill_digits base offset (current_digit - 1) (val div base)
       (bytes[unat (offset + current_digit) := digit_char (val mod base)]))"
  by auto
termination
proof (relation "measure (\<lambda>(_, _, _, v, _). unat v)")
  fix base off c v :: u64 and bs assume h: "\<not> (v = 0 \<or> base \<le> 1)"
  then have "1 < unat base" "0 < unat v" by (auto simp: word_le_nat unat_gt_0)
  then show "((base, off, c - 1, v div base, bs[unat (off + c) := digit_char (v mod base)]), base, off, c, v, bs)
      \<in> measure (\<lambda>(_, _, _, v, _). unat v)"
    by (simp add: unat_div)
qed simp

definition log_u64 :: "u64 \<Rightarrow> IntegerBase \<Rightarrow> LoggingBuffer \<Rightarrow> LoggingBuffer" where
  "log_u64 val format b =
    (let base = ucast (base_value format) :: u64 in
     if val = 0 then snd (log_append [48] b)
     else
       let num_digits = count_digits base 0 val;
           (output_range, b1) = log_reserve num_digits b in
       if snd output_range = 0 then b1
       else b1\<lparr>log_bytes := fill_digits base (fst output_range) (num_digits - 1) val (log_bytes b1)\<rparr>)"

definition log_string :: "u8 list \<Rightarrow> LoggingBuffer \<Rightarrow> LoggingBuffer" where
  "log_string val b =
    (let n = word_of_nat (length val) :: u64;
         n1 = (if n > remaining_space b then remaining_space b else n) in
     snd (log_append (take (unat n1) val) b))"

definition log_pointer :: "u64 \<Rightarrow> LoggingBuffer \<Rightarrow> LoggingBuffer" where
  "log_pointer val b =
    (if remaining_space b < 18 then b else log_u64 val Hex (snd (log_append [48, 120] b)))"

text \<open>
  A signed value of the given promoted width (32 or 64 bits): negating the least value
  overflows, which the language leaves undefined.
\<close>

definition log_signed :: "nat \<Rightarrow> int \<Rightarrow> LoggingBuffer \<Rightarrow> LoggingBuffer result" where
  "log_signed width val b =
    (if remaining_space b < 20 then Inr b
     else if val \<ge> 0 then Inr (log_u64 (word_of_int val) Decimal b)
     else if val = - (2 ^ (width - 1)) then Inl Undefined
     else Inr (log_u64 (word_of_int (- val)) Decimal (snd (log_append [45] b))))"

definition log_unsigned :: "u64 \<Rightarrow> LoggingBuffer \<Rightarrow> LoggingBuffer" where
  "log_unsigned val b = (if remaining_space b < 20 then b else log_u64 val Decimal b)"

definition kwritev_stdout :: "u8 list list \<Rightarrow> u8 list \<Rightarrow> u64 \<times> u8 list" where
  "kwritev_stdout data uart =
    fold (\<lambda>buffer (total_length, uart). (total_length + word_of_nat (length buffer), fold (\<lambda>c uart. uart @ [c]) buffer uart))
      data (0, uart)"

definition NEW_LINE :: "u8 list" where
  "NEW_LINE = [10]"

text \<open>In a compartment the entry goes through the compartment's stdout callback.\<close>

definition output_log_entry ::
  "TCB option \<Rightarrow> (u8 list list \<Rightarrow> 's \<Rightarrow> 's) \<Rightarrow> u8 list \<Rightarrow> u8 list \<times> 's \<Rightarrow> u8 list \<times> 's" where
  "output_log_entry tcb compartment_kwrite_stdout str s =
    (let kwritev_argument = [str, NEW_LINE] in
     if is_compartment tcb then (fst s, compartment_kwrite_stdout kwritev_argument (snd s))
     else (snd (kwritev_stdout kwritev_argument (fst s)), snd s))"

definition log_flush ::
  "TCB option \<Rightarrow> (u8 list list \<Rightarrow> 's \<Rightarrow> 's) \<Rightarrow> LoggingBuffer \<times> u8 list \<times> 's \<Rightarrow> LoggingBuffer \<times> u8 list \<times> 's" where
  "log_flush tcb cb s = (log_reset (fst s), output_log_entry tcb cb (log_data (fst s)) (snd s))"

record Logger =
  global_stream :: LoggingBuffer
  thread_local_stream :: LoggingBuffer

definition logger_stream :: "TCB option \<Rightarrow> Logger \<Rightarrow> LoggingBuffer" where
  "logger_stream tcb l = (case tcb of None \<Rightarrow> global_stream l | Some _ \<Rightarrow> thread_local_stream l)"

text \<open>Digits of a number, most significant first, and their reading.\<close>

fun digits :: "nat \<Rightarrow> nat \<Rightarrow> nat list" where
  "digits base n = (if n = 0 \<or> base \<le> 1 then [] else digits base (n div base) @ [n mod base])"

declare digits.simps [simp del] count_digits.simps [simp del] fill_digits.simps [simp del]

definition char_value :: "u8 \<Rightarrow> nat" where
  "char_value c = (if c < 58 then unat c - 48 else unat c - 87)"

definition read_number :: "nat \<Rightarrow> u8 list \<Rightarrow> nat" where
  "read_number base cs = foldl (\<lambda>a c. a * base + char_value c) 0 cs"

lemma digits_0 [simp]: "digits base 0 = []"
  by (simp add: digits.simps)

lemma digits_step: "0 < n \<Longrightarrow> 1 < base \<Longrightarrow> digits base n = digits base (n div base) @ [n mod base]"
  by (subst digits.simps) simp

lemma digits_length: "n < base ^ k \<Longrightarrow> 1 < base \<Longrightarrow> length (digits base n) \<le> k"
proof (induction k arbitrary: n)
  case (Suc k)
  show ?case
  proof (cases "n = 0")
    case False
    have "n div base < base ^ k" using Suc.prems by (simp add: div_less_iff_less_mult mult.commute)
    then show ?thesis using Suc.IH [of "n div base"] Suc.prems False by (simp add: digits_step)
  qed simp
qed simp

lemma count_digits_length:
  assumes "1 < unat base"
  shows "count_digits base n v = n + word_of_nat (length (digits (unat base) (unat v)))"
  using assms
proof (induction base n v rule: count_digits.induct)
  case (1 base n v)
  show ?case
  proof (cases "v = 0")
    case False
    have b: "\<not> base \<le> 1" using 1(2) by (simp add: word_le_nat)
    have "0 < unat v" using False by (simp add: unat_gt_0)
    then show ?thesis using 1(1) 1(2) False b
      by (subst count_digits.simps) (simp add: digits_step unat_div)
  qed (simp add: count_digits.simps)
qed

lemma fill_digits_spec:
  assumes "1 < unat base" and "v \<noteq> 0 \<Longrightarrow> unat c + 1 = length (digits (unat base) (unat v))"
    and "unat off + length (digits (unat base) (unat v)) \<le> length bytes" and "length bytes < 2 ^ 64"
  shows "fill_digits base off c v bytes = take (unat off) bytes @
    map (\<lambda>d. digit_char (word_of_nat d)) (digits (unat base) (unat v)) @
    drop (unat off + length (digits (unat base) (unat v))) bytes"
  using assms
proof (induction base off c v bytes rule: fill_digits.induct)
  case (1 base off c v bytes)
  show ?case
  proof (cases "v = 0")
    case True
    then show ?thesis by (simp add: fill_digits.simps)
  next
    case False
    let ?q = "digits (unat base) (unat (v div base))" and ?ch = "digit_char (v mod base)"
    have b: "\<not> base \<le> 1" using 1(2) by (simp add: word_le_nat)
    have ds: "digits (unat base) (unat v) = ?q @ [unat (v mod base)]"
      using False 1(2) by (simp add: digits_step unat_gt_0 unat_div unat_mod)
    have c: "unat c = length ?q" using 1(3) [OF False] by (simp add: ds)
    have at: "unat (off + c) = unat off + length ?q" using 1(4,5) c by (subst unat_add64) (simp_all add: ds)
    let ?b = "bytes[unat off + length ?q := ?ch]"
    have "fill_digits base off c v bytes = fill_digits base off (c - 1) (v div base) ?b"
      using False b by (subst fill_digits.simps) (simp add: at)
    also have "\<dots> = take (unat off) ?b @ map (\<lambda>d. digit_char (word_of_nat d)) ?q @ drop (unat off + length ?q) ?b"
    proof -
      have "unat (c - 1) + 1 = length ?q" if "v div base \<noteq> 0"
      proof -
        have "0 < length ?q" using that 1(2) by (simp add: digits_step unat_gt_0)
        then have "1 \<le> length ?q" by linarith
        then show ?thesis using c unat_sub64 [of 1 c] by simp
      qed
      then show ?thesis using 1(1) False b 1(2,4,5) at by (simp add: ds)
    qed
    also have "\<dots> = take (unat off) bytes @ map (\<lambda>d. digit_char (word_of_nat d)) (?q @ [unat (v mod base)]) @
        drop (unat off + length (?q @ [unat (v mod base)])) bytes"
    proof -
      have lt: "unat off + length ?q < length bytes" using 1(4) by (simp add: ds)
      then have "drop (unat off + length ?q) ?b = ?ch # drop (Suc (unat off + length ?q)) bytes"
        by (metis Cons_nth_drop_Suc drop_update_cancel length_list_update lessI nth_list_update_eq)
      then show ?thesis by simp
    qed
    finally show ?thesis by (simp add: ds)
  qed
qed

text \<open>The invariant of the buffer, and what each operation appends to its content.\<close>

definition log_ok :: "LoggingBuffer \<Rightarrow> bool" where
  "log_ok b \<longleftrightarrow> length (log_bytes b) = 1024 \<and> unat (log_position b) \<le> 1024"

definition number_chars :: "nat \<Rightarrow> nat \<Rightarrow> u8 list" where
  "number_chars base n = (if n = 0 then [48] else map (\<lambda>d. digit_char (word_of_nat d)) (digits base n))"

lemma remaining_nat: "log_ok b \<Longrightarrow> unat (remaining_space b) = 1024 - unat (log_position b)"
  by (simp add: log_ok_def remaining_space_def unat_sub64)

lemma log_data_length: "log_ok b \<Longrightarrow> length (log_data b) = unat (log_position b)"
  by (simp add: log_ok_def log_data_def)

lemma empty_log_ok: "log_ok empty_log" "log_data empty_log = []" "remaining_space empty_log = 1024"
  by (simp_all add: empty_log_def log_ok_def log_data_def remaining_space_def CURRENT_LOG_BUFFER_SIZE_def)

lemma log_append_fits:
  assumes ok: "log_ok b" and fits: "length input \<le> unat (remaining_space b)"
  shows "log_ok (snd (log_append input b))" and "log_data (snd (log_append input b)) = log_data b @ input"
    and "unat (remaining_space (snd (log_append input b))) = unat (remaining_space b) - length input"
proof -
  let ?b = "snd (log_append input b)"
  have le: "unat (log_position b) + length input \<le> 1024" using fits remaining_nat [OF ok] ok unfolding log_ok_def by linarith
  have n: "unat (word_of_nat (length input) :: u64) = length input" using le by (intro unat_of_nat64) simp
  then have b: "?b = b\<lparr>log_bytes := copy_bytes (log_position b) input (log_bytes b),
      log_position := log_position b + word_of_nat (length input)\<rparr>"
    using fits by (simp add: log_append_def word_less_nat)
  have pos: "unat (log_position ?b) = unat (log_position b) + length input"
    using le by (simp add: b n unat_add64)
  show ok': "log_ok ?b" using ok le pos by (simp add: log_ok_def b copy_bytes_def)
  show "log_data ?b = log_data b @ input"
    using ok le pos unfolding log_data_def by (simp add: b copy_bytes_def log_ok_def)
  show "unat (remaining_space ?b) = unat (remaining_space b) - length input"
    using remaining_nat [OF ok'] remaining_nat [OF ok] pos by simp
qed

lemma log_append_full: "unat (remaining_space b) < length input \<Longrightarrow> length input < 2 ^ 64 \<Longrightarrow> log_append input b = (False, b)"
  by (simp add: log_append_def word_less_nat unat_of_nat64)

lemma base_nat: "unat (ucast (base_value f) :: u64) = (case f of Decimal \<Rightarrow> 10 | Hex \<Rightarrow> 16)"
  by (cases f) simp_all

lemma digits_64: "length (digits 10 (unat (v :: u64))) \<le> 20" "length (digits 16 (unat v)) \<le> 16"
  by (rule digits_length; simp add: less_trans [OF unat_lt64])+

lemma log_u64_fits:
  fixes f defines "B \<equiv> (case f of Decimal \<Rightarrow> (10 :: nat) | Hex \<Rightarrow> 16)"
  assumes ok: "log_ok b" and fits: "length (number_chars B (unat v)) \<le> unat (remaining_space b)"
  shows "log_ok (log_u64 v f b)" and "log_data (log_u64 v f b) = log_data b @ number_chars B (unat v)"
proof -
  let ?base = "ucast (base_value f) :: u64"
  have B: "unat ?base = B" "1 < unat ?base" by (simp_all add: B_def base_nat split: IntegerBase.splits)
  have "log_ok (log_u64 v f b) \<and> log_data (log_u64 v f b) = log_data b @ number_chars B (unat v)"
  proof (cases "v = 0")
    case True
    have one: "length [48 :: u8] \<le> unat (remaining_space b)" using fits True by (simp add: number_chars_def)
    then show ?thesis using log_append_fits [OF ok one] True by (simp add: log_u64_def number_chars_def)
  next
    case False
    let ?ds = "digits B (unat v)" and ?n = "word_of_nat (length (digits B (unat v))) :: u64"
    have v0: "0 < unat v" using False by (simp add: unat_gt_0)
    have len: "length (number_chars B (unat v)) = length ?ds" using v0 by (simp add: number_chars_def)
    have pos: "0 < length ?ds" using v0 B by (simp add: digits_step)
    have le: "unat (log_position b) + length ?ds \<le> 1024"
      using fits len remaining_nat [OF ok] ok unfolding log_ok_def by linarith
    have n: "unat ?n = length ?ds" using le by (intro unat_of_nat64) simp
    have "count_digits ?base 0 v = ?n" using count_digits_length [OF B(2), of 0 v] B(1) by simp
    moreover have "\<not> remaining_space b < ?n" using fits len n by (simp add: word_less_nat)
    moreover have "?n \<noteq> 0" using n pos by (auto simp: word_eq_nat)
    ultimately have r: "log_u64 v f b = b\<lparr>log_position := log_position b + ?n,
        log_bytes := fill_digits ?base (log_position b) (?n - 1) v (log_bytes b)\<rparr>"
      using False by (simp add: log_u64_def log_reserve_def Let_def)
    have one: "1 \<le> length ?ds" using pos by linarith
    then have "unat (?n - 1) = length ?ds - 1" using unat_sub64 [of 1 ?n] n by simp
    then have "unat (?n - 1) + 1 = length ?ds" using one by linarith
    then have fill: "fill_digits ?base (log_position b) (?n - 1) v (log_bytes b) =
        take (unat (log_position b)) (log_bytes b) @ map (\<lambda>d. digit_char (word_of_nat d)) ?ds @
        drop (unat (log_position b) + length ?ds) (log_bytes b)"
      using fill_digits_spec [OF B(2), of v "?n - 1" "log_position b" "log_bytes b"] le ok
      by (simp add: B(1) log_ok_def)
    have "unat (log_position b + ?n) = unat (log_position b) + length ?ds" using le n by (simp add: unat_add64)
    then show ?thesis using ok le v0 unfolding r fill log_data_def log_ok_def number_chars_def by simp
  qed
  then show "log_ok (log_u64 v f b)" "log_data (log_u64 v f b) = log_data b @ number_chars B (unat v)" by blast+
qed

lemma char_value_digit: "d < 16 \<Longrightarrow> char_value (digit_char (word_of_nat d)) = d"
proof -
  assume "d < 16"
  then have "d \<in> set [0..<16]" by simp
  moreover have "\<forall>d \<in> set [0..<16]. char_value (digit_char (word_of_nat d)) = d"
    by (simp add: upt_rec digit_char_def char_value_def)
  ultimately show ?thesis by blast
qed

lemma read_digits:
  assumes "1 < base" and "base \<le> 16"
  shows "read_number base (map (\<lambda>d. digit_char (word_of_nat d)) (digits base n)) = n"
proof (induction n rule: less_induct)
  case (less n)
  show ?case
  proof (cases "n = 0")
    case False
    have "n mod base < 16" using assms by (meson mod_less_divisor less_le_trans zero_less_one less_trans)
    then show ?thesis using less [of "n div base"] False assms
      by (simp add: digits_step read_number_def char_value_digit)
  qed (simp add: read_number_def)
qed

lemma read_number_chars: "1 < base \<Longrightarrow> base \<le> 16 \<Longrightarrow> read_number base (number_chars base n) = n"
  using read_digits [of base n] by (simp add: number_chars_def read_number_def char_value_def)

lemma number_chars_10: "length (number_chars 10 (unat (v :: u64))) \<le> 20"
  and number_chars_16: "length (number_chars 16 (unat (v :: u64))) \<le> 16"
  using digits_64 [of v] by (simp_all add: number_chars_def)

lemma log_number_fits:
  assumes "log_ok b" and "20 \<le> unat (remaining_space b)"
  shows "log_ok (log_unsigned v b)" and "log_data (log_unsigned v b) = log_data b @ number_chars 10 (unat v)"
    and "log_ok (log_pointer v b)" and "log_data (log_pointer v b) = log_data b @ [48, 120] @ number_chars 16 (unat v)"
proof -
  have u: "log_unsigned v b = log_u64 v Decimal b" using assms(2) by (simp add: log_unsigned_def word_less_nat)
  have "length (number_chars 10 (unat v)) \<le> unat (remaining_space b)"
    using number_chars_10 assms(2) by (rule le_trans)
  then show "log_ok (log_unsigned v b)" "log_data (log_unsigned v b) = log_data b @ number_chars 10 (unat v)"
    using log_u64_fits [where f=Decimal, OF assms(1)] unfolding u by simp_all
  let ?b = "snd (log_append [48, 120] b)"
  have "length [48 :: u8, 120] \<le> unat (remaining_space b)" using assms(2) by simp
  note ap = log_append_fits [OF assms(1) this]
  have p: "log_pointer v b = log_u64 v Hex ?b" using assms(2) by (simp add: log_pointer_def word_less_nat)
  have "length (number_chars 16 (unat v)) \<le> unat (remaining_space ?b)"
    using number_chars_16 [of v] ap(3) assms(2) by simp
  then show "log_ok (log_pointer v b)" "log_data (log_pointer v b) = log_data b @ [48, 120] @ number_chars 16 (unat v)"
    using log_u64_fits [where f=Hex, OF ap(1)] ap(2) unfolding p by simp_all
qed

text \<open>When 20 bytes are free, an unsigned number or a pointer is appended completely, and its decimal
  or hexadecimal digits read back as exactly that number.\<close>
theorem logged_number_reads_back:
  assumes "log_ok b" and "20 \<le> unat (remaining_space b)"
  shows "\<exists>cs hs. log_data (log_unsigned v b) = log_data b @ cs \<and> read_number 10 cs = unat v \<and>
    log_data (log_pointer v b) = log_data b @ [48, 120] @ hs \<and> read_number 16 hs = unat v"
  using log_number_fits(2,4) [OF assms, of v] read_number_chars [of 10 "unat v"] read_number_chars [of 16 "unat v"]
  by (intro exI [of _ "number_chars 10 (unat v)"] exI [of _ "number_chars 16 (unat v)"]) simp

theorem logged_number_reads_back_witness:
  "\<exists>cs hs. log_data (log_unsigned 0xFFFFFFFFFFFFFFFF empty_log) = cs \<and> read_number 10 cs = 18446744073709551615 \<and>
    log_data (log_pointer 0xFFFFFFFFFFFFFFFF empty_log) = [48, 120] @ hs \<and> read_number 16 hs = 18446744073709551615"
proof -
  have free: "20 \<le> unat (remaining_space empty_log)" by (simp add: empty_log_ok(3))
  show ?thesis
    using logged_number_reads_back [OF empty_log_ok(1) free, of "0xFFFFFFFFFFFFFFFF"] unfolding empty_log_ok(2) by simp
qed



text \<open>Sequences of stream operations in the kernel; \<open>LogEndl\<close> flushes an entry to the serial port.\<close>

datatype log_item = LogString "u8 list" | LogPointer u64 | LogSigned nat int | LogUnsigned u64 | LogEndl

fun log_put :: "log_item \<Rightarrow> LoggingBuffer \<times> u8 list \<times> unit \<Rightarrow> (LoggingBuffer \<times> u8 list \<times> unit) result" where
  "log_put (LogString v) s = Inr (log_string v (fst s), snd s)"
| "log_put (LogPointer v) s = Inr (log_pointer v (fst s), snd s)"
| "log_put (LogSigned w v) s = res_bind (log_signed w v (fst s)) (\<lambda>b. Inr (b, snd s))"
| "log_put (LogUnsigned v) s = Inr (log_unsigned v (fst s), snd s)"
| "log_put LogEndl s = Inr (log_flush None (\<lambda>_ s. s) s)"

lemma log_string_fits:
  assumes "log_ok b" and "length v < 2 ^ 64"
  shows "log_ok (log_string v b)" and "log_data (log_string v b) = log_data b @ take (unat (remaining_space b)) v"
proof -
  let ?r = "unat (remaining_space b)"
  have n: "unat (word_of_nat (length v) :: u64) = length v" using assms(2) by (rule unat_of_nat64)
  have s: "log_string v b = snd (log_append (take ?r v) b)"
    by (auto simp: log_string_def Let_def word_less_nat n)
  have "length (take ?r v) \<le> ?r" by simp
  from log_append_fits [OF assms(1) this] show "log_ok (log_string v b)"
    "log_data (log_string v b) = log_data b @ take ?r v" by (simp_all add: s)
qed

lemma log_u64_ok: "log_ok b \<Longrightarrow> log_ok (log_u64 v f b)"
proof -
  assume ok: "log_ok b"
  let ?B = "case f of Decimal \<Rightarrow> (10 :: nat) | Hex \<Rightarrow> 16"
  show ?thesis
  proof (cases "length (number_chars ?B (unat v)) \<le> unat (remaining_space b)")
    case False
    have B: "unat (ucast (base_value f) :: u64) = ?B" by (rule base_nat)
    have one: "1 < unat (ucast (base_value f) :: u64)" by (cases f) simp_all
    have len: "length (digits ?B (unat v)) \<le> 20" using digits_64 [of v] by (cases f) simp_all
    have "count_digits (ucast (base_value f)) 0 v = word_of_nat (length (digits ?B (unat v)))"
      using count_digits_length [OF one, of 0 v] B by simp
    moreover have "unat (word_of_nat (length (digits ?B (unat v))) :: u64) = length (digits ?B (unat v))"
      using len by (intro unat_of_nat64) simp
    ultimately have r: "v \<noteq> 0 \<Longrightarrow> length (digits ?B (unat v)) > unat (remaining_space b) \<Longrightarrow> log_u64 v f b = b"
      by (simp add: log_u64_def log_reserve_def word_less_nat)
    show ?thesis
    proof (cases "v = 0")
      case True
      then have "log_append [48] b = (False, b)" using False by (intro log_append_full) (simp_all add: number_chars_def)
      then show ?thesis using True ok by (simp add: log_u64_def)
    next
      case nz: False
      then have "unat v \<noteq> 0" using word_eq_nat [of v 0] by simp
      then have "length (digits ?B (unat v)) > unat (remaining_space b)"
        using False by (simp add: number_chars_def not_le)
      then show ?thesis using r [OF nz] ok by simp
    qed
  qed (use log_u64_fits(1) [OF ok] in blast)
qed

lemma log_append_ok: "log_ok b \<Longrightarrow> length x < 2 ^ 64 \<Longrightarrow> log_ok (snd (log_append x b))"
  using log_append_fits(1) [of b x] log_append_full [of b x] by (cases "length x \<le> unat (remaining_space b)") simp_all

lemma fold_snoc: "fold (\<lambda>c u. u @ [c]) xs u = u @ xs"
  by (induction xs arbitrary: u) simp_all

lemma log_flush_kernel:
  "log_flush None cb (b, uart, x) = (log_reset b, uart @ log_data b @ [10], x)"
  by (simp add: log_flush_def output_log_entry_def is_compartment_def kwritev_stdout_def NEW_LINE_def fold_snoc)

lemma log_signed_ok: "log_ok b \<Longrightarrow> log_signed w v b = Inr b' \<Longrightarrow> log_ok b'"
  by (auto simp: log_signed_def log_u64_ok log_append_ok split: if_splits)

lemma log_put_ok:
  assumes "log_ok (fst s)" and "log_put item s = Inr t" and "\<And>v. item = LogString v \<Longrightarrow> length v < 2 ^ 64"
  shows "log_ok (fst t) \<and> (fst (snd t) = fst (snd s) \<or> (\<exists>e. length e \<le> 1024 \<and> fst (snd t) = fst (snd s) @ e @ [10]))"
proof (cases item)
  case (LogString v)
  then show ?thesis using assms log_string_fits(1) [of "fst s" v] by auto
next
  case (LogPointer v)
  then show ?thesis using assms log_append_ok [of "fst s" "[48, 120]"] by (auto simp: log_pointer_def log_u64_ok)
next
  case (LogSigned w v)
  then show ?thesis using assms log_signed_ok by (auto simp: res_bind_Inr_iff)
next
  case (LogUnsigned v)
  then show ?thesis using assms by (auto simp: log_unsigned_def log_u64_ok)
next
  case LogEndl
  obtain b uart where s: "s = (b, uart, ())" by (cases s) auto
  have "length (log_data b) \<le> 1024" using assms(1) log_data_length [of b] by (simp add: s log_ok_def)
  then show ?thesis using assms LogEndl by (auto simp: s log_flush_kernel log_reset_def log_ok_def)
qed

text \<open>No sequence of stream operations leaves the bounds of the buffer, and the serial port receives
  only newline-terminated entries of at most 1024 bytes.\<close>
theorem log_stream_bounds:
  assumes "res_fold log_put items (empty_log, uart, ()) = Inr (b, uart', ())"
    and "\<forall>item \<in> set items. \<forall>v. item = LogString v \<longrightarrow> length v < 2 ^ 64"
  shows "log_ok b \<and> (\<exists>es. uart' = uart @ concat (map (\<lambda>e. e @ [10]) es) \<and> (\<forall>e \<in> set es. length e \<le> 1024))"
proof -
  define P :: "LoggingBuffer \<times> u8 list \<times> unit \<Rightarrow> bool" where "P = (\<lambda>s. log_ok (fst s) \<and>
    (\<exists>es. fst (snd s) = uart @ concat (map (\<lambda>e. e @ [10]) es) \<and> (\<forall>e \<in> set es. length e \<le> 1024)))"
  have "P (b, uart', ())"
  proof (rule res_fold_invariant [OF assms(1)])
    show "P (empty_log, uart, ())" unfolding P_def by (intro conjI exI [of _ "[]"]) (simp_all add: empty_log_ok)
  next
    fix item s t assume i: "item \<in> set items" and p: "P s" and r: "log_put item s = Inr t"
    obtain es where es: "fst (snd s) = uart @ concat (map (\<lambda>e. e @ [10]) es)" "\<forall>e \<in> set es. length e \<le> 1024"
      and ok: "log_ok (fst s)" using p unfolding P_def by blast
    from log_put_ok [OF ok r] assms(2) i consider "log_ok (fst t)" "fst (snd t) = fst (snd s)"
      | e where "log_ok (fst t)" "length e \<le> 1024" "fst (snd t) = fst (snd s) @ e @ [10]" by blast
    then show "P t"
    proof cases
      case 1
      then show ?thesis using es unfolding P_def by auto
    next
      case (2 e)
      then show ?thesis using es unfolding P_def by (intro conjI exI [of _ "es @ [e]"]) auto
    qed
  qed
  then show ?thesis by (simp add: P_def)
qed

theorem log_stream_bounds_witness:
  "\<exists>b uart es. res_fold log_put [LogString [72, 105], LogEndl] (empty_log, [], ()) = Inr (b, uart, ()) \<and>
    uart = [72, 105, 10] \<and> log_ok b \<and> uart = concat (map (\<lambda>e. e @ [10]) es)"
proof -
  have "log_data (log_string [72, 105] empty_log) = [72, 105]"
    using log_string_fits(2) [OF empty_log_ok(1), of "[72, 105]"] by (simp add: empty_log_ok)
  then have r: "res_fold log_put [LogString [72, 105], LogEndl] (empty_log, [], ()) =
      Inr (log_reset (log_string [72, 105] empty_log), [72, 105, 10], ())"
    by (simp add: log_flush_kernel)
  show ?thesis using log_stream_bounds [OF r] r by auto
qed

end
