(* ===== verification/Compartment_Calls.thy ===== *)
theory Compartment_Calls
  imports Compartment_Switch Logging
begin

text \<open>
  What the kernel does for a compartment: the forwarding functions of \<open>crt/compartment.cc\<close>, the
  typed callbacks (\<open>experimental/include/callback.h\<close>, \<open>compartment_callback.h\<close>), the protected
  console (\<open>crt/output.cc\<close>) and the allocator backend with its two contexts and its
  start-up (\<open>MonzaGlobals\<close> of \<open>include/public/snmalloc/snmalloc.h\<close>).  The standard backend, the meta
  entries and the pagemaps are snmalloc's and are parameters.
\<close>

text \<open>The backend of snmalloc under the wrapper, and what a meta entry or a RAS word says.\<close>

record 'p backend_inner =
  inner_alloc_meta_data :: "MonzaRange \<Rightarrow> u64 \<Rightarrow> 'p store \<Rightarrow> (u64 \<times> 'p store) result option"
  inner_alloc_chunk :: "MonzaRange \<Rightarrow> u64 \<Rightarrow> u64 \<Rightarrow> 'p store \<Rightarrow> ((u64 \<times> u64) \<times> 'p store) result option"
  inner_dealloc_chunk :: "MonzaRange \<Rightarrow> u64 \<Rightarrow> u64 \<Rightarrow> u64 \<Rightarrow> 'p store \<Rightarrow> 'p store result option"
  ras_remote :: "u64 \<Rightarrow> u64"
  ras_slab_size :: "u64 \<Rightarrow> u64"
  sizeof_remote :: u64
  entry_slab_size :: "u64 \<Rightarrow> 'p store \<Rightarrow> u64"
  entry_slab_metadata :: "u64 \<Rightarrow> 'p store \<Rightarrow> u64"

text \<open>The system calls as a compartment sees them.\<close>

record 'p compartment_syscalls =
  compartment_alloc_chunk :: "u64 \<Rightarrow> u64 \<Rightarrow> 'p store \<Rightarrow> (u64 \<times> 'p store) result option"
  compartment_alloc_meta_data :: "u64 \<Rightarrow> 'p store \<Rightarrow> (u64 \<times> 'p store) result option"
  compartment_dealloc_chunk :: "u64 \<Rightarrow> u64 \<Rightarrow> 'p store \<Rightarrow> 'p store result option"

definition compartment_alloc_chunk_wrapper ::
  "'p compartment_syscalls \<Rightarrow> u64 \<Rightarrow> u64 \<Rightarrow> 'p store \<Rightarrow> ((u64 \<times> u64) \<times> 'p store) result option" where
  "compartment_alloc_chunk_wrapper S sz ras s =
    run_bind (compartment_alloc_chunk S sz ras s) (\<lambda>(raw_result, s1).
      let result_first = load64 raw_result (st_bytes s1) in
      Some (Inr ((result_first, raw_result), s1\<lparr>st_bytes := memset raw_result 0 8 (st_bytes s1)\<rparr>)))"

definition compartment_alloc_meta_data_wrapper ::
  "'p compartment_syscalls \<Rightarrow> u64 \<Rightarrow> 'p store \<Rightarrow> (u64 \<times> 'p store) result option" where
  "compartment_alloc_meta_data_wrapper S sz s =
    run_bind (compartment_alloc_meta_data S sz s) (\<lambda>(raw_result, s1).
      Some (Inr (load64 raw_result (st_bytes s1), s1\<lparr>st_bytes := memset raw_result 0 8 (st_bytes s1)\<rparr>)))"

definition compartment_dealloc_chunk_wrapper ::
  "'p compartment_syscalls \<Rightarrow> u64 \<Rightarrow> u64 \<Rightarrow> 'p store \<Rightarrow> 'p store result option" where
  "compartment_dealloc_chunk_wrapper S base sz s = compartment_dealloc_chunk S base sz s"

definition report_out_of_memory :: "'a result option" where
  "report_out_of_memory = Some (Inl KAbort)"

definition backend_alloc_meta_data ::
  "TCB option \<Rightarrow> 'p compartment_syscalls \<Rightarrow> 'p backend_inner \<Rightarrow> MonzaRange \<Rightarrow> u64 \<Rightarrow> 'p store \<Rightarrow> (u64 \<times> 'p store) result option" where
  "backend_alloc_meta_data tcb S I local_state sz s =
    (if is_compartment tcb then compartment_alloc_meta_data_wrapper S sz s
     else run_bind (inner_alloc_meta_data I local_state sz s) (\<lambda>(metadata, s1).
       if metadata = 0 then report_out_of_memory else Some (Inr (metadata, s1))))"

definition backend_alloc_chunk ::
  "TCB option \<Rightarrow> 'p compartment_syscalls \<Rightarrow> 'p backend_inner \<Rightarrow> MonzaRange \<Rightarrow> u64 \<Rightarrow> u64 \<Rightarrow> 'p store \<Rightarrow>
   ((u64 \<times> u64) \<times> 'p store) result option" where
  "backend_alloc_chunk tcb S I local_state sz ras s =
    (if is_compartment tcb then compartment_alloc_chunk_wrapper S sz ras s
     else run_bind (inner_alloc_chunk I local_state sz ras s) (\<lambda>(chunk, s1).
       if fst chunk = 0 then report_out_of_memory else Some (Inr (chunk, s1))))"

definition backend_dealloc_chunk ::
  "TCB option \<Rightarrow> 'p compartment_syscalls \<Rightarrow> 'p backend_inner \<Rightarrow> MonzaRange \<Rightarrow> u64 \<Rightarrow> u64 \<Rightarrow> u64 \<Rightarrow> 'p store \<Rightarrow> 'p store result option" where
  "backend_dealloc_chunk tcb S I local_state slab_metadata p sz s =
    (if is_compartment tcb then compartment_dealloc_chunk_wrapper S p sz s
     else inner_dealloc_chunk I local_state slab_metadata p sz s)"

text \<open>Which pool of allocators the context uses.\<close>

definition pool :: "TCB option \<Rightarrow> 'a \<Rightarrow> 'a \<Rightarrow> 'a" where
  "pool tcb compartment_alloc_pool alloc_pool = (if is_compartment tcb then compartment_alloc_pool else alloc_pool)"

definition get_tid :: "u64 \<Rightarrow> u64" where
  "get_tid tcb = (if tcb = 0 then 1 else tcb)"

text \<open>The start-up of the heap: the two pagemaps take the front of the first range.\<close>

record init_range =
  ir_base :: u64
  ir_max_length :: u64
  ir_initial_length :: u64

text \<open>\<open>MonzaPal::notify_using\<close> with zeroing: the platform hook, then \<open>memset\<close>.\<close>

definition notify_using :: "(u64 \<Rightarrow> u64 \<Rightarrow> bytes \<Rightarrow> bytes) \<Rightarrow> u64 \<Rightarrow> u64 \<Rightarrow> bytes \<Rightarrow> bytes" where
  "notify_using notify_using_memory p sz m = memset p 0 sz (notify_using_memory p sz m)"

definition consume_init_range :: "(u64 \<Rightarrow> u64 \<Rightarrow> bytes \<Rightarrow> bytes) \<Rightarrow> u64 \<Rightarrow> init_range \<times> bytes \<Rightarrow> (init_range \<times> bytes) result" where
  "consume_init_range notify new_base s =
    (let (r, m) = s in
     if new_base < ir_base r then Inl KAbort
     else let consumed_size = new_base - ir_base r in
       if ir_initial_length r \<le> consumed_size then Inl KAbort
       else Inr (\<lparr>ir_base = new_base, ir_max_length = ir_max_length r - consumed_size,
              ir_initial_length = ir_initial_length r - consumed_size\<rparr>,
            notify_using notify (ir_base r) consumed_size m))"

text \<open>\<open>init\<close>: each pagemap says where it ends; the blocks of the rest go to the global range.\<close>

record 'g heap_init_env =
  notify_using_memory :: "u64 \<Rightarrow> u64 \<Rightarrow> bytes \<Rightarrow> bytes"
  compartment_pagemap_init :: "u64 \<Rightarrow> u64 \<Rightarrow> u64"
  pagemap_init :: "u64 \<Rightarrow> u64 \<Rightarrow> u64"
  pow_2_blocks :: "u64 \<Rightarrow> u64 \<Rightarrow> (u64 \<times> u64) list"
  global_dealloc_range :: "u64 \<Rightarrow> u64 \<Rightarrow> 'g \<Rightarrow> 'g"

definition add_range :: "'g heap_init_env \<Rightarrow> u64 \<Rightarrow> u64 \<Rightarrow> u64 \<times> 'g \<Rightarrow> u64 \<times> 'g" where
  "add_range H base len s =
    (let (total_heap_size, g) = s in
     (total_heap_size + len, fold (\<lambda>(p, sz). global_dealloc_range H p sz) (pow_2_blocks H base len) g))"

definition heap_start :: "'g heap_init_env \<Rightarrow> u64 \<Rightarrow> u64 \<Rightarrow> u64 \<Rightarrow> (u64 \<times> 'g) \<times> bytes \<Rightarrow> ((u64 \<times> 'g) \<times> bytes) result" where
  "heap_start H base max_length initial_length s =
    (let (g, m) = s in
     res_bind (consume_init_range (notify_using_memory H) (compartment_pagemap_init H base max_length)
         (\<lparr>ir_base = base, ir_max_length = max_length, ir_initial_length = initial_length\<rparr>, m)) (\<lambda>(r1, m1).
     res_bind (consume_init_range (notify_using_memory H) (pagemap_init H (ir_base r1) (ir_max_length r1)) (r1, m1)) (\<lambda>(r2, m2).
     Inr (add_range H (ir_base r2) (ir_initial_length r2) g, m2))))"

text \<open>The outcome of an owner check in a forwarding function.\<close>

definition require_owner :: "bool option \<Rightarrow> unit result option" where
  "require_owner v = (case v of None \<Rightarrow> None | Some True \<Rightarrow> Some (Inr ()) | Some False \<Rightarrow> Some (Inl (AbortKernelCallback (-1))))"

definition compartment_forward_exit :: "'c CompartmentBase \<Rightarrow> int \<Rightarrow> 'c CompartmentBase" where
  "compartment_forward_exit self status = invalidate status self"

definition compartment_forward_alloc_chunk ::
  "'p platform \<Rightarrow> TCB option \<Rightarrow> 'p compartment_syscalls \<Rightarrow> 'p backend_inner \<Rightarrow> 'c CompartmentBase \<Rightarrow> u64 \<Rightarrow> u64 \<Rightarrow> 'p store \<Rightarrow>
   (u64 \<times> 'p store) result option" where
  "compartment_forward_alloc_chunk P tcb S I self sz ras s =
    (let remote = ras_remote I ras in
     run_bind (if remote \<noteq> 0
         then require_owner (validate_owner (pl_env P) (pl_slot P) (get_owner self) remote (sizeof_remote I) 1 (owners (st_memory s)))
         else Some (Inr ())) (\<lambda>_.
     if ras_slab_size I ras \<noteq> sz then Some (Inl (AbortKernelCallback (-1)))
     else
       run_bind (backend_alloc_chunk tcb S I (alloc_local_state self) sz ras s) (\<lambda>((slab, meta), s1).
       Some (Inr (meta, s1\<lparr>st_bytes := store64 meta slab (st_bytes s1)\<rparr>)))))"

definition compartment_forward_alloc_meta_data ::
  "TCB option \<Rightarrow> 'p compartment_syscalls \<Rightarrow> 'p backend_inner \<Rightarrow> 'c CompartmentBase \<Rightarrow> u64 \<Rightarrow> 'p store \<Rightarrow> (u64 \<times> 'p store) result option" where
  "compartment_forward_alloc_meta_data tcb S I self sz s =
    run_bind (backend_alloc_meta_data tcb S I (alloc_local_state self) sz s) (\<lambda>(result, s1).
      Some (Inr (result, s1\<lparr>st_bytes := store64 result result (st_bytes s1)\<rparr>)))"

definition compartment_forward_dealloc_chunk ::
  "'p platform \<Rightarrow> TCB option \<Rightarrow> 'p compartment_syscalls \<Rightarrow> 'p backend_inner \<Rightarrow> 'c CompartmentBase \<Rightarrow> u64 \<Rightarrow> u64 \<Rightarrow> 'p store \<Rightarrow>
   'p store result option" where
  "compartment_forward_dealloc_chunk P tcb S I self p sz s =
    run_bind (require_owner (validate_owner_range (pl_env P) (pl_slot P) (get_owner self) p sz (owners (st_memory s)))) (\<lambda>_.
      let slab_size = entry_slab_size I p s in
      if slab_size \<noteq> sz then Some (Inl (AbortKernelCallback (-1)))
      else
        let aligned_p = align_down (pl_env P) p slab_size in
        if aligned_p \<noteq> p then Some (Inl (AbortKernelCallback (-1)))
        else backend_dealloc_chunk tcb S I (alloc_local_state self) (entry_slab_metadata I p s) p sz s)"

text \<open>
  A registered callback: the sizes of its argument tuple and result, and the function, which
  reads its arguments from memory and yields the bytes of the result.
\<close>

record 'p Callback =
  sizeof_args :: u64
  sizeof_result :: u64
  callback_function :: "u64 \<Rightarrow> 'p store \<Rightarrow> (u8 list \<times> 'p store) result option"

definition store_bytes :: "u64 \<Rightarrow> u8 list \<Rightarrow> bytes \<Rightarrow> bytes" where
  "store_bytes p bs m = (\<lambda>x. if unat (x - p) < length bs then bs ! unat (x - p) else m x)"

definition callback :: "'p platform \<Rightarrow> 'p Callback \<Rightarrow> CompartmentOwner \<Rightarrow> u64 \<Rightarrow> u64 \<Rightarrow> 'p store \<Rightarrow> 'p store result option" where
  "callback P f owner ret data s =
    run_bind (require_owner (validate_owner (pl_env P) (pl_slot P) owner data (sizeof_args f) 1 (owners (st_memory s)))) (\<lambda>_.
    run_bind (require_owner (validate_owner (pl_env P) (pl_slot P) owner ret (sizeof_result f) 1 (owners (st_memory s)))) (\<lambda>_.
    run_bind (callback_function f data s) (\<lambda>(bs, s1). Some (Inr (s1\<lparr>st_bytes := store_bytes ret bs (st_bytes s1)\<rparr>)))))"

definition compartment_forward_callback ::
  "'p platform \<Rightarrow> 'p Callback CompartmentBase \<Rightarrow> nat \<Rightarrow> u64 \<Rightarrow> u64 \<Rightarrow> 'p store \<Rightarrow> 'p store result option" where
  "compartment_forward_callback P self index ret data s =
    (case get_callback index self of
       None \<Rightarrow> Some (Inl (AbortKernelCallback (-1)))
     | Some f \<Rightarrow> callback P f (get_owner self) ret data s)"

text \<open>The handle used inside a compartment: it refuses another compartment's context.\<close>

record CompartmentCallback =
  handle_owner :: CompartmentOwner
  handle_index :: u64

definition null_callback :: CompartmentCallback where
  "null_callback = \<lparr>handle_owner = null_owner, handle_index = -1\<rparr>"

definition call_handle ::
  "TCB option \<Rightarrow> CompartmentCallback \<Rightarrow> (u64 \<Rightarrow> u64 \<Rightarrow> u64 \<Rightarrow> 'p store \<Rightarrow> 'p store result option) \<Rightarrow> u64 \<Rightarrow> u64 \<Rightarrow> 'p store \<Rightarrow> 'p store result option" where
  "call_handle tcb h compartment_callback ret_place args_place s =
    (if \<not> matches_compartment (handle_owner h) tcb then Some (Inl Abort)
     else compartment_callback (handle_index h) ret_place args_place s)"

text \<open>The protected console: a span of spans in memory, each inner one a pointer and a length.\<close>

definition read_spans :: "u64 \<Rightarrow> u64 \<Rightarrow> bytes \<Rightarrow> byte_span list" where
  "read_spans p count m = map (\<lambda>i. mk_span (load64 (p + 16 * word_of_nat i) m) (load64 (p + 16 * word_of_nat i + 8) m)) [0..<unat count]"

definition span_bytes :: "bytes \<Rightarrow> byte_span \<Rightarrow> u8 list" where
  "span_bytes m b = map (\<lambda>i. m (sdata b + word_of_nat i)) [0..<unat (scount b)]"

definition check_buffer :: "'p platform \<Rightarrow> CompartmentOwner \<Rightarrow> ownership \<Rightarrow> byte_span \<Rightarrow> unit result option" where
  "check_buffer P owner os b =
    (case validate_owner (pl_env P) (pl_slot P) null_owner (sdata b) 1 (scount b) os of
       None \<Rightarrow> None
     | Some True \<Rightarrow> Some (Inr ())
     | Some False \<Rightarrow> require_owner (validate_owner (pl_env P) (pl_slot P) owner (sdata b) 1 (scount b) os))"

primrec check_buffers :: "'p platform \<Rightarrow> CompartmentOwner \<Rightarrow> ownership \<Rightarrow> byte_span list \<Rightarrow> unit result option" where
  "check_buffers P owner os [] = Some (Inr ())"
| "check_buffers P owner os (b # bs) = run_bind (check_buffer P owner os b) (\<lambda>_. check_buffers P owner os bs)"

definition kwritev_stdout_protected ::
  "'p platform \<Rightarrow> CompartmentOwner \<Rightarrow> byte_span \<Rightarrow> 'p store \<Rightarrow> (u64 \<times> u8 list) result option" where
  "kwritev_stdout_protected P owner unsafe_data s =
    run_bind (require_owner (validate_owner (pl_env P) (pl_slot P) owner (sdata unsafe_data) 16 (scount unsafe_data) (owners (st_memory s)))) (\<lambda>_.
      let buffers = read_spans (sdata unsafe_data) (scount unsafe_data) (st_bytes s) in
      run_bind (check_buffers P owner (owners (st_memory s)) buffers) (\<lambda>_.
        Some (Inr (sum_list (map scount buffers), concat (map (span_bytes (st_bytes s)) buffers)))))"

lemma require_owner_ok: "require_owner v = Some (Inr u) \<longleftrightarrow> v = Some True"
  by (auto simp: require_owner_def split: option.splits bool.splits)

lemma register_get_callback:
  assumes "register_callback f c = ((owner, index), c')"
  shows "owner = get_owner c" and "get_callback index c' = Some f"
    and "i < index \<Longrightarrow> get_callback i c' = get_callback i c" and "index < i \<Longrightarrow> get_callback i c' = None"
  using assms by (auto simp: register_callback_def get_callback_def nth_append get_owner_def)

lemma forward_callback_unknown:
  "length (callbacks self) \<le> index \<Longrightarrow> compartment_forward_callback P self index ret data s = Some (Inl (AbortKernelCallback (-1)))"
  by (simp add: compartment_forward_callback_def get_callback_def)

text \<open>A chunk request from inside a compartment, through the system call: the caller gets what the backend of the kernel made.\<close>

lemma alloc_chunk_call:
  assumes "is_compartment tcb" and "\<not> is_compartment ktcb"
    and "compartment_alloc_chunk S = (\<lambda>sz ras. compartment_forward_alloc_chunk P ktcb S I self sz ras)"
    and "backend_alloc_chunk tcb S I' r sz ras s = Some (Inr ((slab, meta), s'))"
  shows "\<exists>s1. backend_alloc_chunk ktcb S I (alloc_local_state self) sz ras s = Some (Inr ((slab, meta), s1)) \<and> slab \<noteq> 0 \<and>
    st_memory s' = st_memory s1 \<and> (\<forall>x. st_bytes s' x = (if x - meta < 8 then 0 else st_bytes s1 x))"
proof -
  have "compartment_alloc_chunk_wrapper S sz ras s = Some (Inr ((slab, meta), s'))"
    using assms(1,4) by (simp add: backend_alloc_chunk_def)
  then obtain slab' s1 where k: "backend_alloc_chunk ktcb S I (alloc_local_state self) sz ras s = Some (Inr ((slab', meta), s1))"
      and s': "slab = load64 meta (store64 meta slab' (st_bytes s1))"
        "s' = s1\<lparr>st_bytes := memset meta 0 8 (store64 meta slab' (st_bytes s1))\<rparr>"
    unfolding compartment_alloc_chunk_wrapper_def assms(3) compartment_forward_alloc_chunk_def Let_def
    by (auto simp: run_bind_ok_iff split: if_splits)
  moreover have "slab' \<noteq> 0"
    using k assms(2) by (auto simp: backend_alloc_chunk_def run_bind_ok_iff report_out_of_memory_def split: if_splits)
  moreover have "memset meta 0 8 (store64 meta slab' (st_bytes s1)) x = (if x - meta < 8 then 0 else st_bytes s1 x)" for x
    by (simp add: memset_def store64_def store_le_def word_less_nat)
  ultimately show ?thesis by auto
qed

text \<open>The heap start-up zeroes the pagemaps and gives the global range what is left of the first range.\<close>

lemma consume_init_range_ok:
  assumes "consume_init_range notify nb (r, m) = Inr (r', m')"
  shows "ir_base r \<le> nb \<and> ir_base r' = nb \<and> 0 < ir_initial_length r' \<and>
    ir_base r' + ir_initial_length r' = ir_base r + ir_initial_length r \<and>
    ir_base r' + ir_max_length r' = ir_base r + ir_max_length r"
  using assms
  by (auto simp: consume_init_range_def Let_def word_nat unat_sub64 split: if_splits)

text \<open>Ranges that the owner check decides exactly: they start on a granule or lie inside one.\<close>

definition regular_range :: "env \<Rightarrow> u64 \<Rightarrow> u64 \<Rightarrow> bool" where
  "regular_range E p sz \<longleftrightarrow> unat p + unat sz + unat (MIN_OWNERSHIP_SIZE E) \<le> 2 ^ 64 \<and>
    (unat (MIN_OWNERSHIP_SIZE E) dvd unat p \<or>
     unat p div unat (MIN_OWNERSHIP_SIZE E) = (unat p + unat sz - 1) div unat (MIN_OWNERSHIP_SIZE E))"

lemma regular_owned:
  assumes fp: "flat_pagemap E slot slot_address" and reg: "regular_range E p sz"
    and v: "validate_owner_range E slot owner p sz s = Some True" and x: "in_request p sz x"
  shows "get_monza_owner slot x s = owner"
proof -
  have pos: "0 < unat (MIN_OWNERSHIP_SIZE E)" using fp snmalloc_env.ownership_pos by (auto simp: flat_pagemap_def)
  have top: "unat p + unat sz + unat (MIN_OWNERSHIP_SIZE E) \<le> 2 ^ 64" using reg by (simp add: regular_range_def)
  show ?thesis
  proof (cases "unat (MIN_OWNERSHIP_SIZE E) dvd unat p")
    case True
    show ?thesis by (rule validated_range_owned [OF fp True top v x])
  next
    case False
    have "unat p + unat sz < 2 ^ 64" using top pos by linarith
    then show ?thesis using validated_granule_owned [OF fp _ v x] False reg by (simp add: regular_range_def)
  qed
qed

lemma aligned_block_regular:
  assumes "snmalloc_env E" "pow2 sz" "unat sz dvd unat p"
    and top: "unat p + unat sz + unat (MIN_OWNERSHIP_SIZE E) \<le> 2 ^ 64"
  shows "regular_range E p sz"
proof -
  let ?G = "unat (MIN_OWNERSHIP_SIZE E)"
  note g = snmalloc_env.ownership_pow2 [OF assms(1)]
  show ?thesis
  proof (cases "?G \<le> unat sz")
    case True
    then have "?G dvd unat p" using pow2_dvd [OF g assms(2)] assms(3) dvd_trans by blast
    then show ?thesis using top by (simp add: regular_range_def)
  next
    case False
    then have d: "unat sz dvd ?G" using pow2_dvd [OF assms(2) g] by simp
    have sz: "0 < unat sz" by (rule pow2_pos [OF assms(2)])
    obtain a b where ab: "unat p = unat sz * a" "?G = unat sz * b" using assms(3) d by (auto elim!: dvdE)
    obtain r where r: "unat p + unat sz - 1 = unat p + r" "r < unat sz" using sz by (metis Nat.add_diff_assoc Suc_leI One_nat_def diff_less zero_less_one)
    then have "(unat p + unat sz - 1) div unat sz = a" using sz ab(1) by simp
    then have "(unat p + unat sz - 1) div ?G = a div b" by (metis ab(2) div_mult2_eq)
    moreover have "unat p div ?G = a div b" using sz ab by simp
    ultimately show ?thesis using top by (simp add: regular_range_def)
  qed
qed


definition sample_backend :: "u64 backend_inner" where
  "sample_backend = \<lparr>inner_alloc_meta_data = (\<lambda>r sz s. Some (Inr (0x20000, s))),
     inner_alloc_chunk = (\<lambda>r sz ras s. Some (Inr ((0x14000, 0x20000), s))),
     inner_dealloc_chunk = (\<lambda>r meta p sz s. Some (Inr (s\<lparr>st_memory := (st_memory s)\<lparr>parent := p\<rparr>\<rparr>))),
     ras_remote = (\<lambda>_. 0), ras_slab_size = (\<lambda>_. 0x4000), sizeof_remote = 64,
     entry_slab_size = (\<lambda>p s. 0x4000), entry_slab_metadata = (\<lambda>p s. 0x20000)\<rparr>"

definition sample_calls :: "u64 compartment_syscalls" where
  "sample_calls = \<lparr>compartment_alloc_chunk = (\<lambda>sz ras s. None), compartment_alloc_meta_data = (\<lambda>sz s. None),
     compartment_dealloc_chunk = (\<lambda>p sz s. None)\<rparr>"

definition owned_store :: "u64 store" where
  "owned_store = sample_store\<lparr>st_memory := (st_memory sample_store)\<lparr>owners := owned_once\<rparr>\<rparr>"


lemma check_buffers_ok:
  "check_buffers P owner os bs = Some (Inr u) \<Longrightarrow> b \<in> set bs \<Longrightarrow>
    validate_owner_range (pl_env P) (pl_slot P) null_owner (sdata b) (scount b) os = Some True \<or>
    validate_owner_range (pl_env P) (pl_slot P) owner (sdata b) (scount b) os = Some True"
proof (induction bs)
  case (Cons c bs)
  have "check_buffer P owner os c = Some (Inr ())" "check_buffers P owner os bs = Some (Inr u)"
    using Cons.prems(1) by (auto simp: run_bind_ok_iff)
  moreover from this(1) have "validate_owner_range (pl_env P) (pl_slot P) null_owner (sdata c) (scount c) os = Some True \<or>
      validate_owner_range (pl_env P) (pl_slot P) owner (sdata c) (scount c) os = Some True"
    by (auto simp: check_buffer_def validate_owner_def require_owner_ok split: option.splits bool.splits)
  ultimately show ?case using Cons by auto
qed simp

text \<open>
  C23: the console call made for a compartment prints the bytes of its buffers in order and
  nothing else, and every byte of a buffer that starts on an ownership granule or lies
  inside one comes from memory that the compartment or nobody owns.
\<close>

theorem kwritev_stdout_protected_safe:
  assumes "flat_pagemap (pl_env P) (pl_slot P) slot_address"
    and "kwritev_stdout_protected P owner data s = Some (Inr (n, printed))"
  shows "printed = concat (map (span_bytes (st_bytes s)) (read_spans (sdata data) (scount data) (st_bytes s))) \<and>
    (\<forall>b \<in> set (read_spans (sdata data) (scount data) (st_bytes s)). regular_range (pl_env P) (sdata b) (scount b) \<longrightarrow>
      (\<forall>x. in_request (sdata b) (scount b) x \<longrightarrow>
        get_monza_owner (pl_slot P) x (owners (st_memory s)) \<in> {null_owner, owner}))"
proof -
  let ?bs = "read_spans (sdata data) (scount data) (st_bytes s)"
  have c: "check_buffers P owner (owners (st_memory s)) ?bs = Some (Inr ())"
    and p: "printed = concat (map (span_bytes (st_bytes s)) ?bs)"
    using assms(2) unfolding kwritev_stdout_protected_def Let_def by (auto simp: run_bind_ok_iff)
  have "get_monza_owner (pl_slot P) x (owners (st_memory s)) \<in> {null_owner, owner}"
    if "b \<in> set ?bs" "regular_range (pl_env P) (sdata b) (scount b)" "in_request (sdata b) (scount b) x" for b x
    using check_buffers_ok [OF c that(1)] regular_owned [OF assms(1) that(2) _ that(3)] by auto
  then show ?thesis using p by blast
qed

text \<open>One buffer of four bytes at 0x14100, described at 0x14000, in memory of compartment 7.\<close>

definition print_store :: "u64 store" where
  "print_store = owned_store\<lparr>st_bytes := store64 0x14008 4 (store64 0x14000 0x14100 (\<lambda>_. 65))\<rparr>"

theorem kwritev_stdout_protected_safe_witness:
  "kwritev_stdout_protected bump_platform 7 (mk_span 0x14000 1) print_store = Some (Inr (4, [65, 65, 65, 65])) \<and>
    get_monza_owner (full_slot (rounding_env 4096)) 0x14103 owned_once \<in> {null_owner, 7}"
proof -
  have fp: "flat_pagemap (pl_env bump_platform) (pl_slot bump_platform) (full_address (rounding_env 4096))"
    using full_small.flat_pagemap_axioms by simp
  have spans: "read_spans 0x14000 1 (st_bytes print_store) = [mk_span 0x14100 4]"
    by (simp add: read_spans_def print_store_def load64_store64_other)
  have own: "owners (st_memory print_store) = owned_once" by (simp add: print_store_def owned_store_def)
  have run: "kwritev_stdout_protected bump_platform 7 (mk_span 0x14000 1) print_store = Some (Inr (4, [65, 65, 65, 65]))"
    by (simp add: kwritev_stdout_protected_def mk_span_def [of "0x14000"] spans own check_buffer_def)
      (simp add: mk_span_def validate_owner_def validate_owner_range_def validate_loop.simps granule_small get_monza_owner_def
      full_slot_def owned_once_def require_owner_def null_owner_def span_bytes_def print_store_def store64_def store_le_def upt_rec)
  have "regular_range (rounding_env 4096) 0x14100 4" by (simp add: regular_range_def granule_small)
  then have "get_monza_owner (pl_slot bump_platform) 0x14103 (owners (st_memory print_store)) \<in> {null_owner, 7}"
    using kwritev_stdout_protected_safe [OF fp run] by (simp add: mk_span_def [of "0x14000"] spans) (simp add: mk_span_def in_request_def)
  then show ?thesis using run by (simp add: own)
qed

end
