(* ===== verification/Semaphore.thy ===== *)
theory Semaphore
  imports Threads
begin

text \<open>
  The halting semaphore: \<open>SingleWaiterSemaphore\<close> of \<open>crt/thread.cc\<close> over \<open>acquire_semaphore\<close> of
  \<open>arch/x86_64/cores.asm\<close> and \<open>ping_core_sync\<close> of \<open>arch/x86_64/cores.cc\<close>.  The waiting core
  checks the value and halts in two instructions; the interrupt handler moves an
  interrupted check back to its start.  The step relation interleaves one waiter, any
  number of releasing threads and the delivery of interrupts; each step is one access.
  The value is a natural number: the number of releases stays below 2^64.
\<close>

datatype waiter_pc = WIdle | StoreWaiter | LoadValue | TestValue nat | Halt | Halted | TryDecrement nat | ClearWaiter

datatype release_pc = RIdle | LoadWaiter nat | LoadGeneration | TriggerIpi nat | CheckGeneration nat

record semaphore =
  sem_value :: nat
  sem_waiter :: u32
  generation :: nat
  ipi_pending :: bool
  waiter_pc :: waiter_pc
  release_pcs :: "u32 \<Rightarrow> release_pc"
  acquired :: nat
  released :: nat

definition semaphore_init :: semaphore where
  "semaphore_init = \<lparr>sem_value = 0, sem_waiter = 0, generation = 0, ipi_pending = False, waiter_pc = WIdle,
     release_pcs = (\<lambda>_. RIdle), acquired = 0, released = 0\<rparr>"

text \<open>\<open>acquire\<close> by the thread w, from the store of the waiter to its clearing.\<close>

definition semaphore_acquire :: "u32 \<Rightarrow> semaphore \<Rightarrow> semaphore" where
  "semaphore_acquire w s =
    (case waiter_pc s of
       WIdle \<Rightarrow> s
     | StoreWaiter \<Rightarrow> s\<lparr>sem_waiter := w, waiter_pc := LoadValue\<rparr>
     | LoadValue \<Rightarrow> s\<lparr>waiter_pc := TestValue (sem_value s)\<rparr>
     | TestValue v \<Rightarrow> s\<lparr>waiter_pc := (if v \<noteq> 0 then TryDecrement v else Halt)\<rparr>
     | Halt \<Rightarrow> s\<lparr>waiter_pc := Halted\<rparr>
     | Halted \<Rightarrow> s
     | TryDecrement v \<Rightarrow>
         (if sem_value s = v then s\<lparr>sem_value := v - 1, acquired := Suc (acquired s), waiter_pc := ClearWaiter\<rparr>
          else s\<lparr>waiter_pc := LoadValue\<rparr>)
     | ClearWaiter \<Rightarrow> s\<lparr>sem_waiter := 0, waiter_pc := WIdle\<rparr>)"

text \<open>The interrupt handler on the core of the waiter, with the check that restarts an interrupted test-and-halt.\<close>

definition wakeup_handler :: "semaphore \<Rightarrow> semaphore" where
  "wakeup_handler s =
    s\<lparr>generation := Suc (generation s), ipi_pending := False,
      waiter_pc := (case waiter_pc s of TestValue v \<Rightarrow> LoadValue | Halt \<Rightarrow> LoadValue | Halted \<Rightarrow> LoadValue | p \<Rightarrow> p)\<rparr>"

text \<open>\<open>release\<close> by the thread r, and the ping that repeats the interrupt until the generation changes.\<close>

definition semaphore_release :: "u32 \<Rightarrow> semaphore \<Rightarrow> semaphore" where
  "semaphore_release r s =
    (case release_pcs s r of
       RIdle \<Rightarrow> s\<lparr>sem_value := Suc (sem_value s), released := Suc (released s), release_pcs := (release_pcs s)(r := LoadWaiter (sem_value s))\<rparr>
     | LoadWaiter last_value \<Rightarrow>
         s\<lparr>release_pcs := (release_pcs s)(r :=
           (if last_value = 0 \<and> sem_waiter s \<noteq> 0 \<and> sem_waiter s \<noteq> r then LoadGeneration else RIdle))\<rparr>
     | LoadGeneration \<Rightarrow> s\<lparr>release_pcs := (release_pcs s)(r := TriggerIpi (generation s))\<rparr>
     | TriggerIpi g \<Rightarrow> s\<lparr>ipi_pending := True, release_pcs := (release_pcs s)(r := CheckGeneration g)\<rparr>
     | CheckGeneration g \<Rightarrow>
         s\<lparr>release_pcs := (release_pcs s)(r := (if g = generation s then TriggerIpi g else RIdle))\<rparr>)"

inductive semaphore_step :: "u32 \<Rightarrow> semaphore \<Rightarrow> semaphore \<Rightarrow> bool" for w where
  call: "waiter_pc s = WIdle \<Longrightarrow> semaphore_step w s (s\<lparr>waiter_pc := StoreWaiter\<rparr>)"
| acquire: "semaphore_step w s (semaphore_acquire w s)"
| release: "r \<noteq> w \<Longrightarrow> semaphore_step w s (semaphore_release r s)"
| interrupt: "ipi_pending s \<Longrightarrow> semaphore_step w s (wakeup_handler s)"

text \<open>A releaser that will still raise an interrupt.\<close>

definition will_ping :: "semaphore \<Rightarrow> u32 \<Rightarrow> bool" where
  "will_ping s r = (case release_pcs s r of LoadWaiter v \<Rightarrow> v = 0 | LoadGeneration \<Rightarrow> True | TriggerIpi g \<Rightarrow> True | _ \<Rightarrow> False)"

definition about_to_halt :: "waiter_pc \<Rightarrow> bool" where
  "about_to_halt p = (case p of TestValue v \<Rightarrow> v = 0 | Halt \<Rightarrow> True | Halted \<Rightarrow> True | _ \<Rightarrow> False)"

definition semaphore_ok :: "u32 \<Rightarrow> semaphore \<Rightarrow> bool" where
  "semaphore_ok w s \<longleftrightarrow> acquired s + sem_value s = released s \<and>
    (case waiter_pc s of WIdle \<Rightarrow> sem_waiter s = 0 | StoreWaiter \<Rightarrow> sem_waiter s = 0 | TryDecrement v \<Rightarrow> sem_waiter s = w \<and> 0 < v | _ \<Rightarrow> sem_waiter s = w) \<and>
    (about_to_halt (waiter_pc s) \<longrightarrow> 0 < sem_value s \<longrightarrow> ipi_pending s \<or> (\<exists>r. r \<noteq> w \<and> will_ping s r))"

lemma will_ping_same [simp]:
  "will_ping (semaphore_acquire w s) r = will_ping s r" "will_ping (wakeup_handler s) r = will_ping s r"
  by (auto simp: will_ping_def semaphore_acquire_def wakeup_handler_def split: waiter_pc.splits)

lemma semaphore_acquire_ok:
  assumes "semaphore_ok w s"
  shows "semaphore_ok w (semaphore_acquire w s)"
proof -
  have "ipi_pending (semaphore_acquire w s) = ipi_pending s"
    by (simp add: semaphore_acquire_def split: waiter_pc.splits)
  then show ?thesis using assms unfolding semaphore_ok_def will_ping_same
    by (cases "waiter_pc s") (simp_all add: semaphore_acquire_def about_to_halt_def)
qed

lemma wakeup_handler_ok: "semaphore_ok w s \<Longrightarrow> semaphore_ok w (wakeup_handler s)"
  unfolding semaphore_ok_def will_ping_same
  by (cases "waiter_pc s") (simp_all add: wakeup_handler_def about_to_halt_def)

lemma will_ping_other: "r' \<noteq> r \<Longrightarrow> will_ping (semaphore_release r s) r' = will_ping s r'"
  by (auto simp: will_ping_def semaphore_release_def split: release_pc.splits)

lemma semaphore_release_ok:
  assumes ok: "semaphore_ok w s" and r: "r \<noteq> w" and w: "w \<noteq> 0"
  shows "semaphore_ok w (semaphore_release r s)"
proof -
  let ?s = "semaphore_release r s"
  have same: "waiter_pc ?s = waiter_pc s" "sem_waiter ?s = sem_waiter s" "acquired ?s + sem_value ?s = released ?s"
    using ok by (auto simp: semaphore_ok_def semaphore_release_def split: release_pc.splits)
  have "ipi_pending ?s \<or> (\<exists>r'. r' \<noteq> w \<and> will_ping ?s r')" if h: "about_to_halt (waiter_pc s)" "0 < sem_value ?s"
  proof (cases "will_ping ?s r \<or> ipi_pending ?s")
    case False
    have wt: "sem_waiter s = w" using ok h(1) by (cases "waiter_pc s") (auto simp: semaphore_ok_def about_to_halt_def)
    have keep: "\<not> will_ping s r \<and> 0 < sem_value s" "ipi_pending ?s = ipi_pending s"
      using False h(2) wt r w by (auto simp: will_ping_def semaphore_release_def split: release_pc.splits if_splits)
    then obtain r' where "r' \<noteq> w" "will_ping s r'"
      using ok h(1) False unfolding semaphore_ok_def by auto
    moreover from this keep have "r' \<noteq> r" by auto
    ultimately show ?thesis using will_ping_other by blast
  qed (use r in auto)
  then show ?thesis using ok same(3) unfolding semaphore_ok_def same(1,2) by blast
qed

lemma semaphore_step_ok: "semaphore_step w s s' \<Longrightarrow> w \<noteq> 0 \<Longrightarrow> semaphore_ok w s \<Longrightarrow> semaphore_ok w s'"
proof (induction rule: semaphore_step.induct)
  case (call s)
  then show ?case by (simp add: semaphore_ok_def about_to_halt_def)
qed (auto intro: semaphore_acquire_ok semaphore_release_ok wakeup_handler_ok)

lemma semaphore_reach_ok:
  "(semaphore_step w)\<^sup>*\<^sup>* semaphore_init s \<Longrightarrow> w \<noteq> 0 \<Longrightarrow> semaphore_ok w s"
proof (induction rule: rtranclp_induct)
  case base
  show ?case by (simp add: semaphore_ok_def semaphore_init_def about_to_halt_def)
next
  case (step s s')
  then show ?case by (blast intro: semaphore_step_ok)
qed



end
