(* ===== verification/Sync.thy ===== *)
theory Sync
  imports Semaphore
begin

text \<open>
  Locks: \<open>Spinlock\<close> and \<open>ScopedSpinlock\<close> (\<open>crt/thread.cc\<close>, \<open>include/private/spinlock.h\<close>) and the mutex,
  recursive mutex, condition variable and run-once flag of \<open>monza-libcxx/src/threading.cc\<close>.  A
  mutex and a condition variable used with it are one step relation over n threads; a
  step is one access to a lock word, to the flag \<open>taken\<close>, to a wait queue or to the
  semaphore of a thread.  \<open>sleep_thread\<close> and \<open>wake_thread\<close> count: the semaphore loses no
  notification.  The queue of the Verona runtime is a parameter, with the laws of a
  first-in first-out queue as its interface.
\<close>

text \<open>The spinlock: an exchange that succeeds when the old value was 0, and a store of 0.\<close>

definition spin_exchange :: "u64 \<Rightarrow> bool \<times> u64" where
  "spin_exchange lock = (lock = 0, 1)"

definition spin_release :: "u64 \<Rightarrow> u64" where
  "spin_release lock = 0"

record ScopedSpinlock =
  lock_word :: u64
  scope_released :: bool

definition scoped_release :: "ScopedSpinlock \<Rightarrow> ScopedSpinlock" where
  "scoped_release s = s\<lparr>lock_word := spin_release (lock_word s), scope_released := True\<rparr>"

definition scoped_destroy :: "ScopedSpinlock \<Rightarrow> ScopedSpinlock" where
  "scoped_destroy s = (if \<not> scope_released s then scoped_release s else s)"

text \<open>
  The operations of \<open>verona::Queue\<close> that the locks call, and the elements that a queue
  holds, in order.  The laws are those of a queue.
\<close>

record 'q queue_ops =
  q_new :: 'q
  q_enqueue :: "'q \<Rightarrow> nat \<Rightarrow> 'q"
  q_is_empty :: "'q \<Rightarrow> bool"
  q_dequeue :: "'q \<Rightarrow> nat \<times> 'q"
  q_elems :: "'q \<Rightarrow> nat list"

locale wait_queue =
  fixes Q :: "'q queue_ops"
  assumes elems_new [simp]: "q_elems Q (q_new Q) = []"
    and elems_enqueue [simp]: "q_elems Q (q_enqueue Q q e) = q_elems Q q @ [e]"
    and is_empty_elems [simp]: "q_is_empty Q q \<longleftrightarrow> q_elems Q q = []"
    and dequeue_elems: "q_elems Q q \<noteq> [] \<Longrightarrow> fst (q_dequeue Q q) = hd (q_elems Q q) \<and> q_elems Q (snd (q_dequeue Q q)) = tl (q_elems Q q)"

text \<open>
  Program points.  \<open>L\<close>: \<open>lock\<close>; \<open>U\<close>: \<open>unlock\<close>, called by \<open>wait\<close> if its flag is set; \<open>C\<close>: \<open>wait\<close>; \<open>S\<close> and
  \<open>B\<close>: \<open>signal\<close> and \<open>broadcast\<close>, by a caller that holds the mutex if the flag is set.
\<close>

datatype 'q sync_pc =
    Outside | Inside
  | LSpin | LExchange | LEnqueue | LReleaseGot | LReleaseWait | LSleep
  | USpin bool | UStore bool | UDequeue bool | URelease bool "nat option" | UWake bool "nat option"
  | CSpin | CEnqueue | CRelease | CSleep
  | SSpin bool | SDequeue bool | SRelease bool "nat option" | SWake bool "nat option"
  | BSpin bool | BDrain bool 'q | BRelease bool 'q | BWake bool 'q

record 'q sync =
  spin_lock :: u64
  taken :: bool
  waiters :: 'q
  cv_lock :: u64
  cv_waiters :: 'q
  wakes :: "nat \<Rightarrow> nat"
  pcs :: "nat \<Rightarrow> 'q sync_pc"

definition goto :: "nat \<Rightarrow> 'q sync_pc \<Rightarrow> 'q sync \<Rightarrow> 'q sync" where
  "goto t p s = s\<lparr>pcs := (pcs s)(t := p)\<rparr>"

definition wake_thread :: "nat option \<Rightarrow> 'q sync \<Rightarrow> 'q sync" where
  "wake_thread e s = (case e of None \<Rightarrow> s | Some u \<Rightarrow> s\<lparr>wakes := (wakes s)(u := Suc (wakes s u))\<rparr>)"

definition mutex_lock :: "'q queue_ops \<Rightarrow> nat \<Rightarrow> 'q sync \<Rightarrow> 'q sync" where
  "mutex_lock Q t s =
    (case pcs s t of
       LSpin \<Rightarrow> (let (got, w) = spin_exchange (spin_lock s) in
         if got then goto t LExchange (s\<lparr>spin_lock := w\<rparr>) else s\<lparr>spin_lock := w\<rparr>)
     | LExchange \<Rightarrow> goto t (if taken s then LEnqueue else LReleaseGot) (s\<lparr>taken := True\<rparr>)
     | LReleaseGot \<Rightarrow> goto t Inside (s\<lparr>spin_lock := spin_release (spin_lock s)\<rparr>)
     | LEnqueue \<Rightarrow> goto t LReleaseWait (s\<lparr>waiters := q_enqueue Q (waiters s) t\<rparr>)
     | LReleaseWait \<Rightarrow> goto t LSleep (s\<lparr>spin_lock := spin_release (spin_lock s)\<rparr>)
     | LSleep \<Rightarrow> (if 0 < wakes s t then goto t LSpin (s\<lparr>wakes := (wakes s)(t := wakes s t - 1)\<rparr>) else s)
     | _ \<Rightarrow> s)"

definition mutex_trylock :: "nat \<Rightarrow> 'q sync \<Rightarrow> bool \<times> 'q sync" where
  "mutex_trylock t s = (\<not> taken s, goto t (if taken s then Outside else Inside) (s\<lparr>taken := True\<rparr>))"

definition mutex_unlock :: "'q queue_ops \<Rightarrow> nat \<Rightarrow> 'q sync \<Rightarrow> 'q sync" where
  "mutex_unlock Q t s =
    (case pcs s t of
       USpin k \<Rightarrow> (let (got, w) = spin_exchange (spin_lock s) in
         if got then goto t (UStore k) (s\<lparr>spin_lock := w\<rparr>) else s\<lparr>spin_lock := w\<rparr>)
     | UStore k \<Rightarrow> goto t (UDequeue k) (s\<lparr>taken := False\<rparr>)
     | UDequeue k \<Rightarrow>
         (if q_is_empty Q (waiters s) then goto t (URelease k None) s
          else case q_dequeue Q (waiters s) of (e, q) \<Rightarrow> goto t (URelease k (Some e)) (s\<lparr>waiters := q\<rparr>))
     | URelease k e \<Rightarrow> goto t (UWake k e) (s\<lparr>spin_lock := spin_release (spin_lock s)\<rparr>)
     | UWake k e \<Rightarrow> goto t (if k then CSleep else Outside) (wake_thread e s)
     | _ \<Rightarrow> s)"

definition condvar_wait :: "'q queue_ops \<Rightarrow> nat \<Rightarrow> 'q sync \<Rightarrow> 'q sync" where
  "condvar_wait Q t s =
    (case pcs s t of
       CSpin \<Rightarrow> (let (got, w) = spin_exchange (cv_lock s) in
         if got then goto t CEnqueue (s\<lparr>cv_lock := w\<rparr>) else s\<lparr>cv_lock := w\<rparr>)
     | CEnqueue \<Rightarrow> goto t CRelease (s\<lparr>cv_waiters := q_enqueue Q (cv_waiters s) t\<rparr>)
     | CRelease \<Rightarrow> goto t (USpin True) (s\<lparr>cv_lock := spin_release (cv_lock s)\<rparr>)
     | CSleep \<Rightarrow> (if 0 < wakes s t then goto t LSpin (s\<lparr>wakes := (wakes s)(t := wakes s t - 1)\<rparr>) else s)
     | _ \<Rightarrow> s)"

definition condvar_signal :: "'q queue_ops \<Rightarrow> nat \<Rightarrow> 'q sync \<Rightarrow> 'q sync" where
  "condvar_signal Q t s =
    (case pcs s t of
       SSpin h \<Rightarrow> (let (got, w) = spin_exchange (cv_lock s) in
         if got then goto t (SDequeue h) (s\<lparr>cv_lock := w\<rparr>) else s\<lparr>cv_lock := w\<rparr>)
     | SDequeue h \<Rightarrow>
         (if q_is_empty Q (cv_waiters s) then goto t (SRelease h None) s
          else case q_dequeue Q (cv_waiters s) of (e, q) \<Rightarrow> goto t (SRelease h (Some e)) (s\<lparr>cv_waiters := q\<rparr>))
     | SRelease h e \<Rightarrow> goto t (SWake h e) (s\<lparr>cv_lock := spin_release (cv_lock s)\<rparr>)
     | SWake h e \<Rightarrow> goto t (if h then Inside else Outside) (wake_thread e s)
     | _ \<Rightarrow> s)"

definition condvar_broadcast :: "'q queue_ops \<Rightarrow> nat \<Rightarrow> 'q sync \<Rightarrow> 'q sync" where
  "condvar_broadcast Q t s =
    (case pcs s t of
       BSpin h \<Rightarrow> (let (got, w) = spin_exchange (cv_lock s) in
         if got then goto t (BDrain h (q_new Q)) (s\<lparr>cv_lock := w\<rparr>) else s\<lparr>cv_lock := w\<rparr>)
     | BDrain h q \<Rightarrow>
         (if q_is_empty Q (cv_waiters s) then goto t (BRelease h q) s
          else case q_dequeue Q (cv_waiters s) of (e, r) \<Rightarrow> goto t (BDrain h (q_enqueue Q q e)) (s\<lparr>cv_waiters := r\<rparr>))
     | BRelease h q \<Rightarrow> goto t (BWake h q) (s\<lparr>cv_lock := spin_release (cv_lock s)\<rparr>)
     | BWake h q \<Rightarrow>
         (if q_is_empty Q q then goto t (if h then Inside else Outside) s
          else case q_dequeue Q q of (e, r) \<Rightarrow> goto t (BWake h r) (wake_thread (Some e) s))
     | _ \<Rightarrow> s)"

text \<open>Where a thread may start an operation; unlocking and waiting need the mutex.\<close>

definition may_call :: "'q sync_pc \<Rightarrow> 'q sync_pc \<Rightarrow> bool" where
  "may_call p q \<longleftrightarrow> (p, q) \<in> {(Outside, LSpin), (Inside, USpin False), (Inside, CSpin), (Inside, SSpin True),
     (Inside, BSpin True), (Outside, SSpin False), (Outside, BSpin False)}"

inductive sync_step :: "'q queue_ops \<Rightarrow> nat \<Rightarrow> 'q sync \<Rightarrow> 'q sync \<Rightarrow> bool" for Q n where
  call: "t < n \<Longrightarrow> may_call (pcs s t) q \<Longrightarrow> sync_step Q n s (goto t q s)"
| lock: "t < n \<Longrightarrow> sync_step Q n s (mutex_lock Q t s)"
| trylock: "t < n \<Longrightarrow> pcs s t = Outside \<Longrightarrow> sync_step Q n s (snd (mutex_trylock t s))"
| unlock: "t < n \<Longrightarrow> sync_step Q n s (mutex_unlock Q t s)"
| wait: "t < n \<Longrightarrow> sync_step Q n s (condvar_wait Q t s)"
| signal: "t < n \<Longrightarrow> sync_step Q n s (condvar_signal Q t s)"
| broadcast: "t < n \<Longrightarrow> sync_step Q n s (condvar_broadcast Q t s)"

definition sync_init :: "'q queue_ops \<Rightarrow> 'q sync" where
  "sync_init Q = \<lparr>spin_lock = 0, taken = False, waiters = q_new Q, cv_lock = 0, cv_waiters = q_new Q, wakes = (\<lambda>_. 0), pcs = (\<lambda>_. Outside)\<rparr>"

lemmas sync_ops = mutex_lock_def mutex_trylock_def mutex_unlock_def condvar_wait_def condvar_signal_def condvar_broadcast_def
  spin_exchange_def spin_release_def wake_thread_def goto_def may_call_def

text \<open>Who is inside the spinlock section, and who has the mutex.\<close>

fun in_spin :: "'q sync_pc \<Rightarrow> bool" where
  "in_spin LExchange = True" | "in_spin LEnqueue = True" | "in_spin LReleaseGot = True" | "in_spin LReleaseWait = True"
| "in_spin (UStore k) = True" | "in_spin (UDequeue k) = True" | "in_spin (URelease k e) = True" | "in_spin _ = False"

fun owns :: "'q sync_pc \<Rightarrow> bool" where
  "owns LReleaseGot = True" | "owns Inside = True" | "owns (USpin k) = True" | "owns (UStore k) = True"
| "owns CSpin = True" | "owns CEnqueue = True" | "owns CRelease = True"
| "owns (SSpin h) = h" | "owns (SDequeue h) = h" | "owns (SRelease h e) = h" | "owns (SWake h e) = h"
| "owns (BSpin h) = h" | "owns (BDrain h q) = h" | "owns (BRelease h q) = h" | "owns (BWake h q) = h" | "owns _ = False"

text \<open>Whom an unlocking thread has taken from the queue and not woken yet.\<close>

fun unlock_entry :: "'q sync_pc \<Rightarrow> nat option" where
  "unlock_entry (URelease k e) = e" | "unlock_entry (UWake k e) = e" | "unlock_entry _ = None"

text \<open>The wakes for a thread that some thread still has to give.\<close>

fun pend :: "'q queue_ops \<Rightarrow> 'q sync_pc \<Rightarrow> nat \<Rightarrow> nat" where
  "pend Q (URelease k e) a = (if e = Some a then 1 else 0)" | "pend Q (UWake k e) a = (if e = Some a then 1 else 0)"
| "pend Q (SRelease k e) a = (if e = Some a then 1 else 0)" | "pend Q (SWake k e) a = (if e = Some a then 1 else 0)"
| "pend Q (BDrain h q) a = count_list (q_elems Q q) a" | "pend Q (BRelease h q) a = count_list (q_elems Q q) a" | "pend Q (BWake h q) a = count_list (q_elems Q q) a"
| "pend Q _ a = 0"

text \<open>A thread that has put itself in a queue and has not consumed the wake for it.\<close>

fun enrolled :: "'q sync_pc \<Rightarrow> bool" where
  "enrolled LReleaseWait = True" | "enrolled LSleep = True" | "enrolled CRelease = True" | "enrolled CSleep = True"
| "enrolled (USpin k) = k" | "enrolled (UStore k) = k" | "enrolled (UDequeue k) = k" | "enrolled (URelease k e) = k"
| "enrolled (UWake k e) = k" | "enrolled _ = False"

text \<open>A thread that will take the free mutex, or wake one that will.\<close>

fun coming_pc :: "'q sync_pc \<Rightarrow> bool" where
  "coming_pc LSpin = True" | "coming_pc LExchange = True" | "coming_pc (UDequeue k) = True"
| "coming_pc (URelease k e) = (e \<noteq> None)" | "coming_pc (UWake k e) = (e \<noteq> None)" | "coming_pc _ = False"

text \<open>How a step may change a flag and the section that it guards.\<close>

definition shift :: "('q sync_pc \<Rightarrow> bool) \<Rightarrow> bool \<Rightarrow> bool \<Rightarrow> 'q sync_pc \<Rightarrow> 'q sync_pc \<Rightarrow> bool" where
  "shift P flag flag' p x \<longleftrightarrow> (P x \<longrightarrow> flag' \<or> P p \<and> flag' = flag) \<and> (P x \<longrightarrow> P p \<or> \<not> flag) \<and> (flag \<longrightarrow> flag' \<or> P p \<and> \<not> P x)"

definition exclusive :: "nat \<Rightarrow> ('q sync_pc \<Rightarrow> bool) \<Rightarrow> bool \<Rightarrow> (nat \<Rightarrow> 'q sync_pc) \<Rightarrow> bool" where
  "exclusive n P flag p \<longleftrightarrow> (\<forall>t < n. P (p t) \<longrightarrow> flag) \<and> (\<forall>t < n. \<forall>u < n. P (p t) \<longrightarrow> P (p u) \<longrightarrow> t = u)"

lemma exclusive_shift:
  assumes e: "exclusive n P flag p" and t: "t < n" and sh: "shift P flag flag' (p t) x"
  shows "exclusive n P flag' (p(t := x))"
proof -
  have only: "u = t" if "u < n" "P (p u)" "P (p t)" for u using e t that by (auto simp: exclusive_def)
  have fl: "flag" if "u < n" "P (p u)" for u using e that by (auto simp: exclusive_def)
  have "flag'" if "u < n" "P ((p(t := x)) u)" for u
    using that sh fl [of u] fl [OF t] only [of u] by (cases "u = t") (auto simp: shift_def)
  moreover have "u = v" if "u < n" "v < n" "P ((p(t := x)) u)" "P ((p(t := x)) v)" for u v
    using that sh fl only e by (cases "u = t"; cases "v = t") (auto simp: shift_def exclusive_def t)
  ultimately show ?thesis by (auto simp: exclusive_def)
qed

text \<open>The local effect of a step of thread t, which is at p before and at x after it.\<close>

definition moves_only :: "nat \<Rightarrow> 'q sync \<Rightarrow> 'q sync \<Rightarrow> bool" where
  "moves_only t s s' \<longleftrightarrow> (\<forall>u. u \<noteq> t \<longrightarrow> pcs s' u = pcs s u)"

definition account :: "'q queue_ops \<Rightarrow> nat \<Rightarrow> 'q sync \<Rightarrow> nat \<Rightarrow> nat" where
  "account Q t s a = count_list (q_elems Q (waiters s)) a + count_list (q_elems Q (cv_waiters s)) a + pend Q (pcs s t) a + wakes s a"

definition account_ok :: "'q queue_ops \<Rightarrow> nat \<Rightarrow> 'q sync \<Rightarrow> 'q sync \<Rightarrow> bool" where
  "account_ok Q t s s' \<longleftrightarrow> (\<forall>a. account Q t s' a + (if a = t \<and> enrolled (pcs s t) then 1 else 0) =
    account Q t s a + (if a = t \<and> enrolled (pcs s' t) then 1 else 0))"

definition queue_ok :: "'q queue_ops \<Rightarrow> nat \<Rightarrow> 'q sync \<Rightarrow> 'q sync \<Rightarrow> bool" where
  "queue_ok Q t s s' \<longleftrightarrow>
     q_elems Q (waiters s') = q_elems Q (waiters s) \<and> (unlock_entry (pcs s' t) = None \<or> unlock_entry (pcs s' t) = unlock_entry (pcs s t)) \<or>
     pcs s t = LEnqueue \<and> pcs s' t = LReleaseWait \<and> q_elems Q (waiters s') = q_elems Q (waiters s) @ [t] \<or>
     in_spin (pcs s t) \<and> q_elems Q (waiters s) \<noteq> [] \<and> q_elems Q (waiters s') = tl (q_elems Q (waiters s)) \<and> unlock_entry (pcs s' t) = Some (hd (q_elems Q (waiters s)))"

definition taken_ok :: "nat \<Rightarrow> 'q sync \<Rightarrow> 'q sync \<Rightarrow> bool" where
  "taken_ok t s s' \<longleftrightarrow> (pcs s' t = LEnqueue \<longrightarrow> taken s' \<or> pcs s t = LEnqueue \<and> taken s' = taken s) \<and>
    (taken s \<and> \<not> taken s' \<longrightarrow> in_spin (pcs s t) \<and> coming_pc (pcs s' t))"

definition sleep_ok :: "nat \<Rightarrow> 'q sync \<Rightarrow> 'q sync \<Rightarrow> bool" where
  "sleep_ok t s s' \<longleftrightarrow>
    (pcs s t = LSleep \<longrightarrow> pcs s' t = LSleep \<and> wakes s t \<le> wakes s' t \<or> pcs s' t = LSpin \<and> 0 < wakes s t) \<and>
    (pcs s t = LReleaseWait \<longrightarrow> pcs s' t = LReleaseWait \<or> pcs s' t = LSleep) \<and> (\<forall>u. u \<noteq> t \<longrightarrow> wakes s u \<le> wakes s' u)"

definition coming_ok :: "'q queue_ops \<Rightarrow> nat \<Rightarrow> 'q sync \<Rightarrow> 'q sync \<Rightarrow> bool" where
  "coming_ok Q t s s' \<longleftrightarrow> coming_pc (pcs s t) \<longrightarrow> \<not> taken s \<longrightarrow> \<not> taken s' \<longrightarrow> q_elems Q (waiters s') \<noteq> [] \<longrightarrow>
    coming_pc (pcs s' t) \<or> (\<exists>e. unlock_entry (pcs s t) = Some e \<and> 0 < wakes s' e)"

definition local_ok :: "'q queue_ops \<Rightarrow> nat \<Rightarrow> 'q sync \<Rightarrow> 'q sync \<Rightarrow> bool" where
  "local_ok Q t s s' \<longleftrightarrow> moves_only t s s' \<and> shift in_spin (spin_lock s \<noteq> 0) (spin_lock s' \<noteq> 0) (pcs s t) (pcs s' t) \<and>
    shift owns (taken s) (taken s') (pcs s t) (pcs s' t) \<and> account_ok Q t s s' \<and> queue_ok Q t s s' \<and> taken_ok t s s' \<and> sleep_ok t s s' \<and> coming_ok Q t s s'"

lemmas local_defs = local_ok_def moves_only_def shift_def account_ok_def account_def queue_ok_def taken_ok_def sleep_ok_def coming_ok_def

lemma local_refl [simp]: "local_ok Q t s s"
  by (auto simp: local_defs)

lemma call_local: "may_call (pcs s t) q \<Longrightarrow> local_ok Q t s (goto t q s)"
  by (auto simp: may_call_def goto_def local_defs)

context wait_queue
begin

lemma lock_local: "local_ok Q t s (mutex_lock Q t s)"
  by (cases "pcs s t") (auto simp: mutex_lock_def spin_exchange_def spin_release_def goto_def local_defs)

lemma trylock_local: "pcs s t = Outside \<Longrightarrow> local_ok Q t s (snd (mutex_trylock t s))"
  by (auto simp: mutex_trylock_def goto_def local_defs)

lemma unlock_local: "local_ok Q t s (mutex_unlock Q t s)"
  by (cases "pcs s t"; cases "q_elems Q (waiters s)")
    (auto simp: mutex_unlock_def spin_exchange_def spin_release_def goto_def wake_thread_def local_defs case_prod_beta dequeue_elems split: option.split)

lemma wait_local: "local_ok Q t s (condvar_wait Q t s)"
  by (cases "pcs s t") (auto simp: condvar_wait_def spin_exchange_def spin_release_def goto_def local_defs)

lemma signal_local: "local_ok Q t s (condvar_signal Q t s)"
  by (cases "pcs s t"; cases "q_elems Q (cv_waiters s)")
    (auto simp: condvar_signal_def spin_exchange_def spin_release_def goto_def wake_thread_def local_defs case_prod_beta dequeue_elems split: option.split)

lemma broadcast_wake_local: "pcs s t = BWake h q \<Longrightarrow> local_ok Q t s (condvar_broadcast Q t s)"
  by (cases "q_elems Q q") (auto simp: condvar_broadcast_def goto_def wake_thread_def local_defs case_prod_beta dequeue_elems)

lemma broadcast_local: "local_ok Q t s (condvar_broadcast Q t s)"
proof (cases "\<exists>h q. pcs s t = BWake h q")
  case False
  then show ?thesis by (cases "pcs s t"; cases "q_elems Q (cv_waiters s)")
    (auto simp: condvar_broadcast_def spin_exchange_def spin_release_def goto_def wake_thread_def local_defs case_prod_beta dequeue_elems)
qed (use broadcast_wake_local in blast)

lemma sync_step_local:
  assumes "sync_step Q n s s'"
  obtains t where "t < n" "local_ok Q t s s'"
  using assms by (cases rule: sync_step.cases)
    (use call_local lock_local trylock_local unlock_local wait_local signal_local broadcast_local in blast)+

end

text \<open>The invariant of the mutex and its condition variable.\<close>

definition owed :: "'q queue_ops \<Rightarrow> nat \<Rightarrow> 'q sync \<Rightarrow> nat \<Rightarrow> nat" where
  "owed Q n s a = count_list (q_elems Q (waiters s)) a + count_list (q_elems Q (cv_waiters s)) a + (\<Sum>u < n. pend Q (pcs s u) a) + wakes s a"

definition coming :: "'q sync \<Rightarrow> nat \<Rightarrow> bool" where
  "coming s t \<longleftrightarrow> coming_pc (pcs s t) \<or> pcs s t = LSleep \<and> 0 < wakes s t"

definition sync_inv :: "'q queue_ops \<Rightarrow> nat \<Rightarrow> 'q sync \<Rightarrow> bool" where
  "sync_inv Q n s \<longleftrightarrow> exclusive n in_spin (spin_lock s \<noteq> 0) (pcs s) \<and> exclusive n owns (taken s) (pcs s) \<and>
    (\<forall>a. owed Q n s a = (if a < n \<and> enrolled (pcs s a) then 1 else 0)) \<and>
    (\<forall>a \<in> set (q_elems Q (waiters s)). a < n \<and> pcs s a \<in> {LReleaseWait, LSleep}) \<and>
    (\<forall>t < n. \<forall>a. unlock_entry (pcs s t) = Some a \<longrightarrow> a < n \<and> pcs s a = LSleep) \<and>
    (\<forall>t < n. pcs s t = LEnqueue \<longrightarrow> taken s) \<and>
    (\<not> taken s \<and> q_elems Q (waiters s) \<noteq> [] \<longrightarrow> (\<exists>t < n. coming s t))"

lemma owed_step:
  assumes t: "t < n" and l: "local_ok Q t s s'"
  shows "owed Q n s' a + (if a = t \<and> enrolled (pcs s t) then 1 else 0) = owed Q n s a + (if a = t \<and> enrolled (pcs s' t) then 1 else 0)"
proof -
  have split: "(\<Sum>u < n. pend Q (p u) a) = pend Q (p t) a + (\<Sum>u \<in> {..<n} - {t}. pend Q (p u) a)" for p
    by (rule sum.remove) (use t in auto)
  have same: "(\<Sum>u \<in> {..<n} - {t}. pend Q (pcs s' u) a) = (\<Sum>u \<in> {..<n} - {t}. pend Q (pcs s u) a)"
    by (rule sum.cong) (use l in \<open>auto simp: local_ok_def moves_only_def\<close>)
  have "account Q t s' a + (if a = t \<and> enrolled (pcs s t) then 1 else 0) = account Q t s a + (if a = t \<and> enrolled (pcs s' t) then 1 else 0)"
    using l unfolding local_ok_def account_ok_def by blast
  then show ?thesis unfolding owed_def split [of "pcs s'"] split [of "pcs s"] same account_def by linarith
qed

text \<open>A thread that waits for a wake has no other wake, given or to be given.\<close>

lemma owed_once:
  assumes inv: "sync_inv Q n s"
  shows "a \<in> set (q_elems Q (waiters s)) \<Longrightarrow> wakes s a = 0" "t < n \<Longrightarrow> unlock_entry (pcs s t) = Some a \<Longrightarrow> wakes s a = 0"
proof -
  have "owed Q n s a = (if a < n \<and> enrolled (pcs s a) then 1 else 0)" using inv unfolding sync_inv_def by blast
  then have one: "owed Q n s a \<le> 1" by simp
  show "wakes s a = 0" if "a \<in> set (q_elems Q (waiters s))"
  proof -
    have "count_list (q_elems Q (waiters s)) a \<noteq> 0" using that by (simp add: count_list_0_iff)
    then show ?thesis using one by (simp add: owed_def)
  qed
  assume t: "t < n" "unlock_entry (pcs s t) = Some a"
  then have "0 < pend Q (pcs s t) a" by (cases "pcs s t") auto
  then have "0 < (\<Sum>u < n. pend Q (pcs s u) a)" using t(1) by (meson finite_lessThan lessThan_iff sum_pos2 zero_le)
  then show "wakes s a = 0" using one by (simp add: owed_def)
qed

lemma step_others: "local_ok Q t s s' \<Longrightarrow> u \<noteq> t \<Longrightarrow> pcs s' u = pcs s u"
  by (simp add: local_ok_def moves_only_def)

lemma inv_exclusive:
  assumes "sync_inv Q n s"
  shows "exclusive n in_spin (spin_lock s \<noteq> 0) (pcs s)" "exclusive n owns (taken s) (pcs s)"
  using assms by (simp_all only: sync_inv_def)

lemma spin_alone: "sync_inv Q n s \<Longrightarrow> t < n \<Longrightarrow> u < n \<Longrightarrow> in_spin (pcs s t) \<Longrightarrow> in_spin (pcs s u) \<Longrightarrow> u = t"
  using inv_exclusive(1) [of Q n s] unfolding exclusive_def by blast

lemma leave_wait:
  assumes "local_ok Q t s s'"
  shows "pcs s t = LSleep \<Longrightarrow> wakes s t = 0 \<Longrightarrow> pcs s' t = LSleep"
    "pcs s t = LReleaseWait \<Longrightarrow> pcs s' t = LReleaseWait \<or> pcs s' t = LSleep"
proof -
  have q: "sleep_ok t s s'" using assms unfolding local_ok_def by blast
  show "pcs s t = LSleep \<Longrightarrow> wakes s t = 0 \<Longrightarrow> pcs s' t = LSleep" using q by (simp add: sleep_ok_def)
  show "pcs s t = LReleaseWait \<Longrightarrow> pcs s' t = LReleaseWait \<or> pcs s' t = LSleep" using q by (simp add: sleep_ok_def)
qed

lemma exclusive_step:
  assumes inv: "sync_inv Q n s" and t: "t < n" and l: "local_ok Q t s s'"
  shows "exclusive n in_spin (spin_lock s' \<noteq> 0) (pcs s')" "exclusive n owns (taken s') (pcs s')"
proof -
  have m: "(pcs s)(t := pcs s' t) = pcs s'" using step_others [OF l] by (auto simp: fun_eq_iff)
  have s1: "shift in_spin (spin_lock s \<noteq> 0) (spin_lock s' \<noteq> 0) (pcs s t) (pcs s' t)"
    and s2: "shift owns (taken s) (taken s') (pcs s t) (pcs s' t)" using l unfolding local_ok_def by blast+
  have e: "exclusive n in_spin (spin_lock s \<noteq> 0) (pcs s)" "exclusive n owns (taken s) (pcs s)" by (rule inv_exclusive [OF inv])+
  show "exclusive n in_spin (spin_lock s' \<noteq> 0) (pcs s')" using exclusive_shift [OF e(1) t s1] unfolding m .
  show "exclusive n owns (taken s') (pcs s')" using exclusive_shift [OF e(2) t s2] unfolding m .
qed

lemma account_step:
  assumes inv: "sync_inv Q n s" and t: "t < n" and l: "local_ok Q t s s'"
  shows "owed Q n s' a = (if a < n \<and> enrolled (pcs s' a) then 1 else 0)"
proof -
  have o: "owed Q n s a = (if a < n \<and> enrolled (pcs s a) then 1 else 0)" using inv unfolding sync_inv_def by blast
  show ?thesis using owed_step [OF t l, of a] o t step_others [OF l, of a] by (cases "a = t") (auto split: if_splits)
qed

lemma waiters_step:
  assumes inv: "sync_inv Q n s" and t: "t < n" and l: "local_ok Q t s s'" and a: "a \<in> set (q_elems Q (waiters s'))"
  shows "a < n \<and> pcs s' a \<in> {LReleaseWait, LSleep}"
proof -
  have old: "b < n \<and> pcs s b \<in> {LReleaseWait, LSleep}" if "b \<in> set (q_elems Q (waiters s))" for b using inv that unfolding sync_inv_def by blast
  have q: "queue_ok Q t s s'" using l by (simp add: local_ok_def)
  consider "a \<in> set (q_elems Q (waiters s))" | "a = t" "pcs s' t = LReleaseWait"
    using q a unfolding queue_ok_def by (elim conjE disjE) (auto dest: list.set_sel(2))
  then show ?thesis
  proof cases
    case 1
    then show ?thesis using old [OF 1] owed_once(1) [OF inv 1] leave_wait [OF l] step_others [OF l, of a] by (cases "a = t") auto
  qed (use t in simp)
qed

lemma entry_woken:
  assumes inv: "sync_inv Q n s" and t: "t < n" and l: "local_ok Q t s s'" and v: "v < n" "unlock_entry (pcs s v) = Some a"
  shows "a < n \<and> pcs s' a = LSleep"
proof -
  have "a < n \<and> pcs s a = LSleep" using inv v unfolding sync_inv_def by blast
  then show ?thesis using owed_once(2) [OF inv v] leave_wait(1) [OF l] step_others [OF l, of a] by (cases "a = t") auto
qed

lemma entry_step:
  assumes inv: "sync_inv Q n s" and t: "t < n" and l: "local_ok Q t s s'" and u: "u < n" and e: "unlock_entry (pcs s' u) = Some a"
  shows "a < n \<and> pcs s' a = LSleep"
proof -
  have q: "queue_ok Q t s s'" using l by (simp add: local_ok_def)
  consider "u \<noteq> t" | "u = t" "unlock_entry (pcs s t) = Some a" | "u = t" "in_spin (pcs s t)" "q_elems Q (waiters s) \<noteq> []" "a = hd (q_elems Q (waiters s))"
    using q e unfolding queue_ok_def by fastforce
  then show ?thesis
  proof cases
    case 1
    then show ?thesis using entry_woken [OF inv t l u] e step_others [OF l 1] by simp
  next
    case 2
    then show ?thesis using entry_woken [OF inv t l t] by simp
  next
    case 3
    then have "a \<in> set (q_elems Q (waiters s))" by simp
    then have w: "a < n" "pcs s a \<in> {LReleaseWait, LSleep}" using inv unfolding sync_inv_def by blast+
    have "pcs s a \<noteq> LReleaseWait" using spin_alone [OF inv t w(1) 3(2)] leave_wait(2) [OF l] e 3(1) by auto
    then have "pcs s a = LSleep" "a \<noteq> t" using w(2) 3(2) by auto
    then show ?thesis using step_others [OF l, of a] w(1) by simp
  qed
qed

lemma enqueue_step:
  assumes inv: "sync_inv Q n s" and t: "t < n" and l: "local_ok Q t s s'" and u: "u < n" "pcs s' u = LEnqueue"
  shows "taken s'"
proof -
  have q: "taken_ok t s s'" using l by (simp add: local_ok_def)
  have old: "taken s" if "v < n" "pcs s v = LEnqueue" for v using inv that unfolding sync_inv_def by blast
  show ?thesis
  proof (cases "u = t")
    case True
    then show ?thesis using q u old [OF t] unfolding taken_ok_def by auto
  next
    case False
    have "pcs s u = LEnqueue" using step_others [OF l False] u by simp
    then show ?thesis using q old [OF u(1)] spin_alone [OF inv t u(1)] False unfolding taken_ok_def by auto
  qed
qed

lemma coming_step:
  assumes inv: "sync_inv Q n s" and t: "t < n" and l: "local_ok Q t s s'" and f: "\<not> taken s'" "q_elems Q (waiters s') \<noteq> []"
  shows "\<exists>u < n. coming s' u"
proof -
  have q: "queue_ok Q t s s'" "taken_ok t s s'" "sleep_ok t s s'" "coming_ok Q t s s'" using l by (simp_all add: local_ok_def)
  show ?thesis
  proof (cases "taken s")
    case True
    then show ?thesis using q(2) f t by (auto simp: taken_ok_def coming_def)
  next
    case False
    have "pcs s t \<noteq> LEnqueue" using inv False t unfolding sync_inv_def by blast
    then have "q_elems Q (waiters s) \<noteq> []" using q(1) f(2) by (auto simp: queue_ok_def)
    then obtain u where u: "u < n" "coming s u" using inv False unfolding sync_inv_def by blast
    have keeps: "wakes s v \<le> wakes s' v" if "v \<noteq> t" for v using q(3) that by (simp add: sleep_ok_def)
    consider "u \<noteq> t" | "u = t" "coming_pc (pcs s t)" | "u = t" "pcs s t = LSleep" "0 < wakes s t" using u(2) by (auto simp: coming_def)
    then show ?thesis
    proof cases
      case 1
      then have "coming s' u" using u(2) keeps [OF 1] step_others [OF l 1] by (auto simp: coming_def)
      then show ?thesis using u(1) by blast
    next
      case 2
      then consider "coming_pc (pcs s' t)" | e where "unlock_entry (pcs s t) = Some e" "0 < wakes s' e"
        using q(4) False f by (auto simp: coming_ok_def)
      then show ?thesis
      proof cases
        case 2
        have e: "e < n" "pcs s' e = LSleep"
          using entry_woken [OF inv t l t 2(1)] by auto
        then show ?thesis using 2(2) by (auto simp: coming_def)
      qed (use t in \<open>auto simp: coming_def\<close>)
    next
      case 3
      then have "coming s' t" using q(3) by (auto simp: sleep_ok_def coming_def)
      then show ?thesis using t by blast
    qed
  qed
qed

lemma sync_inv_step:
  assumes inv: "sync_inv Q n s" and t: "t < n" and l: "local_ok Q t s s'"
  shows "sync_inv Q n s'"
  unfolding sync_inv_def
  by (intro conjI allI impI ballI exclusive_step [OF inv t l] account_step [OF inv t l] waiters_step [OF inv t l]
      enqueue_step [OF inv t l] coming_step [OF inv t l]) (use entry_step [OF inv t l] in \<open>blast+\<close>)

context wait_queue
begin

lemma sync_inv_init: "sync_inv Q n (sync_init Q)"
  by (simp add: sync_inv_def sync_init_def exclusive_def owed_def)

lemma sync_reachable:
  assumes "(sync_step Q n)\<^sup>*\<^sup>* (sync_init Q) s"
  shows "sync_inv Q n s"
  using assms
proof (induction rule: rtranclp_induct)
  case base
  show ?case by (rule sync_inv_init)
next
  case (step s s')
  obtain t where "t < n" "local_ok Q t s s'" using step.hyps(2) by (rule sync_step_local)
  then show ?case by (rule sync_inv_step [OF step.IH])
qed

end

text \<open>Runs as sequences of operations, for concrete schedules.\<close>

datatype 'q sync_op = Call "'q sync_pc" | Lock | Trylock | Unlock | Wait | Signal | Broadcast

fun sync_do :: "'q queue_ops \<Rightarrow> nat \<Rightarrow> nat \<times> 'q sync_op \<Rightarrow> 'q sync \<Rightarrow> 'q sync" where
  "sync_do Q n (t, op) s = (if n \<le> t then s else
    (case op of Call q \<Rightarrow> if may_call (pcs s t) q then goto t q s else s
     | Lock \<Rightarrow> mutex_lock Q t s
     | Trylock \<Rightarrow> if pcs s t = Outside then snd (mutex_trylock t s) else s
     | Unlock \<Rightarrow> mutex_unlock Q t s | Wait \<Rightarrow> condvar_wait Q t s | Signal \<Rightarrow> condvar_signal Q t s | Broadcast \<Rightarrow> condvar_broadcast Q t s))"

lemma sync_do_step: "(sync_step Q n)\<^sup>*\<^sup>* s (sync_do Q n x s)"
proof -
  obtain t op where x: "x = (t, op)" by (cases x)
  have "sync_do Q n (t, op) s = s \<or> sync_step Q n s (sync_do Q n (t, op) s)"
    by (cases op) (simp_all add: sync_step.intros)
  then show ?thesis unfolding x by (auto simp del: sync_do.simps)
qed

lemma sync_run: "(sync_step Q n)\<^sup>*\<^sup>* s (fold (sync_do Q n) xs s)"
proof (induction xs arbitrary: s)
  case (Cons x xs)
  show ?case using rtranclp_trans [OF sync_do_step Cons.IH] by simp
qed simp

text \<open>An instance of the interface: lists.\<close>

definition list_queue :: "nat list queue_ops" where
  "list_queue = \<lparr>q_new = [], q_enqueue = (\<lambda>q e. q @ [e]), q_is_empty = (\<lambda>q. q = []), q_dequeue = (\<lambda>q. (hd q, tl q)), q_elems = (\<lambda>q. q)\<rparr>"

interpretation lq: wait_queue list_queue
  by unfold_locales (auto simp: list_queue_def)

text \<open>
  C26.  Mutual exclusion: whatever the interleaving of \<open>lock\<close>, \<open>try_lock\<close>, \<open>unlock\<close> and of \<open>wait\<close>,
  \<open>signal\<close> and \<open>broadcast\<close> of a condition variable used with the mutex, at most one of the n
  threads is past its acquisition, and the flag \<open>taken\<close> is set while one is; and at most
  one is inside the section that the spinlock guards.
\<close>

theorem mutex_mutual_exclusion:
  assumes "wait_queue Q" and "(sync_step Q n)\<^sup>*\<^sup>* (sync_init Q) s" and "t < n" and "owns (pcs s t)"
  shows "taken s \<and> (\<forall>u < n. owns (pcs s u) \<longrightarrow> u = t) \<and>
    (\<forall>u < n. \<forall>v < n. in_spin (pcs s u) \<longrightarrow> in_spin (pcs s v) \<longrightarrow> u = v)"
  using wait_queue.sync_reachable [OF assms(1,2), THEN inv_exclusive(1)] wait_queue.sync_reachable [OF assms(1,2), THEN inv_exclusive(2)] assms(3,4)
  unfolding exclusive_def by blast

theorem mutex_mutual_exclusion_witness:
  "let s = fold (sync_do list_queue 2) [(0, Call LSpin), (0, Lock), (0, Lock), (0, Lock), (1, Call LSpin), (1, Lock), (1, Lock)] (sync_init list_queue) in
   taken s \<and> (\<forall>u < 2. owns (pcs s u) \<longrightarrow> u = 0) \<and> (\<forall>u < 2. \<forall>v < 2. in_spin (pcs s u) \<longrightarrow> in_spin (pcs s v) \<longrightarrow> u = v)"
  unfolding Let_def
  by (rule mutex_mutual_exclusion [OF lq.wait_queue_axioms sync_run]) (simp_all add: sync_ops sync_init_def list_queue_def)

text \<open>
  C27.  No lost wake-up: in every reachable state a thread that sleeps in \<open>lock\<close> or \<open>wait\<close> is
  owed exactly one wake (its place in one queue, a wake that another thread has still to
  give, or one given), and while the mutex is free and threads queue for it, some thread
  is on its way to take it or to wake one that will.
\<close>

theorem mutex_no_lost_wakeup:
  assumes "wait_queue Q" and "(sync_step Q n)\<^sup>*\<^sup>* (sync_init Q) s"
  shows "(\<forall>a < n. pcs s a = LSleep \<or> pcs s a = CSleep \<longrightarrow> owed Q n s a = 1) \<and>
    (\<not> taken s \<and> q_elems Q (waiters s) \<noteq> [] \<longrightarrow> (\<exists>t < n. coming s t))"
proof -
  have inv: "sync_inv Q n s" by (rule wait_queue.sync_reachable [OF assms])
  have "owed Q n s a = (if a < n \<and> enrolled (pcs s a) then 1 else 0)" for a using inv unfolding sync_inv_def by blast
  moreover have "\<not> taken s \<and> q_elems Q (waiters s) \<noteq> [] \<longrightarrow> (\<exists>t < n. coming s t)" using inv unfolding sync_inv_def by blast
  ultimately show ?thesis by auto
qed

theorem mutex_no_lost_wakeup_witness:
  "let s = fold (sync_do list_queue 2) [(0, Trylock), (1, Call LSpin), (1, Lock), (1, Lock), (1, Lock), (1, Lock),
      (0, Call (USpin False)), (0, Unlock), (0, Unlock)] (sync_init list_queue) in
   pcs s 1 = LSleep \<and> owed list_queue 2 s 1 = 1 \<and> \<not> taken s \<and> (\<exists>t < 2. coming s t)"
proof -
  define s where "s = fold (sync_do list_queue 2) [(0, Trylock), (1, Call LSpin), (1, Lock), (1, Lock), (1, Lock), (1, Lock),
      (0, Call (USpin False)), (0, Unlock), (0, Unlock)] (sync_init list_queue)"
  have "pcs s 1 = LSleep" "\<not> taken s" "q_elems list_queue (waiters s) \<noteq> []" by (simp_all add: s_def sync_ops sync_init_def list_queue_def)
  moreover have "(\<forall>a < 2. pcs s a = LSleep \<or> pcs s a = CSleep \<longrightarrow> owed list_queue 2 s a = 1) \<and> (\<not> taken s \<and> q_elems list_queue (waiters s) \<noteq> [] \<longrightarrow> (\<exists>t < 2. coming s t))"
    unfolding s_def by (rule mutex_no_lost_wakeup [OF lq.wait_queue_axioms sync_run])
  ultimately have "pcs s 1 = LSleep \<and> owed list_queue 2 s 1 = 1 \<and> \<not> taken s \<and> (\<exists>t < 2. coming s t)" by simp
  then show ?thesis unfolding Let_def s_def .
qed

end
