(* ===== verification/Recursive_Once.thy ===== *)
theory Recursive_Once
  imports Sync
begin

text \<open>
  The recursive mutex and the run-once flag of \<open>monza-libcxx/src/threading.cc\<close>, and the functions
  of the external threading interface of libc++ that forward to these classes.  Thread t
  of the model has the identifier t + 1; 0 is the value of \<open>taken_thread\<close> for no thread.
\<close>

subsection \<open>Recursive mutex\<close>

text \<open>
  Program points: \<open>RIdle h\<close> outside every operation, with h set if the caller's last lock
  returned and it has not unlocked since.
\<close>

datatype rec_pc =
    RIdle bool | RCheck bool | RSpin bool | RExchange bool | REnqueue bool | RReleaseGot bool | RStoreOwner | RReleaseWait bool | RSleep bool
  | RTry bool | RTryExchange bool | RTryStore
  | RUSpin | RUStore | RUDequeue | RURelease "nat option" | RUClear "nat option" | RUWake "nat option"

record 'q rec_mutex =
  r_spin :: u64
  r_taken :: bool
  taken_thread :: nat
  r_waiters :: 'q
  r_wakes :: "nat \<Rightarrow> nat"
  r_pcs :: "nat \<Rightarrow> rec_pc"

definition rgoto :: "nat \<Rightarrow> rec_pc \<Rightarrow> 'q rec_mutex \<Rightarrow> 'q rec_mutex" where
  "rgoto t p s = s\<lparr>r_pcs := (r_pcs s)(t := p)\<rparr>"

definition recursive_lock :: "'q queue_ops \<Rightarrow> nat \<Rightarrow> 'q rec_mutex \<Rightarrow> 'q rec_mutex" where
  "recursive_lock Q t s =
    (case r_pcs s t of
       RCheck h \<Rightarrow> rgoto t (if taken_thread s = t + 1 then RIdle True else RSpin h) s
     | RSpin h \<Rightarrow> (let (got, w) = spin_exchange (r_spin s) in
         if got then rgoto t (RExchange h) (s\<lparr>r_spin := w\<rparr>) else s\<lparr>r_spin := w\<rparr>)
     | RExchange h \<Rightarrow> rgoto t (if r_taken s then REnqueue h else RReleaseGot h) (s\<lparr>r_taken := True\<rparr>)
     | RReleaseGot h \<Rightarrow> rgoto t RStoreOwner (s\<lparr>r_spin := spin_release (r_spin s)\<rparr>)
     | RStoreOwner \<Rightarrow> rgoto t (RIdle True) (s\<lparr>taken_thread := t + 1\<rparr>)
     | REnqueue h \<Rightarrow> rgoto t (RReleaseWait h) (s\<lparr>r_waiters := q_enqueue Q (r_waiters s) t\<rparr>)
     | RReleaseWait h \<Rightarrow> rgoto t (RSleep h) (s\<lparr>r_spin := spin_release (r_spin s)\<rparr>)
     | RSleep h \<Rightarrow> (if 0 < r_wakes s t then rgoto t (RSpin h) (s\<lparr>r_wakes := (r_wakes s)(t := r_wakes s t - 1)\<rparr>) else s)
     | _ \<Rightarrow> s)"

text \<open>\<open>trylock\<close>, with its result at the step where it returns.\<close>

definition recursive_trylock :: "nat \<Rightarrow> 'q rec_mutex \<Rightarrow> bool option \<times> 'q rec_mutex" where
  "recursive_trylock t s =
    (case r_pcs s t of
       RTry h \<Rightarrow> if taken_thread s = t + 1 then (Some False, rgoto t (RIdle h) s) else (None, rgoto t (RTryExchange h) s)
     | RTryExchange h \<Rightarrow>
         if r_taken s then (Some False, rgoto t (RIdle h) (s\<lparr>r_taken := True\<rparr>)) else (None, rgoto t RTryStore (s\<lparr>r_taken := True\<rparr>))
     | RTryStore \<Rightarrow> (Some True, rgoto t (RIdle True) (s\<lparr>taken_thread := t + 1\<rparr>))
     | _ \<Rightarrow> (None, s))"

definition recursive_unlock :: "'q queue_ops \<Rightarrow> nat \<Rightarrow> 'q rec_mutex \<Rightarrow> 'q rec_mutex" where
  "recursive_unlock Q t s =
    (case r_pcs s t of
       RUSpin \<Rightarrow> (let (got, w) = spin_exchange (r_spin s) in
         if got then rgoto t RUStore (s\<lparr>r_spin := w\<rparr>) else s\<lparr>r_spin := w\<rparr>)
     | RUStore \<Rightarrow> rgoto t RUDequeue (s\<lparr>r_taken := False\<rparr>)
     | RUDequeue \<Rightarrow>
         (if q_is_empty Q (r_waiters s) then rgoto t (RURelease None) s
          else case q_dequeue Q (r_waiters s) of (e, q) \<Rightarrow> rgoto t (RURelease (Some e)) (s\<lparr>r_waiters := q\<rparr>))
     | RURelease e \<Rightarrow> rgoto t (RUClear e) (s\<lparr>r_spin := spin_release (r_spin s)\<rparr>)
     | RUClear e \<Rightarrow> rgoto t (RUWake e) (s\<lparr>taken_thread := 0\<rparr>)
     | RUWake e \<Rightarrow> rgoto t (RIdle False)
         (case e of None \<Rightarrow> s | Some u \<Rightarrow> s\<lparr>r_wakes := (r_wakes s)(u := Suc (r_wakes s u))\<rparr>)
     | _ \<Rightarrow> s)"

definition rec_init :: "'q queue_ops \<Rightarrow> 'q rec_mutex" where
  "rec_init Q = \<lparr>r_spin = 0, r_taken = False, taken_thread = 0, r_waiters = q_new Q, r_wakes = (\<lambda>_. 0), r_pcs = (\<lambda>_. RIdle False)\<rparr>"

text \<open>The steps of n threads that lock only while they do not have the mutex, and unlock while they do.\<close>

inductive rec_step :: "'q queue_ops \<Rightarrow> nat \<Rightarrow> 'q rec_mutex \<Rightarrow> 'q rec_mutex \<Rightarrow> bool" for Q n where
  rcall: "t < n \<Longrightarrow> (r_pcs s t, p) \<in> {(RIdle False, RCheck False), (RIdle False, RTry False), (RIdle True, RUSpin)} \<Longrightarrow> rec_step Q n s (rgoto t p s)"
| rlock: "t < n \<Longrightarrow> rec_step Q n s (recursive_lock Q t s)"
| rtrylock: "t < n \<Longrightarrow> rec_step Q n s (snd (recursive_trylock t s))"
| runlock: "t < n \<Longrightarrow> rec_step Q n s (recursive_unlock Q t s)"

lemmas rec_ops = recursive_lock_def recursive_trylock_def recursive_unlock_def rgoto_def spin_exchange_def spin_release_def rec_init_def

text \<open>The plain mutex that the recursive one is, without its field \<open>taken_thread\<close>.\<close>

fun abs_pc :: "rec_pc \<Rightarrow> 'q sync_pc" where
  "abs_pc (RIdle h) = (if h then Inside else Outside)" | "abs_pc (RCheck h) = Outside" | "abs_pc (RSpin h) = LSpin"
| "abs_pc (RExchange h) = LExchange" | "abs_pc (REnqueue h) = LEnqueue" | "abs_pc (RReleaseGot h) = LReleaseGot"
| "abs_pc RStoreOwner = Inside" | "abs_pc (RReleaseWait h) = LReleaseWait" | "abs_pc (RSleep h) = LSleep"
| "abs_pc (RTry h) = Outside" | "abs_pc (RTryExchange h) = Outside" | "abs_pc RTryStore = Inside"
| "abs_pc RUSpin = USpin False" | "abs_pc RUStore = UStore False" | "abs_pc RUDequeue = UDequeue False"
| "abs_pc (RURelease e) = URelease False e" | "abs_pc (RUClear e) = UWake False e" | "abs_pc (RUWake e) = UWake False e"

definition abs_rec :: "'q queue_ops \<Rightarrow> 'q rec_mutex \<Rightarrow> 'q sync" where
  "abs_rec Q s = \<lparr>spin_lock = r_spin s, taken = r_taken s, waiters = r_waiters s, cv_lock = 0, cv_waiters = q_new Q,
    wakes = r_wakes s, pcs = (\<lambda>t. abs_pc (r_pcs s t))\<rparr>"

text \<open>A thread that \<open>taken_thread\<close> names is past its acquisition and has not cleared the field; no flag of a nested call is set.\<close>

fun names_owner :: "rec_pc \<Rightarrow> bool" where
  "names_owner (RIdle h) = h" | "names_owner RUSpin = True" | "names_owner RUStore = True" | "names_owner RUDequeue = True"
| "names_owner (RURelease e) = True" | "names_owner (RUClear e) = True" | "names_owner _ = False"

fun nested :: "rec_pc \<Rightarrow> bool" where
  "nested (RCheck h) = h" | "nested (RSpin h) = h" | "nested (RExchange h) = h" | "nested (REnqueue h) = h" | "nested (RReleaseGot h) = h"
| "nested (RReleaseWait h) = h" | "nested (RSleep h) = h" | "nested (RTry h) = h" | "nested (RTryExchange h) = h" | "nested _ = False"

definition rec_inv :: "'q rec_mutex \<Rightarrow> bool" where
  "rec_inv s \<longleftrightarrow> (\<forall>t. taken_thread s = t + 1 \<longrightarrow> names_owner (r_pcs s t)) \<and> (\<forall>t. \<not> nested (r_pcs s t))"

lemma lock_inv: "rec_inv s \<Longrightarrow> rec_inv (recursive_lock Q t s)"
  by (cases "r_pcs s t") (auto simp: rec_inv_def rec_ops, (metis nested.simps names_owner.simps)+)

lemma trylock_inv: "rec_inv s \<Longrightarrow> rec_inv (snd (recursive_trylock t s))"
  by (cases "r_pcs s t") (auto simp: rec_inv_def rec_ops, (metis nested.simps names_owner.simps)+)

lemma unlock_inv: "rec_inv s \<Longrightarrow> rec_inv (recursive_unlock Q t s)"
  by (cases "r_pcs s t") (auto simp: rec_inv_def rec_ops case_prod_beta split: option.split)

lemma rec_inv_step: "rec_step Q n s s' \<Longrightarrow> rec_inv s \<Longrightarrow> rec_inv s'"
  by (induction rule: rec_step.induct) (auto simp: lock_inv trylock_inv unlock_inv, auto simp: rec_inv_def rgoto_def)

lemma abs_simps:
  "abs_rec Q (rgoto t p s) = goto t (abs_pc p) (abs_rec Q s)"
  "abs_rec Q (s\<lparr>r_spin := w\<rparr>) = (abs_rec Q s)\<lparr>spin_lock := w\<rparr>" "abs_rec Q (s\<lparr>r_taken := b\<rparr>) = (abs_rec Q s)\<lparr>taken := b\<rparr>"
  "abs_rec Q (s\<lparr>r_waiters := q\<rparr>) = (abs_rec Q s)\<lparr>waiters := q\<rparr>" "abs_rec Q (s\<lparr>r_wakes := f\<rparr>) = (abs_rec Q s)\<lparr>wakes := f\<rparr>"
  "abs_rec Q (s\<lparr>taken_thread := v\<rparr>) = abs_rec Q s"
  "spin_lock (abs_rec Q s) = r_spin s" "taken (abs_rec Q s) = r_taken s" "waiters (abs_rec Q s) = r_waiters s"
  "wakes (abs_rec Q s) = r_wakes s" "pcs (abs_rec Q s) t = abs_pc (r_pcs s t)"
  by (auto simp: abs_rec_def rgoto_def goto_def fun_eq_iff)

lemma goto_same: "pcs s t = p \<Longrightarrow> goto t p s = s"
  by (auto simp: goto_def)

text \<open>The operations commute with the abstraction, but for the steps on \<open>taken_thread\<close>, which the plain mutex does not have.\<close>

lemma lock_abs:
  assumes "rec_inv s"
  shows "abs_rec Q (recursive_lock Q t s) = (case r_pcs s t of RCheck h \<Rightarrow> goto t LSpin (abs_rec Q s)
    | RStoreOwner \<Rightarrow> abs_rec Q s | _ \<Rightarrow> mutex_lock Q t (abs_rec Q s))"
proof -
  have free: "taken_thread s \<noteq> t + 1" if "\<not> names_owner (r_pcs s t)" using assms that by (auto simp: rec_inv_def)
  show ?thesis using free
    by (cases "r_pcs s t") (simp_all add: recursive_lock_def mutex_lock_def abs_simps goto_same spin_exchange_def spin_release_def)
qed

lemma trylock_abs:
  assumes "rec_inv s"
  shows "abs_rec Q (snd (recursive_trylock t s)) =
    (case r_pcs s t of RTryExchange h \<Rightarrow> snd (mutex_trylock t (abs_rec Q s)) | _ \<Rightarrow> abs_rec Q s)"
proof -
  have free: "taken_thread s \<noteq> t + 1" if "\<not> names_owner (r_pcs s t)" using assms that by (auto simp: rec_inv_def)
  have "\<not> nested (r_pcs s t)" using assms by (simp add: rec_inv_def)
  then show ?thesis using free
    by (cases "r_pcs s t") (simp_all add: recursive_trylock_def mutex_trylock_def abs_simps goto_same)
qed

lemma unlock_abs:
  "abs_rec Q (recursive_unlock Q t s) = (case r_pcs s t of RUClear e \<Rightarrow> abs_rec Q s | _ \<Rightarrow> mutex_unlock Q t (abs_rec Q s))"
  by (cases "r_pcs s t")
    (simp_all add: recursive_unlock_def mutex_unlock_def abs_simps goto_same spin_exchange_def spin_release_def wake_thread_def case_prod_beta split: option.split)

lemma rec_step_refines:
  assumes st: "rec_step Q n s s'" and inv: "rec_inv s"
  shows "(sync_step Q n)\<^sup>*\<^sup>* (abs_rec Q s) (abs_rec Q s')"
  using st
proof (cases rule: rec_step.cases)
  case (rcall t p)
  then show ?thesis using call [of t n "abs_rec Q s" "USpin False" Q] by (auto simp: abs_simps goto_same may_call_def)
next
  case (rlock t)
  then show ?thesis using lock_abs [OF inv, of Q t] sync_step.lock [OF rlock(2), of Q "abs_rec Q s"]
      call [OF rlock(2), of "abs_rec Q s" LSpin Q]
    by (cases "r_pcs s t") (auto simp: may_call_def abs_simps)
next
  case (rtrylock t)
  then show ?thesis using trylock_abs [OF inv, of Q t] trylock [OF rtrylock(2), of "abs_rec Q s" Q]
    by (cases "r_pcs s t") (auto simp: abs_simps)
next
  case (runlock t)
  then show ?thesis using unlock_abs [of Q t s] unlock [OF runlock(2), of Q "abs_rec Q s"] by (cases "r_pcs s t") auto
qed

lemma rec_reachable:
  assumes "(rec_step Q n)\<^sup>*\<^sup>* (rec_init Q) s"
  shows "rec_inv s \<and> (sync_step Q n)\<^sup>*\<^sup>* (sync_init Q) (abs_rec Q s)"
  using assms
proof (induction rule: rtranclp_induct)
  case base
  show ?case by (simp add: rec_inv_def rec_init_def abs_rec_def sync_init_def)
next
  case (step s s')
  have inv: "rec_inv s" and run: "(sync_step Q n)\<^sup>*\<^sup>* (sync_init Q) (abs_rec Q s)" using step.IH by auto
  show ?case using rec_inv_step [OF step.hyps(2) inv] rtranclp_trans [OF run rec_step_refines [OF step.hyps(2) inv]] by simp
qed

text \<open>
  C28.  The recursive mutex, used without nesting, is the plain mutex: every run of
  \<open>lock\<close>, \<open>trylock\<close> and \<open>unlock\<close> of the recursive mutex is a run of the plain one with the
  same queue, lock word, flag and wakes; so at most one thread has it, and \<open>taken_thread\<close>
  never names a thread that is not past its acquisition.
\<close>

theorem recursive_mutex_refines:
  assumes Q: "wait_queue Q" and run: "(rec_step Q n)\<^sup>*\<^sup>* (rec_init Q) s"
  shows "(sync_step Q n)\<^sup>*\<^sup>* (sync_init Q) (abs_rec Q s) \<and> (\<forall>t. taken_thread s = t + 1 \<longrightarrow> names_owner (r_pcs s t)) \<and>
    (\<forall>t < n. \<forall>u < n. r_pcs s t = RIdle True \<longrightarrow> r_pcs s u = RIdle True \<longrightarrow> t = u)"
proof -
  have r: "rec_inv s" "(sync_step Q n)\<^sup>*\<^sup>* (sync_init Q) (abs_rec Q s)" using rec_reachable [OF run] by auto
  have "exclusive n owns (taken (abs_rec Q s)) (pcs (abs_rec Q s))" by (rule inv_exclusive(2) [OF wait_queue.sync_reachable [OF Q r(2)]])
  then have "t = u" if "t < n" "u < n" "r_pcs s t = RIdle True" "r_pcs s u = RIdle True" for t u
    using that unfolding exclusive_def abs_simps by (metis abs_pc.simps(1) owns.simps(2))
  then show ?thesis using r by (auto simp: rec_inv_def)
qed

text \<open>Schedules: the steps of the operations in the order of a list of threads and operations.\<close>

datatype rec_op = RCall rec_pc | RLock | RTrylock | RUnlock

fun rec_do :: "'q queue_ops \<Rightarrow> nat \<times> rec_op \<Rightarrow> 'q rec_mutex \<Rightarrow> 'q rec_mutex" where
  "rec_do Q (t, op) s = (case op of RCall p \<Rightarrow> rgoto t p s | RLock \<Rightarrow> recursive_lock Q t s
    | RTrylock \<Rightarrow> snd (recursive_trylock t s) | RUnlock \<Rightarrow> recursive_unlock Q t s)"

definition full_lock :: "nat \<Rightarrow> bool \<Rightarrow> (nat \<times> rec_op) list" where
  "full_lock t h = (t, RCall (RCheck h)) # replicate 5 (t, RLock)"

definition full_unlock :: "nat \<Rightarrow> (nat \<times> rec_op) list" where
  "full_unlock t = (t, RCall RUSpin) # replicate 6 (t, RUnlock)"


theorem recursive_mutex_refines_witness:
  "let s = recursive_lock list_queue 0 (rgoto 0 (RCheck False) (rec_init list_queue)) in
   (sync_step list_queue 2)\<^sup>*\<^sup>* (sync_init list_queue) (abs_rec list_queue s) \<and> r_pcs s 0 = RSpin False"
proof -
  define s0 where "s0 = rec_init list_queue"
  have "rec_step list_queue 2 s0 (rgoto 0 (RCheck False) s0)" by (rule rcall) (simp_all add: s0_def rec_init_def)
  moreover have "rec_step list_queue 2 (rgoto 0 (RCheck False) s0) (recursive_lock list_queue 0 (rgoto 0 (RCheck False) s0))"
    by (rule rlock) simp
  ultimately have "(rec_step list_queue 2)\<^sup>*\<^sup>* s0 (recursive_lock list_queue 0 (rgoto 0 (RCheck False) s0))" by simp
  then have "(sync_step list_queue 2)\<^sup>*\<^sup>* (sync_init list_queue) (abs_rec list_queue (recursive_lock list_queue 0 (rgoto 0 (RCheck False) s0)))"
    using recursive_mutex_refines [OF lq.wait_queue_axioms] unfolding s0_def by blast
  moreover have "r_pcs (recursive_lock list_queue 0 (rgoto 0 (RCheck False) s0)) 0 = RSpin False" by (simp add: s0_def rec_ops)
  ultimately show ?thesis unfolding Let_def s0_def by blast
qed

text \<open>
  The class does not count: a thread that locks twice and unlocks once has set the mutex
  free, and another thread gets it; and \<open>trylock\<close> fails for the thread that has the mutex.
\<close>

lemma recursive_mutex_forgets_nesting:
  "let s = fold (rec_do list_queue) (full_lock 0 False @ full_lock 0 True @ full_unlock 0) (rec_init list_queue);
       s' = fold (rec_do list_queue) (full_lock 1 False) s
   in \<not> r_taken s \<and> r_pcs s' 1 = RIdle True \<and> taken_thread s' = 2"
  by code_simp

lemma recursive_trylock_owner_fails:
  "let s = fold (rec_do list_queue) (full_lock 0 False @ [(0, RCall (RTry True))]) (rec_init list_queue)
   in fst (recursive_trylock 0 s) = Some False"
  by code_simp

text \<open>
  \<open>unlock\<close> clears \<open>taken_thread\<close> after it has let the mutex go: the thread that got it in between
  is no longer named, and its nested \<open>lock\<close> waits for itself.
\<close>

lemma recursive_mutex_owner_lost:
  "let s = fold (rec_do list_queue) (full_lock 0 False @ (0, RCall RUSpin) # replicate 4 (0, RUnlock) @ full_lock 1 False @ [(0, RUnlock), (0, RUnlock)])
         (rec_init list_queue);
       s' = fold (rec_do list_queue) (full_lock 1 True) s
   in r_pcs s 1 = RIdle True \<and> taken_thread s = 0 \<and> r_pcs s' 1 = RSleep True \<and> r_wakes s' 1 = 0"
  by code_simp

subsection \<open>Run once\<close>

text \<open>\<open>CustomOnceImpl::execute\<close>; \<open>OInit\<close> is the call of the initialiser, counted when it starts and when it ends.\<close>

definition IDLE :: u32 where "IDLE = 0"
definition DOING :: u32 where "DOING = 1"
definition DONE :: u32 where "DONE = 2"

lemmas once_status = IDLE_def DOING_def DONE_def

datatype once_pc = OOut | OLoad | OExchange | OInit | OStore | OWait | OReturned

record once =
  control :: u32
  started :: nat
  finished :: nat
  o_pcs :: "nat \<Rightarrow> once_pc"

definition ogoto :: "nat \<Rightarrow> once_pc \<Rightarrow> once \<Rightarrow> once" where
  "ogoto t p s = s\<lparr>o_pcs := (o_pcs s)(t := p)\<rparr>"

definition once_execute :: "nat \<Rightarrow> once \<Rightarrow> once" where
  "once_execute t s =
    (case o_pcs s t of
       OOut \<Rightarrow> ogoto t OLoad s
     | OLoad \<Rightarrow> ogoto t (if control s = DONE then OReturned else OExchange) s
     | OExchange \<Rightarrow> if control s = IDLE then ogoto t OInit (s\<lparr>control := DOING, started := Suc (started s)\<rparr>) else ogoto t OWait s
     | OInit \<Rightarrow> ogoto t OStore (s\<lparr>finished := Suc (finished s)\<rparr>)
     | OStore \<Rightarrow> ogoto t OReturned (s\<lparr>control := DONE\<rparr>)
     | OWait \<Rightarrow> ogoto t (if control s = DONE then OReturned else OWait) s
     | OReturned \<Rightarrow> s)"

definition once_init :: once where
  "once_init = \<lparr>control = IDLE, started = 0, finished = 0, o_pcs = (\<lambda>_. OOut)\<rparr>"

fun once_run :: "nat list \<Rightarrow> once \<Rightarrow> once" where
  "once_run [] s = s" | "once_run (t # ts) s = once_run ts (once_execute t s)"

text \<open>The one thread that runs the initialiser, if the flag says so.\<close>

definition runner :: "once \<Rightarrow> nat \<Rightarrow> bool" where
  "runner s r \<longleftrightarrow> control s = DOING \<and> started s = 1 \<and>
    (o_pcs s r = OInit \<and> finished s = 0 \<or> o_pcs s r = OStore \<and> finished s = 1) \<and>
    (\<forall>t. t \<noteq> r \<longrightarrow> o_pcs s t \<notin> {OInit, OStore, OReturned})"

definition once_inv :: "once \<Rightarrow> bool" where
  "once_inv s \<longleftrightarrow>
    control s = IDLE \<and> started s = 0 \<and> finished s = 0 \<and> (\<forall>t. o_pcs s t \<notin> {OInit, OStore, OWait, OReturned}) \<or>
    (\<exists>r. runner s r) \<or>
    control s = DONE \<and> started s = 1 \<and> finished s = 1 \<and> (\<forall>t. o_pcs s t \<notin> {OInit, OStore})"

lemma once_idle_step:
  assumes "control s = IDLE" "started s = 0" "finished s = 0" "\<forall>t. o_pcs s t \<notin> {OInit, OStore, OWait, OReturned}"
  shows "once_inv (once_execute t s)"
proof (cases "o_pcs s t = OExchange")
  case True
  then have "runner (once_execute t s) t" using assms by (auto simp: runner_def once_execute_def ogoto_def once_status)
  then show ?thesis by (auto simp: once_inv_def)
next
  case False
  then show ?thesis using assms by (cases "o_pcs s t") (auto simp: once_inv_def once_execute_def ogoto_def once_status)
qed

lemma once_doing_step:
  assumes r: "runner s r"
  shows "once_inv (once_execute t s)"
proof (cases "t = r \<and> o_pcs s r = OStore")
  case True
  then show ?thesis using r by (auto simp: runner_def once_inv_def once_execute_def ogoto_def once_status)
next
  case False
  then have "runner (once_execute t s) r" using r
    by (cases "o_pcs s t") (auto simp: runner_def once_execute_def ogoto_def once_status)
  then show ?thesis by (auto simp: once_inv_def)
qed

lemma once_done_step:
  assumes "control s = DONE" "started s = 1" "finished s = 1" "\<forall>t. o_pcs s t \<notin> {OInit, OStore}"
  shows "once_inv (once_execute t s)"
  using assms by (cases "o_pcs s t") (auto simp: once_inv_def once_execute_def ogoto_def once_status)

lemma once_inv_run: "once_inv s \<Longrightarrow> once_inv (once_run ts s)"
proof (induction ts arbitrary: s)
  case (Cons t ts)
  have "once_inv (once_execute t s)" using Cons.prems once_idle_step once_doing_step once_done_step unfolding once_inv_def [of s] by blast
  then show ?case using Cons.IH by simp
qed simp

text \<open>
  C29.  \<open>execute\<close> runs the initialiser once: whatever the schedule of the threads, the
  initialiser is started at most once; a thread whose \<open>execute\<close> has returned finds it
  finished; and while a thread waits, another one is running it or the flag is set, so
  that the waiting loop ends at its next load.
\<close>

theorem execute_once:
  "let s = once_run ts once_init in
   started s \<le> 1 \<and> finished s \<le> started s \<and> (o_pcs s t = OReturned \<longrightarrow> finished s = 1) \<and>
   (o_pcs s t = OWait \<longrightarrow> control s = DONE \<or> (\<exists>r. o_pcs s r = OInit \<or> o_pcs s r = OStore))"
proof -
  have "once_inv once_init" by (simp add: once_inv_def once_init_def)
  then have "once_inv (once_run ts once_init)" by (rule once_inv_run)
  then show ?thesis unfolding Let_def once_inv_def runner_def by (elim disjE exE conjE) (auto, metis once_pc.distinct)
qed

theorem execute_once_witness:
  "let s = once_run [0, 1, 0, 1, 0, 1, 0, 0, 1] once_init in o_pcs s 1 = OReturned \<and> finished s = 1 \<and> started s \<le> 1"
proof -
  have "o_pcs (once_run [0, 1, 0, 1, 0, 1, 0, 0, 1] once_init) 1 = OReturned" by code_simp
  then show ?thesis using execute_once [of "[0, 1, 0, 1, 0, 1, 0, 0, 1]" 1] by (simp add: Let_def)
qed

subsection \<open>The interface of libc++\<close>

text \<open>
  The functions that libc++ calls: each casts its handle and forwards; destroying does
  nothing and returns 0.  For the blocking calls the model is a step of the operation.
\<close>

definition libcpp_mutex_lock :: "'q queue_ops \<Rightarrow> nat \<Rightarrow> 'q sync \<Rightarrow> 'q sync" where
  "libcpp_mutex_lock Q t m = mutex_lock Q t m"

definition libcpp_mutex_trylock :: "nat \<Rightarrow> 'q sync \<Rightarrow> bool \<times> 'q sync" where
  "libcpp_mutex_trylock t m = mutex_trylock t m"

definition libcpp_mutex_unlock :: "'q queue_ops \<Rightarrow> nat \<Rightarrow> 'q sync \<Rightarrow> 'q sync" where
  "libcpp_mutex_unlock Q t m = mutex_unlock Q t m"

definition libcpp_mutex_destroy :: "'q sync \<Rightarrow> int \<times> 'q sync" where
  "libcpp_mutex_destroy m = (0, m)"

definition libcpp_recursive_mutex_init :: "'q queue_ops \<Rightarrow> int \<times> 'q rec_mutex" where
  "libcpp_recursive_mutex_init Q = (0, rec_init Q)"

definition libcpp_recursive_mutex_lock :: "'q queue_ops \<Rightarrow> nat \<Rightarrow> 'q rec_mutex \<Rightarrow> 'q rec_mutex" where
  "libcpp_recursive_mutex_lock Q t m = recursive_lock Q t m"

definition libcpp_recursive_mutex_trylock :: "nat \<Rightarrow> 'q rec_mutex \<Rightarrow> bool option \<times> 'q rec_mutex" where
  "libcpp_recursive_mutex_trylock t m = recursive_trylock t m"

definition libcpp_recursive_mutex_unlock :: "'q queue_ops \<Rightarrow> nat \<Rightarrow> 'q rec_mutex \<Rightarrow> 'q rec_mutex" where
  "libcpp_recursive_mutex_unlock Q t m = recursive_unlock Q t m"

definition libcpp_recursive_mutex_destroy :: "'q rec_mutex \<Rightarrow> int \<times> 'q rec_mutex" where
  "libcpp_recursive_mutex_destroy m = (0, m)"

definition libcpp_condvar_signal :: "'q queue_ops \<Rightarrow> nat \<Rightarrow> 'q sync \<Rightarrow> 'q sync" where
  "libcpp_condvar_signal Q t cv = condvar_signal Q t cv"

definition libcpp_condvar_broadcast :: "'q queue_ops \<Rightarrow> nat \<Rightarrow> 'q sync \<Rightarrow> 'q sync" where
  "libcpp_condvar_broadcast Q t cv = condvar_broadcast Q t cv"

text \<open>\<open>wait\<close> runs its own steps, those of \<open>unlock\<close> with the flag of its caller set, and those of \<open>lock\<close>.\<close>

definition libcpp_condvar_wait :: "'q queue_ops \<Rightarrow> nat \<Rightarrow> 'q sync \<Rightarrow> 'q sync" where
  "libcpp_condvar_wait Q t s =
    (case pcs s t of
       CSpin \<Rightarrow> condvar_wait Q t s | CEnqueue \<Rightarrow> condvar_wait Q t s | CRelease \<Rightarrow> condvar_wait Q t s | CSleep \<Rightarrow> condvar_wait Q t s
     | USpin k \<Rightarrow> mutex_unlock Q t s | UStore k \<Rightarrow> mutex_unlock Q t s | UDequeue k \<Rightarrow> mutex_unlock Q t s
     | URelease k e \<Rightarrow> mutex_unlock Q t s | UWake k e \<Rightarrow> mutex_unlock Q t s
     | _ \<Rightarrow> mutex_lock Q t s)"

definition libcpp_condvar_destroy :: "'q sync \<Rightarrow> int \<times> 'q sync" where
  "libcpp_condvar_destroy cv = (0, cv)"

definition libcpp_execute_once :: "nat \<Rightarrow> once \<Rightarrow> once" where
  "libcpp_execute_once t flag = once_execute t flag"

definition notify_one :: "'q queue_ops \<Rightarrow> nat \<Rightarrow> 'q sync \<Rightarrow> 'q sync" where
  "notify_one Q t cv = libcpp_condvar_signal Q t cv"

definition notify_all :: "'q queue_ops \<Rightarrow> nat \<Rightarrow> 'q sync \<Rightarrow> 'q sync" where
  "notify_all Q t cv = libcpp_condvar_broadcast Q t cv"

definition condition_variable_wait :: "'q queue_ops \<Rightarrow> nat \<Rightarrow> 'q sync \<Rightarrow> 'q sync" where
  "condition_variable_wait Q t s = libcpp_condvar_wait Q t s"

definition libcpp_tls_create :: "TCB option \<Rightarrow> tls_slots \<Rightarrow> int \<times> u16 option \<times> tls_slots" where
  "libcpp_tls_create tcb s = (let (k, s') = allocate_tls_slot tcb s in (if k \<noteq> None then 0 else -1, k, s'))"

definition libcpp_tls_get :: "TCB option \<Rightarrow> u16 \<Rightarrow> tls_slots \<Rightarrow> u64 result" where
  "libcpp_tls_get tcb key s = get_tls_slot tcb key s"

definition libcpp_tls_set :: "TCB option \<Rightarrow> u16 \<Rightarrow> u64 \<Rightarrow> tls_slots \<Rightarrow> (int \<times> tls_slots) result" where
  "libcpp_tls_set tcb key p s = res_bind (set_tls_slot tcb key p s) (\<lambda>(b, s'). Inr (if b then 0 else -1, s'))"

lemma libcpp_wait_is_step: "t < n \<Longrightarrow> sync_step Q n s (libcpp_condvar_wait Q t s)"
  by (cases "pcs s t") (simp_all add: libcpp_condvar_wait_def sync_step.lock sync_step.wait sync_step.unlock)

end
