(* ===== verification/Acpi.thy ===== *)
theory Acpi
  imports Threads
begin

text \<open>
  The discovery of the cores (\<open>arch/x86_64/cores_generic.cc\<close>): the search for the ACPI root
  pointer, the root tables, the table of interrupt controllers (MADT) and its entries of
  different length.  The tables are read from memory, a function from addresses to bytes.
  The interrupt registers are memory too: their writes are a list, and the polled values
  a function of the number of the read.
\<close>

definition RSDP_SIGNATURE :: string where "RSDP_SIGNATURE = ''RSD PTR ''"
definition RSDT_SIGNATURE :: string where "RSDT_SIGNATURE = ''RSDT''"
definition XSDT_SIGNATURE :: string where "XSDT_SIGNATURE = ''XSDT''"
definition MADT_SIGNATURE :: string where "MADT_SIGNATURE = ''APIC''"

text \<open>The offsets of the packed structures of the tables, and their sizes.\<close>

definition read32 :: "u64 \<Rightarrow> bytes \<Rightarrow> u32" where
  "read32 a m = word_of_nat (load_le 4 a m)"

definition rsdp_revision :: "u64 \<Rightarrow> bytes \<Rightarrow> u8" where "rsdp_revision p m = m (p + 15)"
definition rsdt_address :: "u64 \<Rightarrow> bytes \<Rightarrow> u32" where "rsdt_address p m = read32 (p + 16) m"
definition sizeof_RSDPDescriptor :: nat where "sizeof_RSDPDescriptor = 20"
definition xsdt_address :: "u64 \<Rightarrow> bytes \<Rightarrow> u64" where "xsdt_address p m = load64 (p + 24) m"
definition sizeof_RSDPDescriptor20 :: nat where "sizeof_RSDPDescriptor20 = 36"
definition sdt_length :: "u64 \<Rightarrow> bytes \<Rightarrow> u32" where "sdt_length p m = read32 (p + 4) m"
definition sizeof_ACPISDTHeader :: u64 where "sizeof_ACPISDTHeader = 36"
definition rsdt_pointer :: "u64 \<Rightarrow> u64 \<Rightarrow> bytes \<Rightarrow> u64" where "rsdt_pointer p i m = ucast (read32 (p + 36 + 4 * i) m)"
definition xsdt_pointer :: "u64 \<Rightarrow> u64 \<Rightarrow> bytes \<Rightarrow> u64" where "xsdt_pointer p i m = load64 (p + 36 + 8 * i) m"
definition local_apic_address :: "u64 \<Rightarrow> bytes \<Rightarrow> u32" where "local_apic_address p m = read32 (p + 36) m"
definition sizeof_MADT :: u64 where "sizeof_MADT = 44"
definition LOGICAL_PROCESSOR_TYPE :: u8 where "LOGICAL_PROCESSOR_TYPE = 0"
definition entry_type :: "u64 \<Rightarrow> bytes \<Rightarrow> u8" where "entry_type p m = m p"
definition entry_length :: "u64 \<Rightarrow> bytes \<Rightarrow> u8" where "entry_length p m = m (p + 1)"
definition entry_apic_id :: "u64 \<Rightarrow> bytes \<Rightarrow> u8" where "entry_apic_id p m = m (p + 3)"
definition sizeof_LogicalProcessor :: u8 where "sizeof_LogicalProcessor = 8"

lemma read32_bytes:
  "read32 a m = word_of_nat (unat (m a) + unat (m (a + 1)) * 256 + unat (m (a + 2)) * 65536 + unat (m (a + 3)) * 16777216)"
proof -
  have "{..<4 :: nat} = {0, 1, 2, 3}" by auto
  then show ?thesis by (simp add: read32_def load_le_def)
qed

definition verify_signature :: "u64 \<Rightarrow> string \<Rightarrow> bytes \<Rightarrow> bool" where
  "verify_signature header signature m \<longleftrightarrow>
    load_le (length signature) header m = (\<Sum>i < length signature. of_char (signature ! i) * 256 ^ i)"

definition verify_checksum :: "u64 \<Rightarrow> nat \<Rightarrow> bytes \<Rightarrow> bool" where
  "verify_checksum p n m \<longleftrightarrow> foldl (\<lambda>checksum i. checksum + m (p + word_of_nat i)) 0 [0..<n] = 0"

text \<open>
  The traversal of the entries.  None is a traversal that does not end: the offset does
  not move over an entry whose length is 0.
\<close>

partial_function (option) traverse_logical_processors ::
  "bytes \<Rightarrow> u64 \<Rightarrow> u64 \<Rightarrow> (u64 \<Rightarrow> 's \<Rightarrow> 's result) \<Rightarrow> u64 \<Rightarrow> 's \<Rightarrow> 's result option" where
  "traverse_logical_processors m start n f offset s =
    (if offset < n then
       let entry = start + offset;
           r = (if entry_type entry m = LOGICAL_PROCESSOR_TYPE \<and> sizeof_LogicalProcessor \<le> entry_length entry m
                then f entry s else Inr s) in
       if isl r then Some r
       else traverse_logical_processors m start n f (offset + ucast (entry_length entry m)) (projr r)
     else Some (Inr s))"

record acpi =
  local_apic_mapping :: u64
  per_core :: "PerCoreData list"

definition count_core :: "u64 \<Rightarrow> u64 \<Rightarrow> u64 result" where
  "count_core entry num_cores = Inr (num_cores + 1)"

definition store_apic_id :: "bytes \<Rightarrow> u64 \<Rightarrow> u64 \<times> PerCoreData list \<Rightarrow> (u64 \<times> PerCoreData list) result" where
  "store_apic_id m entry = (\<lambda>(core_id, ds).
    res_bind (per_core_get core_id ds) (\<lambda>d. Inr (core_id + 1, ds[unat core_id := d\<lparr>apic_id := entry_apic_id entry m\<rparr>])))"

definition parse_madt :: "bytes \<Rightarrow> u64 \<Rightarrow> acpi \<Rightarrow> acpi result option" where
  "parse_madt m base s =
    (let len = sdt_length base m;
         start = base + sizeof_MADT;
         n = ucast len - sizeof_MADT in
     if \<not> verify_checksum base (unat len) m then Some (Inl KAbort)
     else
       run_bind (traverse_logical_processors m start n count_core 0 0) (\<lambda>num_cores.
       run_bind (Some (per_core_initialize num_cores)) (\<lambda>ds.
       run_bind (traverse_logical_processors m start n (store_apic_id m) 0 (0, ds)) (\<lambda>(_, ds').
       Some (Inr (s\<lparr>local_apic_mapping := ucast (local_apic_address base m), per_core := ds'\<rparr>))))))"

definition parse_entry :: "bytes \<Rightarrow> u64 \<Rightarrow> acpi \<Rightarrow> acpi result option" where
  "parse_entry m entry_base s =
    (if entry_base = 0 then Some (Inr s)
     else if verify_signature entry_base MADT_SIGNATURE m then parse_madt m entry_base s
     else Some (Inr s))"

text \<open>The loop over the pointers of a root table: n entries are left, from the index i on.\<close>

fun parse_entries :: "(u64 \<Rightarrow> u64) \<Rightarrow> bytes \<Rightarrow> nat \<Rightarrow> u64 \<Rightarrow> acpi \<Rightarrow> acpi result option" where
  "parse_entries pointer m 0 i s = Some (Inr s)"
| "parse_entries pointer m (Suc n) i s = run_bind (parse_entry m (pointer i) s) (parse_entries pointer m n (i + 1))"

definition parse_rsdt :: "bytes \<Rightarrow> u64 \<Rightarrow> acpi \<Rightarrow> acpi result option" where
  "parse_rsdt m base s =
    (if \<not> verify_signature base RSDT_SIGNATURE m then Some (Inl KAbort)
     else if \<not> verify_checksum base (unat (sdt_length base m)) m then Some (Inl KAbort)
     else parse_entries (\<lambda>i. rsdt_pointer base i m) m (unat ((ucast (sdt_length base m) - sizeof_ACPISDTHeader) div 4)) 0 s)"

definition parse_xsdt :: "bytes \<Rightarrow> u64 \<Rightarrow> acpi \<Rightarrow> acpi result option" where
  "parse_xsdt m base s =
    (if \<not> verify_signature base XSDT_SIGNATURE m then Some (Inl KAbort)
     else if \<not> verify_checksum base (unat (sdt_length base m)) m then Some (Inl KAbort)
     else parse_entries (\<lambda>i. xsdt_pointer base i m) m (unat ((ucast (sdt_length base m) - sizeof_ACPISDTHeader) div 8)) 0 s)"

text \<open>The search of \<open>parse_acpi\<close> from a candidate location on.\<close>

function parse_candidates :: "bytes \<Rightarrow> u64 \<Rightarrow> acpi \<Rightarrow> acpi result option" where
  "parse_candidates m candidate_location s =
    (if candidate_location < 0x00100000 - of_nat sizeof_RSDPDescriptor then
       if verify_signature candidate_location RSDP_SIGNATURE m then
         (if rsdp_revision candidate_location m = 0 then
            (if \<not> verify_checksum candidate_location sizeof_RSDPDescriptor m then parse_candidates m (candidate_location + 16) s
             else parse_rsdt m (ucast (rsdt_address candidate_location m)) s)
          else
            (if \<not> verify_checksum candidate_location sizeof_RSDPDescriptor20 m then parse_candidates m (candidate_location + 16) s
             else parse_xsdt m (xsdt_address candidate_location m) s))
       else parse_candidates m (candidate_location + 16) s
     else Some (Inr s))"
  by auto

lemma next_candidate: "c < 0x00100000 - of_nat sizeof_RSDPDescriptor \<Longrightarrow> 0x100000 - unat (c + 16) < 0x100000 - unat (c :: u64)"
  using unat_add64 [of c 16] by (simp add: sizeof_RSDPDescriptor_def word_less_nat)

termination parse_candidates
  by (relation "measure (\<lambda>(m, c, s). 0x100000 - unat c)") (simp, (simp only: in_measure prod.case next_candidate)+)

declare parse_candidates.simps [simp del]

definition parse_acpi :: "bytes \<Rightarrow> acpi \<Rightarrow> acpi result option" where
  "parse_acpi m s = parse_candidates m 0x000E0000 s"

definition setup_cores_generic :: "bytes \<Rightarrow> acpi \<Rightarrow> acpi result option" where
  "setup_cores_generic m s = parse_acpi m s"

text \<open>The registers of the local interrupt controller.\<close>

definition IPI_PENDING_FLAG :: u32 where
  "IPI_PENDING_FLAG = push_bit 12 1"

definition trigger_ipi_generic :: "u32 \<Rightarrow> u8 \<Rightarrow> acpi \<Rightarrow> (u64 \<times> u32) list result" where
  "trigger_ipi_generic core interrupt s =
    res_bind (per_core_get (ucast core) (per_core s)) (\<lambda>d.
      Inr [(local_apic_mapping s + 0x310, push_bit 24 (ucast (apic_id d))), (local_apic_mapping s + 0x300, ucast interrupt)])"

partial_function (option) wait_ipi :: "(nat \<Rightarrow> u32) \<Rightarrow> nat \<Rightarrow> nat option" where
  "wait_ipi reads i = (if reads i AND IPI_PENDING_FLAG \<noteq> 0 then wait_ipi reads (Suc i) else Some i)"

definition setup_cores_sev :: "u32 \<Rightarrow> PerCoreData list result" where
  "setup_cores_sev vp_count = per_core_initialize (ucast vp_count)"

definition trigger_ipi_sev :: "u32 \<Rightarrow> PerCoreData list \<Rightarrow> PerCoreData list result" where
  "trigger_ipi_sev core ds =
    res_bind (per_core_get (ucast core) ds) (\<lambda>d.
      Inr (ds[unat core := d\<lparr>notification_generation := notification_generation d + 1\<rparr>]))"

section \<open>Entries\<close>

text \<open>A well-formed array of entries, given by type, length and the byte of the interrupt controller.\<close>

type_synonym entry = "u8 \<times> u8 \<times> u8"

fun entries_at :: "bytes \<Rightarrow> u64 \<Rightarrow> entry list \<Rightarrow> bool" where
  "entries_at m a [] = True"
| "entries_at m a ((ty, len, apic) # es) =
    (entry_type a m = ty \<and> entry_length a m = len \<and> entry_apic_id a m = apic \<and> len \<noteq> 0 \<and> entries_at m (a + ucast len) es)"

definition total_length :: "entry list \<Rightarrow> nat" where
  "total_length es = (\<Sum>(ty, len, apic) \<leftarrow> es. unat len)"

fun is_logical :: "entry \<Rightarrow> bool" where
  "is_logical (ty, len, apic) \<longleftrightarrow> ty = LOGICAL_PROCESSOR_TYPE \<and> sizeof_LogicalProcessor \<le> len"

fun processors :: "u64 \<Rightarrow> entry list \<Rightarrow> u64 list" where
  "processors a [] = []"
| "processors a ((ty, len, apic) # es) = (if is_logical (ty, len, apic) then [a] else []) @ processors (a + ucast len) es"

definition apic_ids :: "entry list \<Rightarrow> u8 list" where
  "apic_ids es = [apic. (ty, len, apic) \<leftarrow> es, is_logical (ty, len, apic)]"

lemma processors_apic: "entries_at m a es \<Longrightarrow> map (\<lambda>p. entry_apic_id p m) (processors a es) = apic_ids es"
  by (induction m a es rule: entries_at.induct) (auto simp: apic_ids_def)

lemma length_processors: "length (processors a es) = length (apic_ids es)"
  by (induction a es rule: processors.induct) (auto simp: apic_ids_def)

lemma entries_length: "entries_at m a es \<Longrightarrow> length (apic_ids es) \<le> total_length es"
proof (induction m a es rule: entries_at.induct)
  case (2 m a ty len apic es)
  then have "0 < unat len" by (simp add: unat_gt_0)
  then show ?case using 2 by (auto simp: apic_ids_def total_length_def)
qed (simp add: apic_ids_def total_length_def)

lemma traverse_entries:
  assumes "entries_at m (start + off) es" and "unat off + total_length es = unat n"
  shows "traverse_logical_processors m start n f off s = Some (res_fold f (processors (start + off) es) s)"
  using assms
proof (induction es arbitrary: off s)
  case Nil
  then show ?case by (subst traverse_logical_processors.simps) (simp add: total_length_def word_less_nat)
next
  case (Cons x es)
  obtain ty len apic where x: "x = (ty, len, apic)" by (cases x)
  have e: "entry_type (start + off) m = ty" "entry_length (start + off) m = len" "len \<noteq> 0" "entries_at m (start + off + ucast len) es"
    using Cons.prems(1) by (auto simp: x)
  have tot: "unat off + unat len + total_length es = unat n" using Cons.prems(2) by (simp add: x total_length_def)
  have "0 < unat len" using e(3) by (simp add: unat_gt_0)
  then have less: "off < n" using tot by (simp add: word_less_nat)
  have "unat off + unat len < 18446744073709551616" using tot unat_lt64 [of n] by linarith
  then have off: "unat (off + ucast len) = unat off + unat len" using unat_add64 [of off "ucast len"] by (simp add: unat_up)
  have rest: "traverse_logical_processors m start n f (off + ucast len) t = Some (res_fold f (processors (start + (off + ucast len)) es) t)" for t
    by (rule Cons.IH) (use e(4) off tot in \<open>simp_all add: add.assoc\<close>)
  show ?case
    by (subst traverse_logical_processors.simps, cases "f (start + off) s")
      (use less e rest in \<open>auto simp: x Let_def add.assoc res_bind_def\<close>)
qed

lemma count_fold: "res_fold count_core ps k = Inr (k + word_of_nat (length ps))"
  by (induction ps arbitrary: k) (simp_all add: count_core_def)

lemma store_fold:
  assumes "unat k + length ps = length ds" and "length ds < 2 ^ 64"
  shows "\<exists>ds'. res_fold (store_apic_id m) ps (k, ds) = Inr (k + word_of_nat (length ps), ds') \<and>
    map apic_id ds' = take (unat k) (map apic_id ds) @ map (\<lambda>p. entry_apic_id p m) ps \<and> map core_id ds' = map core_id ds"
  using assms
proof (induction ps arbitrary: k ds)
  case (Cons p ps)
  define ds1 where "ds1 = ds[unat k := (ds ! unat k)\<lparr>apic_id := entry_apic_id p m\<rparr>]"
  have k: "unat k < length ds" "unat (k + 1) = unat k + 1" using Cons.prems unat_add64 [of k 1] by auto
  have step: "store_apic_id m p (k, ds) = Inr (k + 1, ds1)" using k by (simp add: store_apic_id_def per_core_get_def ds1_def)
  have ids: "take (unat k + 1) (map apic_id ds1) = take (unat k) (map apic_id ds) @ [entry_apic_id p m]" "map core_id ds1 = map core_id ds"
    using k(1) by (auto simp: ds1_def map_update take_Suc_conv_app_nth list_eq_iff_nth_eq nth_list_update)
  obtain ds' where "res_fold (store_apic_id m) ps (k + 1, ds1) = Inr (k + 1 + word_of_nat (length ps), ds')"
    "map apic_id ds' = take (unat (k + 1)) (map apic_id ds1) @ map (\<lambda>p. entry_apic_id p m) ps" "map core_id ds' = map core_id ds1"
    using Cons.IH [of "k + 1" ds1] Cons.prems k by (auto simp: ds1_def)
  then show ?case using step ids k by (simp add: add.assoc)
qed simp

text \<open>
  C30.  The MADT: if its bytes are a sequence of entries that fills the table, \<open>parse_madt\<close>
  returns, whatever the types and lengths of the entries: it aborts if the checksum is
  wrong or the number of logical processors is 0 or more than 256, and otherwise there is
  one block of per-core data for each of them, in order, with its number and the identifier
  of its interrupt controller.
\<close>

theorem parse_madt_cores:
  assumes es: "entries_at m (base + sizeof_MADT) es" and len: "unat (sdt_length base m) = 44 + total_length es"
  shows "if \<not> verify_checksum base (unat (sdt_length base m)) m \<or> apic_ids es = [] \<or> 256 < length (apic_ids es)
    then parse_madt m base s = Some (Inl KAbort)
    else \<exists>s'. parse_madt m base s = Some (Inr s') \<and> map apic_id (per_core s') = apic_ids es \<and>
      map core_id (per_core s') = map word_of_nat [0..<length (apic_ids es)] \<and>
      local_apic_mapping s' = ucast (local_apic_address base m)"
proof -
  define n where "n = ucast (sdt_length base m) - sizeof_MADT"
  define ps where "ps = processors (base + sizeof_MADT) es"
  have "unat (ucast (sdt_length base m) :: u64) = unat (sdt_length base m)" by (simp add: unat_up)
  then have n: "unat (0 :: u64) + total_length es = unat n"
    using len unat_sub64 [of "sizeof_MADT" "ucast (sdt_length base m)"] by (simp add: n_def sizeof_MADT_def word_le_nat)
  have t: "traverse_logical_processors m (base + sizeof_MADT) n f 0 x = Some (res_fold f ps x)" for f :: "u64 \<Rightarrow> 'b \<Rightarrow> 'b result" and x
    using traverse_entries [of m "base + sizeof_MADT" 0 es n f x] es n by (simp add: ps_def)
  have l: "length ps = length (apic_ids es)" by (simp add: ps_def length_processors)
  have small: "length (apic_ids es) < 4294967296"
    using entries_length [OF es] len unsigned_less [of "sdt_length base m", where 'a = nat] by simp
  then have num: "unat (word_of_nat (length ps) :: u64) = length (apic_ids es)" by (simp add: l unat_of_nat64)
  have madt: "parse_madt m base s = (if \<not> verify_checksum base (unat (sdt_length base m)) m then Some (Inl KAbort) else
      run_bind (Some (per_core_initialize (word_of_nat (length ps)))) (\<lambda>ds. run_bind (Some (res_fold (store_apic_id m) ps (0, ds))) (\<lambda>(_, ds').
      Some (Inr (s\<lparr>local_apic_mapping := ucast (local_apic_address base m), per_core := ds'\<rparr>)))))"
    by (simp add: parse_madt_def Let_def t count_fold flip: n_def)
  show ?thesis
  proof (cases "\<not> verify_checksum base (unat (sdt_length base m)) m \<or> apic_ids es = [] \<or> 256 < length (apic_ids es)")
    case True
    then show ?thesis unfolding madt using num
      by (auto simp: per_core_initialize_def MAX_CORE_COUNT_def word_less_nat word_eq_nat)
  next
    case False
    define ds where "ds = map (\<lambda>i. \<lparr>core_id = word_of_nat i, notification_generation = 0,
       thread_execution_context = empty_context, apic_id = 0\<rparr>) [0..<length (apic_ids es)]"
    have ds: "per_core_initialize (word_of_nat (length ps)) = Inr ds" using False num
      by (auto simp: per_core_initialize_def MAX_CORE_COUNT_def word_less_nat word_eq_nat ds_def)
    obtain ds' where d: "res_fold (store_apic_id m) ps (0, ds) = Inr (word_of_nat (length ps), ds')"
      "map apic_id ds' = map (\<lambda>p. entry_apic_id p m) ps" "map core_id ds' = map core_id ds"
      using store_fold [of 0 ps ds m] small l by (auto simp: ds_def)
    have ids: "map apic_id ds' = apic_ids es" "map core_id ds' = map word_of_nat [0..<length (apic_ids es)]"
      using d(2,3) processors_apic [OF es] by (simp_all add: ps_def ds_def)
    show ?thesis using False unfolding madt by (simp add: ds d(1) ids)
  qed
qed

text \<open>A table with three entries, two of them logical processors.\<close>

definition madt_bytes :: "u8 list" where
  "madt_bytes = [65, 80, 73, 67, 70, 0, 0, 0, 1, 147] @ replicate 26 0 @ [0, 0, 224, 254, 0, 0, 0, 0] @
     [0, 8, 0, 5, 1, 0, 0, 0] @ [2, 10, 0, 0, 0, 0, 0, 0, 0, 0] @ [0, 8, 1, 7, 1, 0, 0, 0]"

definition madt_memory :: bytes where
  "madt_memory a = (let i = unat (a - 0x1000) in if i < length madt_bytes then madt_bytes ! i else 0)"

theorem parse_madt_cores_witness:
  "\<exists>s'. parse_madt madt_memory 0x1000 \<lparr>local_apic_mapping = 0, per_core = []\<rparr> = Some (Inr s') \<and>
    map apic_id (per_core s') = [5, 7] \<and> local_apic_mapping s' = 0xFEE00000"
proof -
  define es :: "entry list" where "es = [(0, 8, 5), (2, 10, 0), (0, 8, 7)]"
  have 1: "entries_at madt_memory (0x1000 + sizeof_MADT) es" unfolding es_def by code_simp
  have b: "madt_memory 0x1004 = 70" "madt_memory 0x1005 = 0" "madt_memory 0x1006 = 0" "madt_memory 0x1007 = 0"
    "madt_memory 0x1024 = 0" "madt_memory 0x1025 = 0" "madt_memory 0x1026 = 224" "madt_memory 0x1027 = 254" by code_simp+
  have len: "unat (sdt_length 0x1000 madt_memory) = 70" by (simp add: sdt_length_def read32_bytes b)
  have 2: "unat (sdt_length 0x1000 madt_memory) = 44 + total_length es" by (simp add: len es_def total_length_def)
  have 3: "verify_checksum 0x1000 (unat (sdt_length 0x1000 madt_memory)) madt_memory" unfolding len by code_simp
  have 4: "ucast (local_apic_address 0x1000 madt_memory) = (0xFEE00000 :: u64)" by (simp add: local_apic_address_def read32_bytes b)
  have 5: "apic_ids es = [5, 7]" unfolding es_def by code_simp
  show ?thesis using parse_madt_cores [OF 1 2, of "\<lparr>local_apic_mapping = 0, per_core = []\<rparr>"] 3 4 5 by auto
qed

text \<open>An entry of length 0 is never passed: the traversal does not return.\<close>

lemma traverse_some_length:
  assumes run: "traverse_logical_processors m start n f offset s = Some y"
  shows "offset < n \<longrightarrow> entry_length (start + offset) m \<noteq> 0"
proof (rule traverse_logical_processors.raw_induct [OF _ run, where P = "\<lambda>m start n f offset s y. offset < n \<longrightarrow> entry_length (start + offset) m \<noteq> 0"])
  fix rec :: "bytes \<Rightarrow> u64 \<Rightarrow> u64 \<Rightarrow> (u64 \<Rightarrow> 'a \<Rightarrow> 'a result) \<Rightarrow> u64 \<Rightarrow> 'a \<Rightarrow> 'a result option" and m start n f offset s y
  assume 1: "\<And>m start n f offset s y. rec m start n f offset s = Some y \<Longrightarrow> offset < n \<longrightarrow> entry_length (start + offset) m \<noteq> 0"
    and 2: "(if offset < n then let entry = start + offset;
        r = if entry_type entry m = LOGICAL_PROCESSOR_TYPE \<and> sizeof_LogicalProcessor \<le> entry_length entry m then f entry s else Inr s
        in if isl r then Some r else rec m start n f (offset + ucast (entry_length entry m)) (projr r) else Some (Inr s)) = Some y"
  show "offset < n \<longrightarrow> entry_length (start + offset) m \<noteq> 0"
    using 1 [of m start n f offset s y] 2 by (auto simp: Let_def sizeof_LogicalProcessor_def)
qed

lemma traverse_zero_length:
  "offset < n \<Longrightarrow> entry_length (start + offset) m = 0 \<Longrightarrow> traverse_logical_processors m start n f offset s = None"
  using traverse_some_length [of m start n f offset s] by (cases "traverse_logical_processors m start n f offset s") auto

text \<open>The search stops at the first 16-byte step that holds the signature and a right checksum.\<close>

definition rsdp_valid :: "bytes \<Rightarrow> u64 \<Rightarrow> bool" where
  "rsdp_valid m c \<longleftrightarrow> verify_signature c RSDP_SIGNATURE m \<and>
    verify_checksum c (if rsdp_revision c m = 0 then sizeof_RSDPDescriptor else sizeof_RSDPDescriptor20) m"

lemma parse_candidates_step:
  "parse_candidates m c s =
    (if \<not> c < 0xFFFEC then Some (Inr s)
     else if rsdp_valid m c then
       (if rsdp_revision c m = 0 then parse_rsdt m (ucast (rsdt_address c m)) s else parse_xsdt m (xsdt_address c m) s)
     else parse_candidates m (c + 16) s)"
  by (subst parse_candidates.simps) (auto simp: rsdp_valid_def sizeof_RSDPDescriptor_def)

lemma parse_acpi_first:
  assumes "unat c = 0xE0000 + 16 * k" and "c < 0xFFFEC" and "rsdp_valid m c"
    and "\<And>j. j < k \<Longrightarrow> \<not> rsdp_valid m (0xE0000 + word_of_nat (16 * j))"
  shows "parse_acpi m s = (if rsdp_revision c m = 0 then parse_rsdt m (ucast (rsdt_address c m)) s else parse_xsdt m (xsdt_address c m) s)"
proof -
  have "parse_candidates m (0xE0000 + word_of_nat (16 * (k - i))) s =
      (if rsdp_revision c m = 0 then parse_rsdt m (ucast (rsdt_address c m)) s else parse_xsdt m (xsdt_address c m) s)" if "i \<le> k" for i
    using that
  proof (induction i)
    case 0
    have c: "0xE0000 + word_of_nat (16 * k) = c" using assms(1,2) unat_offset [of "0xE0000" "16 * k + 1" "16 * k"] by (simp add: word_eq_nat word_less_nat)
    show ?case unfolding diff_zero c using assms(2,3) by (subst parse_candidates_step) simp
  next
    case (Suc i)
    define a :: u64 where "a = 0xE0000 + word_of_nat (16 * (k - Suc i))"
    have "unat a = 0xE0000 + 16 * (k - Suc i)" using assms(1,2) unat_offset [of "0xE0000" "16 * k" "16 * (k - Suc i)"] Suc.prems
      by (simp add: a_def word_less_nat)
    then have "a < 0xFFFEC" using assms(1,2) Suc.prems by (simp add: word_less_nat)
    moreover have "a + 16 = 0xE0000 + word_of_nat (16 * (k - i))"
      using Suc.prems by (simp add: a_def Suc_diff_Suc [symmetric] algebra_simps)
    moreover have "\<not> rsdp_valid m a" unfolding a_def by (rule assms(4)) (use Suc.prems in simp)
    ultimately have "parse_candidates m a s = parse_candidates m (0xE0000 + word_of_nat (16 * (k - i))) s"
      by (subst parse_candidates_step) simp
    then show ?case using Suc unfolding a_def by simp
  qed
  from this [of k] show ?thesis by (simp add: parse_acpi_def)
qed

section \<open>Termination\<close>

lemma unat_lt32: "unat (x :: u32) < 4294967296"
  using unsigned_less [of x] by simp

text \<open>The offsets that a traversal comes to.\<close>

inductive comes_to :: "bytes \<Rightarrow> u64 \<Rightarrow> u64 \<Rightarrow> u64 \<Rightarrow> u64 \<Rightarrow> bool" for m start n where
  Here: "comes_to m start n off off"
| Next: "off < n \<Longrightarrow> comes_to m start n (off + ucast (entry_length (start + off) m)) off' \<Longrightarrow> comes_to m start n off off'"

definition lengths_positive :: "bytes \<Rightarrow> u64 \<Rightarrow> u64 \<Rightarrow> u64 \<Rightarrow> bool" where
  "lengths_positive m start n off \<longleftrightarrow> (\<forall>off'. comes_to m start n off off' \<and> off' < n \<longrightarrow> entry_length (start + off') m \<noteq> 0)"

lemma traverse_returns:
  assumes "unat n < 2 ^ 63" "lengths_positive m start n off"
  shows "\<exists>r. traverse_logical_processors m start n f off s = Some r"
  using assms(2)
proof (induction "unat n - unat off" arbitrary: off s rule: less_induct)
  case less
  show ?case
  proof (cases "off < n")
    case True
    let ?l = "entry_length (start + off) m" let ?off = "off + ucast ?l"
    have "?l \<noteq> 0" using less.prems True by (auto simp: lengths_positive_def intro: comes_to.Here)
    then have l: "0 < unat ?l" "unat (ucast ?l :: u64) = unat ?l" "unat ?l < 256"
      using unsigned_less [of ?l] by (simp_all add: unat_gt_0 unat_up)
    have o: "unat off < unat n" using True by (simp add: word_less_nat)
    have "unat ?off = unat off + unat ?l" using l o assms(1) by (subst unat_add64) simp_all
    then have "unat n - unat ?off < unat n - unat off" using l(1) o by simp
    moreover have "lengths_positive m start n ?off" using less.prems True by (auto simp: lengths_positive_def intro: comes_to.Next)
    ultimately have "\<exists>r. traverse_logical_processors m start n f ?off t = Some r" for t by (rule less.hyps)
    then show ?thesis by (subst traverse_logical_processors.simps) (simp add: Let_def)
  qed (simp add: traverse_logical_processors.simps)
qed

lemma traverse_loops:
  assumes "comes_to m start n off off'" "off' < n" "entry_length (start + off') m = 0" "\<And>e t. \<not> isl (f e t)"
  shows "traverse_logical_processors m start n f off s = None"
  using assms(1-3)
proof (induction arbitrary: s rule: comes_to.induct)
  case (Here off)
  then show ?case by (simp add: traverse_zero_length)
next
  case (Next off off')
  then show ?case by (subst traverse_logical_processors.simps) (simp add: Let_def assms(4))
qed

text \<open>
  C38.  When the parser of the processor table returns: for every table of at least the
  header size it does so exactly if the checksum is wrong or the entries that it comes to
  have positive lengths; otherwise it never ends.
\<close>

theorem parse_madt_terminates:
  assumes "44 \<le> unat (sdt_length base m)"
  shows "(\<exists>r. parse_madt m base s = Some r) \<longleftrightarrow>
    (\<not> verify_checksum base (unat (sdt_length base m)) m \<or>
     lengths_positive m (base + sizeof_MADT) (ucast (sdt_length base m) - sizeof_MADT) 0)"
proof (cases "verify_checksum base (unat (sdt_length base m)) m")
  case True
  let ?n = "ucast (sdt_length base m) - sizeof_MADT :: u64" let ?st = "base + sizeof_MADT"
  have n: "unat ?n < 2 ^ 63"
  proof -
    have u: "unat (ucast (sdt_length base m) :: u64) = unat (sdt_length base m)" by (simp add: unat_up)
    have "unat ?n = unat (sdt_length base m) - 44" using assms u by (subst unat_sub64) (simp_all add: sizeof_MADT_def)
    then show ?thesis using unat_lt32 [of "sdt_length base m"] by simp
  qed
  show ?thesis
  proof (cases "lengths_positive m ?st ?n 0")
    case pos: True
    obtain r where r: "traverse_logical_processors m ?st ?n count_core 0 0 = Some r" using traverse_returns [OF n pos, of count_core 0] by blast
    have second: "\<exists>q. run_bind (traverse_logical_processors m ?st ?n (store_apic_id m) 0 t) (\<lambda>(_, ds). Some (Inr (g ds))) = Some q" for t and g :: "PerCoreData list \<Rightarrow> acpi"
      using traverse_returns [OF n pos, of "store_apic_id m" t] by (auto simp: run_bind_def split: sum.splits)
    show ?thesis using True pos r second by (auto simp: parse_madt_def Let_def run_bind_def split: sum.splits)
  next
    case neg: False
    then obtain off where "comes_to m ?st ?n 0 off" "off < ?n" "entry_length (?st + off) m = 0" by (auto simp: lengths_positive_def)
    then have "traverse_logical_processors m ?st ?n count_core 0 0 = None" by (rule traverse_loops) (simp add: count_core_def)
    then show ?thesis using True neg by (simp add: parse_madt_def Let_def)
  qed
qed (simp add: parse_madt_def Let_def)

text \<open>A table of 48 bytes with a right checksum whose one entry has length 0.\<close>

definition looping_memory :: bytes where
  "looping_memory x = (if x = 0x1004 then 48 else if x = 0x1009 then 208 else 0)"

theorem parse_madt_terminates_witness:
  "parse_madt looping_memory 0x1000 \<lparr>local_apic_mapping = 0, per_core = []\<rparr> = None"
proof -
  have len: "sdt_length 0x1000 looping_memory = 48" by (simp add: sdt_length_def read32_bytes looping_memory_def)
  have sum: "verify_checksum 0x1000 48 looping_memory" by code_simp
  have "\<not> lengths_positive looping_memory 0x102c 4 0"
    unfolding lengths_positive_def by (auto intro!: exI [of _ 0] comes_to.Here simp: entry_length_def looping_memory_def)
  then show ?thesis
    using parse_madt_terminates [of "0x1000" looping_memory "\<lparr>local_apic_mapping = 0, per_core = []\<rparr>"] sum
    by (cases "parse_madt looping_memory 0x1000 \<lparr>local_apic_mapping = 0, per_core = []\<rparr>") (simp_all add: len sizeof_MADT_def)
qed

end
