(* ===== verification/Smart_Array.thy ===== *)
theory Smart_Array
  imports Monza_Prelude
begin

text \<open>
  \<open>include/public/arrays.h\<close>: the array class with a tracked length on top of \<open>std::unique_ptr\<close>
  or \<open>std::shared_ptr\<close>.  The store has the live array objects by name and the blocks of
  memory they point to, with the use count of each; an element that has not been
  constructed is None.  The allocator gives a block that is not in use.
\<close>

section \<open>The class\<close>

record SmartArray =
  array_length :: nat
  impl :: "nat option"

record 'a store =
  objects :: "nat \<Rightarrow> SmartArray option"
  blocks :: "nat \<Rightarrow> 'a option list option"
  use_count :: "nat \<Rightarrow> nat"

definition put :: "nat \<Rightarrow> SmartArray \<Rightarrow> 'a store \<Rightarrow> 'a store" where
  "put x v s = s\<lparr>objects := (objects s)(x := Some v)\<rparr>"

text \<open>The smart pointers: a new pointer, one more pointer to a block, and the end of one, which frees the block with the last.\<close>

definition own :: "nat \<Rightarrow> 'a option list \<Rightarrow> 'a store \<Rightarrow> 'a store" where
  "own b es s = s\<lparr>blocks := (blocks s)(b := Some es), use_count := (use_count s)(b := 1)\<rparr>"

definition share :: "nat option \<Rightarrow> 'a store \<Rightarrow> 'a store" where
  "share q s = (case q of None \<Rightarrow> s | Some b \<Rightarrow> s\<lparr>use_count := (use_count s)(b := use_count s b + 1)\<rparr>)"

definition release :: "nat option \<Rightarrow> 'a store \<Rightarrow> 'a store" where
  "release q s =
    (case q of None \<Rightarrow> s
     | Some b \<Rightarrow>
         let s1 = s\<lparr>use_count := (use_count s)(b := use_count s b - 1)\<rparr> in
         if use_count s1 b = 0 then s1\<lparr>blocks := (blocks s1)(b := None)\<rparr> else s1)"

definition default_construct :: "nat \<Rightarrow> 'a store \<Rightarrow> 'a store" where
  "default_construct x s = put x \<lparr>array_length = 0, impl = None\<rparr> s"

definition size_construct :: "nat \<Rightarrow> nat \<Rightarrow> nat \<Rightarrow> 'a store \<Rightarrow> 'a store" where
  "size_construct x b n s = put x \<lparr>array_length = n, impl = Some b\<rparr> (own b (replicate n None) s)"

text \<open>The copy loop of the constructors from a span and from an initializer list.\<close>

primrec construct_loop :: "'a list \<Rightarrow> nat \<Rightarrow> 'a option list \<Rightarrow> 'a option list" where
  "construct_loop [] i es = es"
| "construct_loop (entry # view) i es = construct_loop view (i + 1) (es[i := Some entry])"

definition span_construct :: "nat \<Rightarrow> nat \<Rightarrow> 'a list \<Rightarrow> 'a store \<Rightarrow> 'a store" where
  "span_construct x b view s =
    put x \<lparr>array_length = length view, impl = Some b\<rparr> (own b (construct_loop view 0 (replicate (length view) None)) s)"

definition move_construct :: "nat \<Rightarrow> nat \<Rightarrow> 'a store \<Rightarrow> 'a store" where
  "move_construct x y s =
    (case objects s y of None \<Rightarrow> s
     | Some other \<Rightarrow> put y (other\<lparr>impl := None, array_length := 0\<rparr>) (put x other s))"

text \<open>Assigning a pointer from itself leaves it as it is.\<close>

definition move_impl :: "nat \<Rightarrow> nat \<Rightarrow> 'a store \<Rightarrow> 'a store" where
  "move_impl x y s =
    (case (objects s x, objects s y) of
       (Some this, Some other) \<Rightarrow>
         if x = y then s
         else release (impl this) (put y (other\<lparr>impl := None\<rparr>) (put x (this\<lparr>impl := impl other\<rparr>) s))
     | _ \<Rightarrow> s)"

definition set_length :: "nat \<Rightarrow> nat \<Rightarrow> 'a store \<Rightarrow> 'a store" where
  "set_length x n s = (case objects s x of None \<Rightarrow> s | Some this \<Rightarrow> put x (this\<lparr>array_length := n\<rparr>) s)"

definition array_size :: "nat \<Rightarrow> 'a store \<Rightarrow> nat" where
  "array_size x s = (case objects s x of None \<Rightarrow> 0 | Some this \<Rightarrow> array_length this)"

definition move_assign :: "nat \<Rightarrow> nat \<Rightarrow> 'a store \<Rightarrow> 'a store" where
  "move_assign x y s =
    (let s1 = move_impl x y s;
         temp_length = array_size y s1;
         s2 = set_length y 0 s1 in
     set_length x temp_length s2)"

text \<open>Only for shared pointers: the copies that the compiler writes, member by member.\<close>

definition copy_construct :: "nat \<Rightarrow> nat \<Rightarrow> 'a store \<Rightarrow> 'a store" where
  "copy_construct x y s = (case objects s y of None \<Rightarrow> s | Some other \<Rightarrow> put x other (share (impl other) s))"

definition copy_assign :: "nat \<Rightarrow> nat \<Rightarrow> 'a store \<Rightarrow> 'a store" where
  "copy_assign x y s =
    (case (objects s x, objects s y) of
       (Some this, Some other) \<Rightarrow> release (impl this) (put x other (share (impl other) s))
     | _ \<Rightarrow> s)"

definition destroy_array :: "nat \<Rightarrow> 'a store \<Rightarrow> 'a store" where
  "destroy_array x s =
    (case objects s x of None \<Rightarrow> s
     | Some this \<Rightarrow> release (impl this) (s\<lparr>objects := (objects s)(x := None)\<rparr>))"

text \<open>The index operator: reading past the block, a freed block or no block is undefined.\<close>

definition array_index :: "nat \<Rightarrow> nat \<Rightarrow> 'a store \<Rightarrow> 'a option result" where
  "array_index x i s =
    (case objects s x of None \<Rightarrow> Inl Undefined
     | Some this \<Rightarrow>
        (case impl this of None \<Rightarrow> Inl Undefined
         | Some b \<Rightarrow>
            (case blocks s b of None \<Rightarrow> Inl Undefined
             | Some es \<Rightarrow> if i < length es then Inr (es ! i) else Inl Undefined)))"

definition array_update :: "nat \<Rightarrow> nat \<Rightarrow> 'a \<Rightarrow> 'a store \<Rightarrow> 'a store result" where
  "array_update x i v s =
    (case objects s x of None \<Rightarrow> Inl Undefined
     | Some this \<Rightarrow>
        (case impl this of None \<Rightarrow> Inl Undefined
         | Some b \<Rightarrow>
            (case blocks s b of None \<Rightarrow> Inl Undefined
             | Some es \<Rightarrow> if i < length es then Inr (s\<lparr>blocks := (blocks s)(b := Some (es[i := Some v]))\<rparr>) else Inl Undefined)))"

section \<open>Programs\<close>

definition empty_store :: "'a store" where
  "empty_store = \<lparr>objects = (\<lambda>_. None), blocks = (\<lambda>_. None), use_count = (\<lambda>_. 0)\<rparr>"

text \<open>The steps of a program; copies need a pointer that can be copied.\<close>

inductive array_step :: "bool \<Rightarrow> 'a store \<Rightarrow> 'a store \<Rightarrow> bool" for copyable where
  Default: "objects s x = None \<Longrightarrow> array_step copyable s (default_construct x s)"
| Sized: "objects s x = None \<Longrightarrow> blocks s b = None \<Longrightarrow> array_step copyable s (size_construct x b n s)"
| Span: "objects s x = None \<Longrightarrow> blocks s b = None \<Longrightarrow> array_step copyable s (span_construct x b view s)"
| MoveC: "objects s x = None \<Longrightarrow> objects s y \<noteq> None \<Longrightarrow> array_step copyable s (move_construct x y s)"
| MoveA: "objects s x \<noteq> None \<Longrightarrow> objects s y \<noteq> None \<Longrightarrow> array_step copyable s (move_assign x y s)"
| CopyC: "copyable \<Longrightarrow> objects s x = None \<Longrightarrow> objects s y \<noteq> None \<Longrightarrow> array_step copyable s (copy_construct x y s)"
| CopyA: "copyable \<Longrightarrow> objects s x \<noteq> None \<Longrightarrow> objects s y \<noteq> None \<Longrightarrow> array_step copyable s (copy_assign x y s)"
| Update: "array_update x i v s = Inr s' \<Longrightarrow> array_step copyable s s'"
| Destroy: "objects s x \<noteq> None \<Longrightarrow> array_step copyable s (destroy_array x s)"

inductive array_reachable :: "bool \<Rightarrow> 'a store \<Rightarrow> bool" for copyable where
  Start: "array_reachable copyable empty_store"
| Step: "array_reachable copyable s \<Longrightarrow> array_step copyable s s' \<Longrightarrow> array_reachable copyable s'"

section \<open>Well-formedness\<close>

definition pointers :: "'a store \<Rightarrow> nat \<Rightarrow> nat set" where
  "pointers s b = {x. \<exists>v. objects s x = Some v \<and> impl v = Some b}"

text \<open>The counts are right, the live blocks are those in use, and the length of an array is that of its block.\<close>

definition counts_ok :: "'a store \<Rightarrow> bool" where
  "counts_ok s \<longleftrightarrow> (\<forall>b. finite (pointers s b) \<and> card (pointers s b) = use_count s b \<and> (blocks s b = None \<longleftrightarrow> use_count s b = 0))"

definition length_ok :: "'a store \<Rightarrow> SmartArray \<Rightarrow> bool" where
  "length_ok s v \<longleftrightarrow> (case impl v of None \<Rightarrow> array_length v = 0 | Some b \<Rightarrow> \<exists>es. blocks s b = Some es \<and> length es = array_length v)"

definition lengths_ok :: "'a store \<Rightarrow> bool" where
  "lengths_ok s \<longleftrightarrow> (\<forall>x v. objects s x = Some v \<longrightarrow> length_ok s v)"

definition store_ok :: "bool \<Rightarrow> 'a store \<Rightarrow> bool" where
  "store_ok copyable s \<longleftrightarrow> counts_ok s \<and> lengths_ok s \<and> (\<not> copyable \<longrightarrow> (\<forall>b. use_count s b \<le> 1))"

lemma construct_loop_result: "i + length view \<le> length es \<Longrightarrow> construct_loop view i es = take i es @ map Some view @ drop (i + length view) es"
proof (induction view arbitrary: i es)
  case (Cons entry view)
  then have "construct_loop (entry # view) i es = take (i + 1) (es[i := Some entry]) @ map Some view @ drop (i + 1 + length view) (es[i := Some entry])"
    by simp
  also have "take (i + 1) (es[i := Some entry]) = take i es @ [Some entry]" using Cons.prems by (simp add: take_Suc_conv_app_nth)
  also have "drop (i + 1 + length view) (es[i := Some entry]) = drop (i + length (entry # view)) es" by simp
  finally show ?case by simp
qed simp

lemma construct_view [simp]: "construct_loop view 0 (replicate (length view) None) = map Some view"
  by (simp add: construct_loop_result)

text \<open>The counts while the operation in progress holds pointers of its own.\<close>

definition held_at :: "nat option list \<Rightarrow> 'a store \<Rightarrow> nat \<Rightarrow> bool" where
  "held_at qs s b \<longleftrightarrow> finite (pointers s b) \<and> card (pointers s b) + count_list qs (Some b) = use_count s b \<and> (blocks s b = None \<longleftrightarrow> use_count s b = 0)"

definition held :: "nat option list \<Rightarrow> 'a store \<Rightarrow> bool" where
  "held qs s \<longleftrightarrow> (\<forall>b. held_at qs s b)"

definition drop_object :: "nat \<Rightarrow> 'a store \<Rightarrow> 'a store" where
  "drop_object x s = s\<lparr>objects := (objects s)(x := None)\<rparr>"

lemma held_none [simp]: "held [] s = counts_ok s" "held (None # qs) s = held qs s"
  by (simp_all add: held_def held_at_def counts_ok_def)

lemma put_drop: "put x v s = put x v (drop_object x s)" "put x v (put y w s) = put x v (drop_object x (put y w s))"
  by (simp_all add: put_def drop_object_def)

lemma pointers_put: "objects s x = None \<Longrightarrow> pointers (put x v s) b = (if impl v = Some b then insert x (pointers s b) else pointers s b)"
  by (auto simp: pointers_def put_def)

lemma pointers_drop: "pointers (drop_object x s) b = pointers s b - {x}"
  by (auto simp: pointers_def drop_object_def)

lemma pointers_iff: "objects s x = Some v \<Longrightarrow> x \<in> pointers s b \<longleftrightarrow> impl v = Some b"
  by (auto simp: pointers_def)

lemma object_fields [simp]:
  "use_count (put x v s) = use_count s" "blocks (put x v s) = blocks s"
  "use_count (drop_object x s) = use_count s" "blocks (drop_object x s) = blocks s"
  "objects (put x v s) y = (if y = x then Some v else objects s y)" "objects (drop_object x s) y = (if y = x then None else objects s y)"
  by (simp_all add: put_def drop_object_def)

lemma put_held:
  assumes "objects s x = None" "held (impl v # qs) s"
  shows "held qs (put x v s)"
proof -
  have "held_at qs (put x v s) b" for b
  proof -
    have "x \<notin> pointers s b" using assms(1) by (simp add: pointers_def)
    moreover have "held_at (impl v # qs) s b" using assms(2) by (simp add: held_def)
    ultimately show ?thesis by (auto simp: held_at_def pointers_put [OF assms(1)] split: if_splits)
  qed
  then show ?thesis by (simp add: held_def)
qed

lemma drop_held:
  assumes "objects s x = Some v" "held qs s"
  shows "held (impl v # qs) (drop_object x s)"
proof -
  have "held_at (impl v # qs) (drop_object x s) b" for b
  proof -
    have h: "held_at qs s b" using assms(2) by (simp add: held_def)
    then have "card (pointers s b) = card (pointers s b - {x}) + (if impl v = Some b then 1 else 0)"
      using pointers_iff [OF assms(1), of b] card.remove [of "pointers s b" x] by (simp add: held_at_def)
    then show ?thesis using h by (auto simp: held_at_def pointers_drop split: if_splits)
  qed
  then show ?thesis by (simp add: held_def)
qed

lemma release_pointers [simp]: "objects (release q s) = objects s" "pointers (release q s) = pointers s"
  by (auto simp: release_def pointers_def Let_def fun_eq_iff split: option.splits)

lemma release_held: "held (q # qs) s \<Longrightarrow> held qs (release q s)"
proof (cases q)
  case (Some b)
  assume h: "held (q # qs) s"
  have "held_at qs (release q s) c" for c
  proof -
    define n where "n = card (pointers s c)"
    have "held_at (q # qs) s c" using h by (simp add: held_def)
    then show ?thesis unfolding held_at_def release_pointers n_def [symmetric] by (auto simp: release_def Some Let_def)
  qed
  then show ?thesis by (simp add: held_def)
qed (simp add: release_def)

lemma share_held: "held qs s \<Longrightarrow> (\<And>b. q = Some b \<Longrightarrow> blocks s b \<noteq> None) \<Longrightarrow> held (q # qs) (share q s)"
proof (cases q)
  case (Some b)
  assume "held qs s" "\<And>b. q = Some b \<Longrightarrow> blocks s b \<noteq> None"
  moreover have "pointers (share q s) = pointers s" by (simp add: share_def Some pointers_def fun_eq_iff)
  ultimately show ?thesis by (auto simp: held_def held_at_def share_def Some)
qed (simp add: share_def)

lemma own_held: "held qs s \<Longrightarrow> blocks s b = None \<Longrightarrow> held (Some b # qs) (own b es s)"
proof -
  assume h: "held qs s" "blocks s b = None"
  have "pointers (own b es s) = pointers s" by (simp add: own_def pointers_def fun_eq_iff)
  then show ?thesis using h by (auto simp: held_def held_at_def own_def)
qed

lemma share_fields [simp]: "objects (share q s) = objects s" "blocks (share q s) = blocks s"
  by (simp_all add: share_def split: option.splits)

definition ready :: "nat option list \<Rightarrow> 'a store \<Rightarrow> bool" where
  "ready qs s \<longleftrightarrow> held qs s \<and> lengths_ok s"

lemma length_ok_blocks: "blocks t = blocks s \<Longrightarrow> length_ok t v = length_ok s v"
  by (simp add: length_ok_def split: option.split)

lemma length_ok_fields [simp]:
  "length_ok (put x w s) v = length_ok s v" "length_ok (drop_object x s) v = length_ok s v" "length_ok (share q s) v = length_ok s v"
  by (rule length_ok_blocks, simp add: share_def split: option.split)+

lemma length_ok_null [simp]: "length_ok s \<lparr>array_length = 0, impl = None\<rparr>"
  by (simp add: length_ok_def)

lemma ready_swap: "ready (a # b # qs) s \<Longrightarrow> ready (b # a # qs) s"
proof -
  have "count_list (a # b # qs) = count_list (b # a # qs)" by (simp add: fun_eq_iff)
  then show "ready (a # b # qs) s \<Longrightarrow> ready (b # a # qs) s" by (simp only: ready_def held_def held_at_def simp_thms)
qed

lemma ready_null [simp]: "ready (None # qs) s = ready qs s"
  by (simp add: ready_def)

lemma ready_put: "objects s x = None \<Longrightarrow> ready (impl v # qs) s \<Longrightarrow> length_ok s v \<Longrightarrow> ready qs (put x v s)"
  by (simp add: ready_def put_held lengths_ok_def)

lemma ready_drop: "objects s x = Some v \<Longrightarrow> ready qs s \<Longrightarrow> ready (impl v # qs) (drop_object x s)"
  by (simp add: ready_def drop_held lengths_ok_def)

lemma ready_release:
  assumes "ready (q # qs) s"
  shows "ready qs (release q s)"
proof -
  have "length_ok (release q s) v" if v: "objects s x = Some v" for x v
  proof (cases "impl v")
    case None
    moreover have "length_ok s v" using assms v by (simp add: ready_def lengths_ok_def)
    ultimately show ?thesis by (simp add: length_ok_def)
  next
    case (Some b)
    have "held_at (q # qs) s b" "x \<in> pointers s b" using assms v Some by (simp_all add: ready_def held_def pointers_def)
    then have "1 \<le> card (pointers s b)" by (simp add: held_at_def Suc_le_eq card_gt_0_iff) blast
    then have "blocks (release q s) b = blocks s b" using \<open>held_at (q # qs) s b\<close>
      by (auto simp: release_def held_at_def Let_def split: option.splits)
    moreover have "length_ok s v" using assms v by (simp add: ready_def lengths_ok_def)
    ultimately show ?thesis by (simp add: length_ok_def Some)
  qed
  then show ?thesis using assms by (simp add: ready_def release_held lengths_ok_def)
qed

lemma ready_share: "ready qs s \<Longrightarrow> (\<And>b. q = Some b \<Longrightarrow> blocks s b \<noteq> None) \<Longrightarrow> ready (q # qs) (share q s)"
  by (auto simp: ready_def share_held lengths_ok_def)

lemma ready_own: "ready qs s \<Longrightarrow> blocks s b = None \<Longrightarrow> ready (Some b # qs) (own b es s)"
proof -
  assume r: "ready qs s" and b: "blocks s b = None"
  have "length_ok (own b es s) v" if "length_ok s v" for v
    using that b by (cases "impl v") (auto simp: length_ok_def own_def)
  then show "ready (Some b # qs) (own b es s)" using r b own_held [of qs s b es]
    by (auto simp: ready_def lengths_ok_def) (simp add: own_def)
qed

lemma ready_length: "ready qs s \<Longrightarrow> objects s x = Some v \<Longrightarrow> length_ok s v"
  by (simp add: ready_def lengths_ok_def)

lemma length_ok_block: "length_ok s v \<Longrightarrow> impl v = Some b \<Longrightarrow> blocks s b \<noteq> None"
  by (auto simp: length_ok_def)

section \<open>Every operation keeps the store well-formed\<close>

lemma set_length_release: "set_length x n (release q s) = release q (set_length x n s)"
  by (auto simp: set_length_def release_def put_def Let_def split: option.splits)

lemma move_assign_eq:
  assumes "objects s x = Some this" "objects s y = Some other"
  shows "move_assign x y s = (if x = y then s else release (impl this) (put y \<lparr>array_length = 0, impl = None\<rparr> (put x other s)))"
proof (cases "x = y")
  case True
  then show ?thesis using assms
    by (auto simp: move_assign_def move_impl_def set_length_def array_size_def put_def Let_def fun_upd_idem)
next
  case False
  have "move_assign x y s = release (impl this) (set_length x (array_length other) (set_length y 0 (put y (other\<lparr>impl := None\<rparr>) (put x (this\<lparr>impl := impl other\<rparr>) s))))"
    using False assms by (simp add: move_assign_def move_impl_def Let_def array_size_def set_length_release)
  also have "set_length x (array_length other) (set_length y 0 (put y (other\<lparr>impl := None\<rparr>) (put x (this\<lparr>impl := impl other\<rparr>) s))) = put y \<lparr>array_length = 0, impl = None\<rparr> (put x other s)"
    using False by (cases other; cases this) (auto simp: set_length_def put_def fun_upd_twist)
  finally show ?thesis using False by simp
qed

lemma move_construct_eq:
  "objects s y = Some other \<Longrightarrow> move_construct x y s = put y \<lparr>array_length = 0, impl = None\<rparr> (put x other s)"
  by (cases other) (simp add: move_construct_def)

lemma move_construct_ready:
  assumes "ready [] s" "objects s x = None" "objects s y = Some other"
  shows "ready [] (put y \<lparr>array_length = 0, impl = None\<rparr> (put x other s))"
proof -
  have xy: "x \<noteq> y" using assms by auto
  have "ready [] (put x other (drop_object y s))"
    using ready_drop [OF assms(3,1)] assms xy ready_length [OF assms(1,3)] by - (rule ready_put, simp_all)
  then have "ready [] (put y \<lparr>array_length = 0, impl = None\<rparr> (put x other (drop_object y s)))"
    using xy by - (rule ready_put, simp_all)
  moreover have "put y \<lparr>array_length = 0, impl = None\<rparr> (put x other (drop_object y s)) = put y \<lparr>array_length = 0, impl = None\<rparr> (put x other s)"
    using xy by (simp add: put_def drop_object_def fun_upd_twist)
  ultimately show ?thesis by simp
qed

lemma move_assign_ready:
  assumes "ready [] s" "objects s x = Some this" "objects s y = Some other" "x \<noteq> y"
  shows "ready [] (release (impl this) (put y \<lparr>array_length = 0, impl = None\<rparr> (put x other s)))"
proof -
  let ?s = "drop_object x (drop_object y s)"
  have "ready [impl this, impl other] ?s"
    using ready_drop [OF _ ready_drop [OF assms(3,1)], of x this] assms by simp
  then have "ready [impl this] (put x other ?s)"
    using ready_length [OF assms(1,3)] by (intro ready_put [OF _ ready_swap]) simp_all
  then have "ready [impl this] (put y \<lparr>array_length = 0, impl = None\<rparr> (put x other ?s))"
    using assms(4) by - (rule ready_put, simp_all)
  moreover have "put y \<lparr>array_length = 0, impl = None\<rparr> (put x other ?s) = put y \<lparr>array_length = 0, impl = None\<rparr> (put x other s)"
    using assms(4) by (auto simp: put_def drop_object_def fun_upd_twist)
  ultimately show ?thesis by (simp add: ready_release)
qed

lemma copy_assign_ready:
  assumes "ready [] s" "objects s x = Some this" "objects s y = Some other"
  shows "ready [] (release (impl this) (put x other (share (impl other) s)))"
proof -
  have l: "length_ok s other" by (rule ready_length [OF assms(1,3)])
  then have "ready [impl other] (share (impl other) s)" using assms(1) by (intro ready_share) (auto dest: length_ok_block)
  then have "ready [impl this, impl other] (drop_object x (share (impl other) s))" using assms(2) by (intro ready_drop) simp_all
  then have "ready [impl this] (put x other (drop_object x (share (impl other) s)))"
    using l by (intro ready_put [OF _ ready_swap]) simp_all
  then show ?thesis unfolding put_drop(1) [of x other "share (impl other) s", symmetric] by (rule ready_release)
qed

lemma array_step_ready:
  assumes "array_step copyable s s'" "ready [] s"
  shows "ready [] s'"
  using assms
proof cases
  case (Default x)
  then show ?thesis using assms(2) by (simp add: default_construct_def ready_put)
next
  case (Sized x b n)
  then show ?thesis using ready_own [OF assms(2), of b "replicate n None"]
    by (simp add: size_construct_def) (rule ready_put, auto simp: own_def length_ok_def)
next
  case (Span x b view)
  then show ?thesis using ready_own [OF assms(2), of b "map Some view"]
    by (simp add: span_construct_def) (rule ready_put, auto simp: own_def length_ok_def)
next
  case (MoveC x y)
  then show ?thesis using move_construct_ready [OF assms(2)] by (auto simp: move_construct_eq)
next
  case (MoveA x y)
  then show ?thesis using assms(2) move_assign_ready [OF assms(2)] by (auto simp: move_assign_eq)
next
  case (CopyC x y)
  then obtain other where other: "objects s y = Some other" by blast
  have "ready [impl other] (share (impl other) s)"
    using assms(2) ready_length [OF assms(2) other] by (intro ready_share) (auto dest: length_ok_block)
  then show ?thesis using CopyC other ready_length [OF assms(2) other]
    by (simp add: copy_construct_def) (rule ready_put, simp_all)
next
  case (CopyA x y)
  then show ?thesis using copy_assign_ready [OF assms(2)] by (auto simp: copy_assign_def)
next
  case (Update x i v)
  then obtain b es where s': "s' = s\<lparr>blocks := (blocks s)(b := Some (es[i := Some v]))\<rparr>" and b: "blocks s b = Some es"
    by (auto simp: array_update_def split: option.splits if_splits)
  have p: "pointers s' = pointers s" by (simp add: s' pointers_def fun_eq_iff)
  have "length_ok s' w" if "length_ok s w" for w using that b by (cases "impl w") (auto simp: s' length_ok_def)
  moreover have "use_count s b \<noteq> 0" using assms(2) b by (metis counts_ok_def held_none(1) option.distinct(1) ready_def)
  then have "counts_ok s'" using assms(2) unfolding ready_def held_none counts_ok_def p by (simp add: s')
  ultimately show ?thesis using assms(2) by (simp add: ready_def lengths_ok_def) (simp add: s')
next
  case (Destroy x)
  then obtain v where v: "objects s x = Some v" by blast
  then show ?thesis using Destroy ready_release [OF ready_drop [OF v assms(2)]] by (simp add: destroy_array_def drop_object_def)
qed

lemma use_count_release: "use_count (release q s) b \<le> use_count s b"
  by (auto simp: release_def Let_def split: option.splits)

lemma array_step_unique:
  assumes "array_step False s s'" "\<forall>b. use_count s b \<le> 1"
  shows "\<forall>b. use_count s' b \<le> 1"
proof -
  have rel: "\<forall>b. use_count (release q t) b \<le> 1" if "use_count t = use_count s" for q t
    using assms(2) that use_count_release [of q t] by (metis le_trans)
  from assms(1) show ?thesis
  proof cases
    case (MoveA x y)
    then obtain this other where "objects s x = Some this" "objects s y = Some other" by blast
    moreover have "\<forall>b. use_count (release (impl this) (put y \<lparr>array_length = 0, impl = None\<rparr> (put x other s))) b \<le> 1" by (rule rel) simp
    ultimately show ?thesis using assms(2) MoveA by (simp add: move_assign_eq)
  next
    case (Destroy x)
    then obtain v where v: "objects s x = Some v" by blast
    have "\<forall>b. use_count (release (impl v) (s\<lparr>objects := (objects s)(x := None)\<rparr>)) b \<le> 1" by (rule rel) simp
    then show ?thesis using Destroy v by (simp add: destroy_array_def)
  qed (use assms(2) in \<open>auto simp: default_construct_def size_construct_def span_construct_def own_def move_construct_def array_update_def
      split: option.splits if_splits\<close>)
qed

lemma array_reachable_ok: "array_reachable copyable s \<Longrightarrow> store_ok copyable s"
proof (induction rule: array_reachable.induct)
  case Start
  then show ?case by (simp add: store_ok_def counts_ok_def lengths_ok_def pointers_def empty_store_def)
next
  case (Step s s')
  then have "ready [] s" by (simp add: store_ok_def ready_def)
  then have "ready [] s'" by (rule array_step_ready [OF Step.hyps(2)])
  moreover have "\<not> copyable \<Longrightarrow> \<forall>b. use_count s' b \<le> 1"
    using Step.IH Step.hyps(2) array_step_unique by (cases copyable) (auto simp: store_ok_def)
  ultimately show ?case by (simp add: store_ok_def ready_def)
qed

text \<open>
  C37.  Every program with arrays keeps them well-formed: an index is valid exactly below
  the size, however the array was built, copied, moved (also onto itself) or emptied; a
  block is live exactly while an array refers to it, so none leaks and none is freed
  early; and two arrays on unique pointers never share a block.
\<close>

theorem smart_array_wf:
  assumes "array_reachable copyable s"
  shows "(\<forall>x i. (\<exists>e. array_index x i s = Inr e) \<longleftrightarrow> i < array_size x s) \<and>
    (\<forall>b. blocks s b \<noteq> None \<longleftrightarrow> pointers s b \<noteq> {}) \<and>
    (\<forall>b. use_count s b = card (pointers s b)) \<and>
    (\<not> copyable \<longrightarrow> (\<forall>b x y. x \<in> pointers s b \<and> y \<in> pointers s b \<longrightarrow> x = y))"
proof -
  have ok: "counts_ok s" "lengths_ok s" "\<not> copyable \<longrightarrow> (\<forall>b. use_count s b \<le> 1)"
    using array_reachable_ok [OF assms] by (simp_all add: store_ok_def)
  have "(\<exists>e. array_index x i s = Inr e) \<longleftrightarrow> i < array_size x s" for x i
  proof (cases "objects s x")
    case (Some v)
    then have "length_ok s v" using ok(2) by (simp add: lengths_ok_def)
    then show ?thesis using Some by (cases "impl v") (auto simp: array_index_def array_size_def length_ok_def split: if_splits)
  qed (simp add: array_index_def array_size_def)
  moreover have "blocks s b \<noteq> None \<longleftrightarrow> pointers s b \<noteq> {}" for b
    using ok(1) by (metis card_0_eq counts_ok_def)
  moreover have "use_count s b = card (pointers s b)" for b using ok(1) by (simp add: counts_ok_def)
  moreover have "x = y" if "\<not> copyable" "x \<in> pointers s b" "y \<in> pointers s b" for b x y
  proof -
    have "card (pointers s b) \<le> 1" "finite (pointers s b)" using ok that(1) by (simp_all add: counts_ok_def)
    then show ?thesis using that(2,3) by (auto simp: card_le_Suc0_iff_eq)
  qed
  ultimately show ?thesis by blast
qed

text \<open>The elements: a constructor copies its view and a move hands the elements over.\<close>

lemma span_construct_elements:
  "i < length view \<Longrightarrow> array_index x i (span_construct x b view s) = Inr (Some (view ! i))"
  by (simp add: array_index_def span_construct_def put_def own_def)

lemma move_construct_elements:
  "objects s x = None \<Longrightarrow> objects s y \<noteq> None \<Longrightarrow> array_index x i (move_construct x y s) = array_index y i s \<and> array_size y (move_construct x y s) = 0"
  by (auto simp: array_index_def move_construct_eq array_size_def split: option.splits)

theorem smart_array_wf_witness:
  "\<exists>s :: nat store. array_reachable False s \<and> array_index 1 1 s = Inr (Some 20) \<and> array_size 0 s = 0 \<and> \<not> (\<exists>e. array_index 1 2 s = Inr e)"
proof -
  define s1 :: "nat store" where "s1 = span_construct 0 5 [10, 20] empty_store"
  define s2 where "s2 = move_construct 1 0 s1"
  have "array_reachable False s1"
    unfolding s1_def by (rule array_reachable.Step [OF array_reachable.Start array_step.Span]) (simp_all add: empty_store_def)
  then have r: "array_reachable False s2"
    unfolding s2_def by (rule array_reachable.Step [OF _ array_step.MoveC]) (simp_all add: s1_def span_construct_def put_def own_def empty_store_def)
  have v: "array_index 1 1 s2 = Inr (Some 20)" "array_size 0 s2 = 0" "array_size 1 s2 = 2"
    by (simp_all add: s2_def s1_def array_index_def array_size_def move_construct_def span_construct_def put_def own_def)
  have "\<not> (\<exists>e. array_index 1 2 s2 = Inr e)" using smart_array_wf [OF r, THEN conjunct1] v(3) by simp
  with r v(1,2) show ?thesis by blast
qed

end
