(* ===== verification/Runtime.thy ===== *)
theory Runtime
  imports Heap_Ranges
begin

unbundle bit_operations_syntax

text \<open>
  The frame around an application: the order of the start-up (\<open>main64.cc\<close>), initialisers,
  finalisers and the end of the program (\<open>crt/monza_main.cc\<close>, \<open>monza-libc\<close> exit functions),
  and the functions of the C library that have logic of their own: memory mappings, the
  write of a stream, the environment and the locale.  Allocator functions and
  the constants of the C headers are parameters.
\<close>

section \<open>Start-up\<close>

datatype boot_step =
  SetupHeap | InitAllocator byte_span u64 | SetupCores | ApInit | SetupHypervisorStage2 | SetupGdt | SetupCompartments |
  SetupPagetable | AddRange byte_span | SetupIdt | MonzaMain

text \<open>The steps after the heap is known: the allocator starts with the first range and the size of all.\<close>

definition startcc :: "HeapRanges \<Rightarrow> boot_step list result" where
  "startcc h =
    (if scount (first_range h) = 0 then Inl KAbort
     else Inr ([SetupHeap, InitAllocator (first_range h) (heap_size h), SetupCores, ApInit, SetupHypervisorStage2, SetupGdt,
       SetupCompartments, SetupPagetable] @ map AddRange (additional_ranges h) @ [SetupIdt, MonzaMain]))"

text \<open>Memory that the boot tables may not map is used only after the kernel page table is there; every range is added.\<close>

lemma startcc_order:
  assumes "startcc h = Inr steps"
  shows "\<exists>before after. steps = before @ SetupPagetable # after \<and> (\<forall>r. AddRange r \<notin> set before) \<and>
    [r. AddRange r \<leftarrow> steps] = additional_ranges h \<and> scount (first_range h) \<noteq> 0"
proof -
  let ?before = "[SetupHeap, InitAllocator (first_range h) (heap_size h), SetupCores, ApInit, SetupHypervisorStage2, SetupGdt, SetupCompartments]"
  have "[r. AddRange r \<leftarrow> map AddRange xs] = xs" for xs by (induction xs) simp_all
  moreover have "steps = ?before @ SetupPagetable # map AddRange (additional_ranges h) @ [SetupIdt, MonzaMain]" "scount (first_range h) \<noteq> 0"
    using assms by (auto simp: startcc_def split: if_splits)
  ultimately show ?thesis by (intro exI [of _ ?before] exI [of _ "map AddRange (additional_ranges h) @ [SetupIdt, MonzaMain]"]) simp
qed

section \<open>Initialisers and finalisers\<close>

text \<open>The loops over the tables of functions; the second counts down to the start of the table.\<close>

definition monza_initializers :: "('s \<Rightarrow> 's) \<Rightarrow> ('s \<Rightarrow> 's) \<Rightarrow> ('s \<Rightarrow> 's) list \<Rightarrow> 's \<Rightarrow> 's" where
  "monza_initializers thread_initializers init_fn init_array s = fold (\<lambda>f. f) init_array (init_fn (thread_initializers s))"

fun fini_loop :: "('s \<Rightarrow> 's) list \<Rightarrow> nat \<Rightarrow> 's \<Rightarrow> 's" where
  "fini_loop fini_array 0 s = s"
| "fini_loop fini_array (Suc n) s = fini_loop fini_array n ((fini_array ! n) s)"

definition monza_finalizers :: "('s \<Rightarrow> 's) \<Rightarrow> ('s \<Rightarrow> 's) list \<Rightarrow> 's \<Rightarrow> 's" where
  "monza_finalizers fini_fn fini_array s = fini_fn (fini_loop fini_array (length fini_array) s)"

lemma fini_loop_rev: "n \<le> length fs \<Longrightarrow> fini_loop fs n s = fold (\<lambda>f. f) (rev (take n fs)) s"
  by (induction n arbitrary: s) (simp_all add: take_Suc_conv_app_nth)

text \<open>Finalisers that undo the initialisers of the same place undo all of them.\<close>

lemma finalizers_undo:
  assumes "length fini_array = length init_array" "\<forall>i < length init_array. \<forall>s. (fini_array ! i) ((init_array ! i) s) = s" "\<forall>s. fini_fn (init_fn s) = s"
  shows "monza_finalizers fini_fn fini_array (monza_initializers thread_initializers init_fn init_array s) = thread_initializers s"
proof -
  have "fold (\<lambda>f. f) (rev fs) (fold (\<lambda>f. f) gs s) = s"
    if "length fs = length gs" "\<forall>i < length gs. \<forall>s. (fs ! i) ((gs ! i) s) = s" for fs gs :: "('a \<Rightarrow> 'a) list" and s
    using that
  proof (induction fs gs arbitrary: s rule: list_induct2)
    case (Cons f fs g gs)
    have "\<forall>i < length gs. \<forall>s. (fs ! i) ((gs ! i) s) = s" using Cons.prems by force
    moreover have "f (g s) = s" using Cons.prems by force
    ultimately show ?case using Cons.IH by simp
  qed simp
  from this [OF assms(1,2)] show ?thesis using assms(3) by (simp add: monza_finalizers_def monza_initializers_def fini_loop_rev)
qed

section \<open>The end of the program\<close>

text \<open>The main core leaves with the result of \<open>main\<close> once no core is running; \<open>running k\<close> is the counter at the k-th look.\<close>

partial_function (option) wait_cores :: "(nat \<Rightarrow> u64) \<Rightarrow> nat \<Rightarrow> nat option" where
  "wait_cores running k = (if running k > 0 then wait_cores running (Suc k) else Some k)"

definition monza_main :: "(nat \<Rightarrow> u64) \<Rightarrow> int \<Rightarrow> 'a result option" where
  "monza_main running ret = (case wait_cores running 0 of None \<Rightarrow> None | Some _ \<Rightarrow> Some (Inl (Exit ret)))"

definition kabort :: "'a result" where "kabort = Inl (Exit 127)"

text \<open>In a compartment the status of an exit is lost.\<close>

definition libc_Exit :: "bool \<Rightarrow> int \<Rightarrow> int" where
  "libc_Exit is_compartment status = (if is_compartment then 127 else status)"

lemma monza_main_exits:
  assumes "running n = 0"
  shows "monza_main running ret = Some (Inl (Exit ret))"
proof -
  have "\<exists>k. wait_cores running i = Some k" if "i \<le> n" for i
    using that
  proof (induction "n - i" arbitrary: i)
    case 0
    then show ?case using assms by (subst wait_cores.simps) simp
  next
    case (Suc d)
    then show ?case using Suc.hyps(1) [of "Suc i"] by (subst wait_cores.simps) simp
  qed
  from this [of 0] show ?thesis by (auto simp: monza_main_def)
qed

section \<open>C library\<close>

record 'h page_allocator =
  MAP_PRIVATE :: u32
  MAP_ANONYMOUS :: u32
  aligned_size :: "u64 \<Rightarrow> u64"
  page_aligned :: "u64 \<Rightarrow> bool"
  calloc :: "u64 \<Rightarrow> 'h \<Rightarrow> u64 \<times> 'h"
  base_pointer :: "'h \<Rightarrow> u64 \<Rightarrow> u64"
  alloc_size :: "'h \<Rightarrow> u64 \<Rightarrow> u64"
  free_block :: "u64 \<Rightarrow> 'h \<Rightarrow> 'h"

definition mprotect :: "'h page_allocator \<Rightarrow> u64 \<Rightarrow> int" where
  "mprotect A address = (if \<not> page_aligned A address then -1 else 0)"

definition mmap :: "'h page_allocator \<Rightarrow> u64 \<Rightarrow> u64 \<Rightarrow> u32 \<Rightarrow> 'h \<Rightarrow> u64 \<times> 'h" where
  "mmap A address len flags h =
    (if address \<noteq> 0 then (0, h)
     else if flags \<noteq> MAP_ANONYMOUS A OR MAP_PRIVATE A then (0, h)
     else
       let (alloc, h1) = calloc A (aligned_size A len) h in
       if mprotect A alloc = 0 then (alloc, h1) else (0, h1))"

definition munmap :: "'h page_allocator \<Rightarrow> u64 \<Rightarrow> u64 \<Rightarrow> 'h \<Rightarrow> int \<times> 'h" where
  "munmap A address len h =
    (if base_pointer A h address \<noteq> address \<or> alloc_size A h address \<noteq> aligned_size A len then (-1, h)
     else if mprotect A address \<noteq> 0 then (-1, h)
     else (0, free_block A address h))"

text \<open>A mapping that the allocator sized exactly can be given back; one that it rounded up cannot.\<close>

lemma mmap_munmap:
  assumes "mmap A 0 len (MAP_ANONYMOUS A OR MAP_PRIVATE A) h = (a, h1)" "a \<noteq> 0" "base_pointer A h1 a = a"
  shows "munmap A a len h1 = (if alloc_size A h1 a = aligned_size A len then (0, free_block A a h1) else (-1, h1))"
  using assms by (auto simp: mmap_def munmap_def mprotect_def split: prod.splits if_splits)

text \<open>The stream buffer goes out before the new data; the result counts only the new data.\<close>

definition stdio_actual_write :: "u64 \<Rightarrow> u64 \<Rightarrow> u64 \<Rightarrow> u64" where
  "stdio_actual_write written flen len = (if written = flen + len then len else if written \<ge> flen then written - flen else 0)"

lemma stdio_actual_write_exact:
  "unat flen + unat len < 2 ^ 64 \<Longrightarrow> unat (stdio_actual_write written flen len) = unat written - unat flen"
  by (auto simp: stdio_actual_write_def unat_add64 word_nat unat_sub64)

definition MILAN_OPENSSL_IA32CAP :: string where "MILAN_OPENSSL_IA32CAP = ''0xe6da2203078bfbff:0x400684219c0789''"

definition getenv :: "bool \<Rightarrow> string \<Rightarrow> string option" where
  "getenv is_confidential key = (if is_confidential \<and> key = ''OPENSSL_ia32cap'' then Some MILAN_OPENSSL_IA32CAP else None)"

definition newlocale :: "u32 \<Rightarrow> u32 \<Rightarrow> string \<Rightarrow> u64 \<Rightarrow> unit result" where
  "newlocale LC_ALL_MASK category_mask locale_name base =
    (if category_mask \<noteq> LC_ALL_MASK \<or> locale_name \<noteq> ''C'' \<or> base \<noteq> 0 then Inl Abort else Inr ())"

definition setlocale :: "u32 \<Rightarrow> u32 \<Rightarrow> string option \<Rightarrow> string result" where
  "setlocale LC_ALL category locale_name =
    (if category \<noteq> LC_ALL \<or> (locale_name \<noteq> None \<and> locale_name \<noteq> Some ''C'') then Inl Abort else Inr ''C'')"

end
