(* ===== verification/Spec2Isabelle.thy ===== *)
theory Spec2Isabelle
  imports Core_Start Compartment_Calls Recursive_Once Acpi Smart_Array Runtime
begin

text \<open>
  \<^bold>\<open>Monza: a verification development of the guest runtime.\<close>

  Monza is a unikernel that runs an application in a virtual machine, on Hyper-V, KVM or
  as a confidential SEV-SNP guest, and can split it into compartments with page tables and
  heaps of their own.  Paths below are relative to \<^verbatim>\<open>src/guest-verona-rt\<close> unless they
  begin with \<^verbatim>\<open>src\<close>.

  \<^bold>\<open>Parts and how they interact.\<close>
  At start the platform code reads a memory map and describes the heap as address ranges
  (\<^verbatim>\<open>heap_generic.cc\<close>, \<^verbatim>\<open>hv_sev.cc\<close>, \<^verbatim>\<open>heap.h\<close>, \<^verbatim>\<open>address.h\<close>), builds the kernel page table
  (\<^verbatim>\<open>pagetable.cc\<close>) and finds the cores (\<^verbatim>\<open>cores_generic.cc\<close>).  The allocator back end
  (\<^verbatim>\<open>snmalloc.h\<close>) hands out ranges, records which compartment owns each granule, and maps
  owned ranges into the page table of the compartment; the page-fault handler (\<^verbatim>\<open>trap.cc\<close>)
  decides from the owner what a compartment may see.  Compartments are entered and left
  through assembly (\<^verbatim>\<open>compartment.asm\<close>), call back through typed handles, and ask the kernel
  for memory and console output (\<^verbatim>\<open>crt/compartment.cc\<close>, \<^verbatim>\<open>crt/output.cc\<close>).  Threads are cores
  that wait for functions (\<^verbatim>\<open>crt/thread.cc\<close>, \<^verbatim>\<open>cores.asm\<close>); the C++ library's locks are built on
  spinlocks and a halting semaphore.

  \<^bold>\<open>Theories.\<close>
  \<^item> \<open>Monza_Prelude\<close>: results with faults (\<open>KAbort\<close> is \<^verbatim>\<open>kabort\<close>), loops over 64-bit counters, word
    lemmas, and the locale \<open>snmalloc_env\<close> of the constants and rounding functions of snmalloc.
    \<open>Byte_Memory\<close>: byte-addressed memory.  \<open>Simulation\<close>: forward simulation, as a locale.
  \<^item> \<open>Address_Range\<close>, \<open>Heap_Ranges\<close>, \<open>Sev_Memory\<close>: the ranges are exact under rounding; both heap
    set-ups abort or describe exactly the memory they should, and no page is accepted twice.
  \<^item> \<open>Page_Table\<close> (the code), \<open>Page_Table_Walk\<close> (the hardware walk), \<open>Page_Table_Update\<close> and
    \<open>Page_Table_Properties\<close>: mapping and unmapping change the translation of exactly the given
    range; tables that share no node do not influence each other; the kernel table and a new
    compartment table translate as their requests say.
  \<^item> \<open>Ownership\<close>: the owner of each granule and the intrusive lists of granules, as a
    refinement of a map from granules to owners.  \<open>Compartment_Memory\<close>, \<open>Compartment_Isolation\<close>: the
    allocator range of a compartment and the fault handler, as a step relation of all
    compartments; no compartment can write memory it does not own, and destroying one frees
    exactly its memory.
  \<^item> \<open>Compartment_Objects\<close>, \<open>Compartment_Switch\<close>, \<open>Compartment_Calls\<close>: stacks and invocation, the
    transitions between kernel and compartments (nested calls and aborts), and the kernel
    services with their checks of addresses.
  \<^item> \<open>Logging\<close>: the fixed log buffer; numbers read back.  \<open>Thread_Local\<close>: the layout of a TLS region
    and the dynamic slots.
  \<^item> \<open>Threads\<close>, \<open>Semaphore\<close>, \<open>Sync\<close>, \<open>Recursive_Once\<close>: step relations, one step per access to shared
    memory.  A function given to a core runs once; the semaphore, the mutex and the
    condition variable lose no wake-up; at most one thread has the mutex; the recursive
    mutex refines the plain one when it is not nested; the run-once flag runs once.
  \<^item> \<open>Acpi\<close>: the tables of the firmware, with entries of any type and length.
  \<^item> \<open>Sev_Protocol\<close>, \<open>Sev_Calls\<close>, \<open>Guest_Request\<close>: an SEV-SNP guest and its host (\<^verbatim>\<open>hv_sev.cc\<close>,
    \<^verbatim>\<open>hv_sev_guest_request.cc\<close>).  The host is an arbitrary function of what it is given at an exit.
    Blocks of shared memory are disjoint and were asked for as shared; the block of a request
    holds what the call means; a response of the security processor is accepted only if it was
    sealed under the next number, and no number is used twice.
  \<^item> \<open>Shared_Memory\<close>: the memory shared with the host program (\<^verbatim>\<open>src/app-framework\<close>), its
    allocator on the host side and the validation on the guest side, which fit together.
  \<^item> \<open>Segments\<close>, \<open>Core_Start\<close>: descriptor tables (\<^verbatim>\<open>gdt.h\<close>, \<^verbatim>\<open>gdt.cc\<close>), the choice of the platform
    (\<^verbatim>\<open>hypervisor.cc\<close>) and the start of a core on Hyper-V (\<^verbatim>\<open>hv.cc\<close>) and SEV-SNP (\<^verbatim>\<open>cores_sev.cc\<close>):
    it gets its own addresses and task segment, and the host is asked for this core.
  \<^item> \<open>Time_Random\<close>: clocks and random bytes.  \<open>Smart_Array\<close>: the array class; every program keeps
    its arrays well-formed.  \<open>Runtime\<close>: the order of the start-up, initialisers, and the library
    functions with logic of their own.

  \<^bold>\<open>Correspondence.\<close>
  Definitions keep the names of the functions and members they model, with a prefix or suffix
  where HOL has the name already.  A pointer is a 64-bit word or, for list nodes, a node
  name; sizes and addresses are 64-bit words and wrap; \<^verbatim>\<open>kabort\<close> and failed checks are values.
  Code outside the sources is a parameter with named laws: snmalloc (\<open>snmalloc_env\<close>,
  \<open>flat_pagemap\<close> and the parent range of \<open>Compartment_Memory\<close>), the Verona queue (\<open>wait_queue\<close>),
  the serial device, the hypervisor (a function of the register and the
  memory) and the cipher of OpenSSL (\<open>authenticated_cipher\<close>).  Every locale is interpreted on definitions of the development.

  \<^bold>\<open>Bounds and loops.\<close>
  A loop over a 64-bit counter, which may wrap, is a partial function into \<open>option\<close> where None
  is a loop that does not end; theorems that an operation returns state that the value is
  Some.  No theorem has a fuel bound.  Concurrent code takes the accesses in one order,
  which the acquire and release orderings and the x86 memory model give for the locations
  concerned; the number of threads is a parameter.

  \<^bold>\<open>Not modelled.\<close>
  \<^item> Interrupt and exception entry code, boot code, the linker script and the single
    instructions that load tables or make hypercalls: register and table set-up.
  \<^item> Forwarding stubs of \<^verbatim>\<open>monza-libc\<close> and casts between views of memory.
  \<^item> The Windows host programs and the processes that the host library starts
    (\<^verbatim>\<open>src/windows\<close>, \<^verbatim>\<open>src/apps\<close>): calls of services that are not part of the sources.
  \<^item> The composition of snmalloc ranges and types in \<^verbatim>\<open>snmalloc.h\<close>: templates of the submodule.
  \<^item> Patches, build files, scripts and tests: not part of the running program.
\<close>

end
